(* ===== verification/Go_Prelude.thy ===== *)
theory Go_Prelude
  imports Main "HOL-Library.Sublist" "HOL-Library.AList" "HOL-Library.Char_ord"
    "HOL-Library.List_Lexorder" "HOL-Library.Multiset"
begin

text \<open>
  Shared vocabulary of the development: the parts of the Go language and of its standard
  library (package \<^verbatim>\<open>strings\<close>, maps, integer arithmetic, \<^verbatim>\<open>sort.Slice\<close>) that several
  components use, the named fact collections, and generic lemmas.

  Go strings are byte sequences, so they are \<open>string\<close> (lists of 8-bit characters).
  Go's \<open>map[string]string\<close> is an association list read through \<open>map_of\<close>; a nil map
  and an empty map read alike and are both \<open>[]\<close>. Go's \<open>int64\<close> is \<open>int\<close> with the
  wrap-around of \<open>wrap64\<close> where the source can overflow.
\<close>

named_theorems go_eval \<open>definitions unfolded to evaluate the Go library on concrete input\<close>
named_theorems fs_frame \<open>what a file system operation leaves unchanged\<close>

type_synonym smap = "(string \<times> string) list"

section \<open>Definitions\<close>

subsection \<open>Package strings\<close>

definition HasPrefix :: "string \<Rightarrow> string \<Rightarrow> bool" where
  "HasPrefix s p = prefix p s"

definition HasSuffix :: "string \<Rightarrow> string \<Rightarrow> bool" where
  "HasSuffix s p = suffix p s"

fun Contains :: "string \<Rightarrow> string \<Rightarrow> bool" where
  "Contains [] p = (p = [])"
| "Contains (c # s) p = (prefix p (c # s) \<or> Contains s p)"

text \<open>\<open>strings.CutPrefix\<close>: the rest after the prefix, or \<open>None\<close> for \<open>ok = false\<close>.\<close>

definition CutPrefix :: "string \<Rightarrow> string \<Rightarrow> string option" where
  "CutPrefix s p = (if prefix p s then Some (drop (length p) s) else None)"

text \<open>\<open>strings.Cut\<close> around the first occurrence of a one-byte separator.\<close>

fun Cut :: "string \<Rightarrow> char \<Rightarrow> (string \<times> string) option" where
  "Cut [] c = None"
| "Cut (x # xs) c =
     (if x = c then Some ([], xs)
      else case Cut xs c of None \<Rightarrow> None | Some (b, a) \<Rightarrow> Some (x # b, a))"

text \<open>\<open>strings.Join\<close>.\<close>

fun Join_strings :: "string list \<Rightarrow> string \<Rightarrow> string" where
  "Join_strings [] sep = []"
| "Join_strings [x] sep = x"
| "Join_strings (x # y # xs) sep = x @ sep @ Join_strings (y # xs) sep"

text \<open>White space of \<open>strings.Fields\<close> and \<open>strings.TrimSpace\<close> (the ASCII part).\<close>

definition isSpace :: "char \<Rightarrow> bool" where
  "isSpace c = (c \<in> {CHR '' '', CHR 0x09, CHR 0x0A, CHR 0x0B, CHR 0x0C, CHR 0x0D})"

definition TrimSpace :: "string \<Rightarrow> string" where
  "TrimSpace s = rev (dropWhile isSpace (rev (dropWhile isSpace s)))"

fun fields_aux :: "string \<Rightarrow> string \<Rightarrow> string list" where
  "fields_aux cur [] = (if cur = [] then [] else [rev cur])"
| "fields_aux cur (c # s) =
     (if isSpace c then (if cur = [] then fields_aux [] s else rev cur # fields_aux [] s)
      else fields_aux (c # cur) s)"

definition Fields :: "string \<Rightarrow> string list" where
  "Fields s = fields_aux [] s"

subsection \<open>Maps and pointers\<close>

text \<open>Reading a missing key of a \<open>map[string]string\<close> gives the zero value.\<close>

definition mget :: "smap \<Rightarrow> string \<Rightarrow> string" where
  "mget m k = (case map_of m k of None \<Rightarrow> [] | Some v \<Rightarrow> v)"

definition mput :: "string \<Rightarrow> string \<Rightarrow> smap \<Rightarrow> smap" where
  "mput k v m = AList.update k v m"

definition mdel :: "string \<Rightarrow> smap \<Rightarrow> smap" where
  "mdel k m = AList.delete k m"

subsection \<open>Integers\<close>

text \<open>Two's complement wrap-around of \<open>int64\<close> and \<open>int32\<close>, and Go's truncating division.\<close>

definition wrap64 :: "int \<Rightarrow> int" where
  "wrap64 x = (x + 2 ^ 63) mod 2 ^ 64 - 2 ^ 63"

definition wrap32 :: "int \<Rightarrow> int" where
  "wrap32 x = (x + 2 ^ 31) mod 2 ^ 32 - 2 ^ 31"

definition quot :: "int \<Rightarrow> int \<Rightarrow> int" where
  "quot a b = sgn a * sgn b * (\<bar>a\<bar> div \<bar>b\<bar>)"

subsection \<open>io.LimitReader\<close>

text \<open>The bytes that can be read from a reader limited to \<open>n\<close> bytes.\<close>

definition LimitReader :: "string \<Rightarrow> int \<Rightarrow> string" where
  "LimitReader r n = (if int (length r) \<le> n then r else take (nat n) r)"

subsection \<open>sort.Slice\<close>

text \<open>
  \<open>sort.Slice\<close> takes a comparison function and sorts in place, without a stability
  guarantee. Go's insertion sort, which it uses for short slices, is \<open>insertionSort\<close>:
  the element moves left while it is less than its left neighbour.
\<close>

fun insert_left :: "('a \<Rightarrow> 'a \<Rightarrow> bool) \<Rightarrow> 'a \<Rightarrow> 'a list \<Rightarrow> 'a list" where
  "insert_left lt x [] = [x]"
| "insert_left lt x (y # ys) = (if lt x y then y # insert_left lt x ys else x # y # ys)"

text \<open>The second argument is the sorted prefix, nearest element first.\<close>

fun insertion_loop :: "('a \<Rightarrow> 'a \<Rightarrow> bool) \<Rightarrow> 'a list \<Rightarrow> 'a list \<Rightarrow> 'a list" where
  "insertion_loop lt done_rev [] = rev done_rev"
| "insertion_loop lt done_rev (x # xs) = insertion_loop lt (insert_left lt x done_rev) xs"

definition insertionSort :: "('a \<Rightarrow> 'a \<Rightarrow> bool) \<Rightarrow> 'a list \<Rightarrow> 'a list" where
  "insertionSort lt xs = insertion_loop lt [] xs"

text \<open>A slice in which no later element is less than an earlier one.\<close>

definition no_inversion :: "('a \<Rightarrow> 'a \<Rightarrow> bool) \<Rightarrow> 'a list \<Rightarrow> bool" where
  "no_inversion lt xs = sorted_wrt (\<lambda>a b. \<not> lt b a) xs"

text \<open>The comparison is a strict weak order on the elements, as \<open>sort.Slice\<close> demands.\<close>

definition strict_weak_on :: "'a set \<Rightarrow> ('a \<Rightarrow> 'a \<Rightarrow> bool) \<Rightarrow> bool" where
  "strict_weak_on A lt =
     ((\<forall>a\<in>A. \<not> lt a a) \<and>
      (\<forall>a\<in>A. \<forall>b\<in>A. \<forall>c\<in>A. lt a b \<longrightarrow> lt b c \<longrightarrow> lt a c) \<and>
      (\<forall>a\<in>A. \<forall>b\<in>A. \<forall>c\<in>A. \<not> lt a b \<longrightarrow> \<not> lt b c \<longrightarrow> \<not> lt a c))"

section \<open>Lemmas\<close>

subsection \<open>Strings and maps\<close>

lemma Cut_SomeD: "Cut s c = Some (b, a) \<Longrightarrow> s = b @ c # a \<and> c \<notin> set b"
  by (induction s c arbitrary: b a rule: Cut.induct) (auto split: if_splits option.splits)

lemma Cut_append [simp]: "c \<notin> set b \<Longrightarrow> Cut (b @ c # a) c = Some (b, a)"
  by (induction b) auto

lemma Cut_iff: "Cut s c = Some (b, a) \<longleftrightarrow> s = b @ c # a \<and> c \<notin> set b"
  using Cut_SomeD Cut_append by metis

lemma CutPrefix_iff: "CutPrefix s p = Some r \<longleftrightarrow> s = p @ r"
  by (auto simp: CutPrefix_def prefix_def)

lemma map_of_mput [simp]: "map_of (mput k v m) = (map_of m)(k \<mapsto> v)"
  by (simp add: mput_def update_conv')

lemma map_of_mdel [simp]: "map_of (mdel k m) = (map_of m)(k := None)"
  by (simp add: mdel_def delete_conv')

lemma mget_mput [simp]: "mget (mput k v m) k' = (if k' = k then v else mget m k')"
  by (simp add: mget_def)

lemma mget_mdel [simp]: "mget (mdel k m) k' = (if k' = k then [] else mget m k')"
  by (simp add: mget_def)

subsection \<open>Integers\<close>

lemma wrap64_id: "- (2 ^ 63) \<le> x \<Longrightarrow> x < 2 ^ 63 \<Longrightarrow> wrap64 x = x"
  by (simp add: wrap64_def)

lemma wrap64_range: "- (2 ^ 63) \<le> wrap64 x \<and> wrap64 x < 2 ^ 63"
proof -
  have "0 \<le> (x + 2 ^ 63) mod 2 ^ 64" "(x + 2 ^ 63) mod 2 ^ 64 < (2 ^ 64 :: int)" by simp_all
  then show ?thesis unfolding wrap64_def by simp
qed

lemma LimitReader_take: "LimitReader r n = take (nat n) r"
  by (auto simp: LimitReader_def)

lemma quot_nonneg: "0 \<le> a \<Longrightarrow> 0 < b \<Longrightarrow> quot a b = a div b"
  by (cases "a = 0") (simp_all add: quot_def)

subsection \<open>Sorting\<close>

lemma mset_insert_left [simp]: "mset (insert_left lt x ys) = add_mset x (mset ys)"
  by (induction ys) auto

lemma set_insert_left [simp]: "set (insert_left lt x ys) = insert x (set ys)"
  by (induction ys) auto

lemma mset_insertion_loop: "mset (insertion_loop lt ds xs) = mset ds + mset xs"
  by (induction xs arbitrary: ds) auto

lemma strict_weak_onD:
  assumes "strict_weak_on A lt" "a \<in> A" "b \<in> A" "c \<in> A"
  shows "lt a b \<Longrightarrow> \<not> lt b a" and "\<not> lt a b \<Longrightarrow> \<not> lt b c \<Longrightarrow> \<not> lt a c"
  using assms unfolding strict_weak_on_def by blast+

lemma strict_weak_on_subset: "strict_weak_on A lt \<Longrightarrow> B \<subseteq> A \<Longrightarrow> strict_weak_on B lt"
  unfolding strict_weak_on_def by blast

lemma insert_left_sorted:
  assumes "strict_weak_on (insert x (set ys)) lt" "sorted_wrt (\<lambda>a b. \<not> lt a b) ys"
  shows "sorted_wrt (\<lambda>a b. \<not> lt a b) (insert_left lt x ys)"
  using assms
proof (induction ys)
  case Nil
  then show ?case by simp
next
  case (Cons y ys)
  have sw: "strict_weak_on (insert x (set ys)) lt"
    using Cons.prems(1) by (rule strict_weak_on_subset) auto
  show ?case
  proof (cases "lt x y")
    case True
    then have "\<not> lt y x" using strict_weak_onD(1) [OF Cons.prems(1), of x y y] by simp
    with True Cons.IH [OF sw] Cons.prems(2) show ?thesis by auto
  next
    case False
    have "\<not> lt x z" if "z \<in> set ys" for z
      using strict_weak_onD(2) [OF Cons.prems(1), of x y z] that False Cons.prems(2) by auto
    with False Cons.prems(2) show ?thesis by auto
  qed
qed

lemma insertion_loop_sorted:
  assumes "strict_weak_on (set ds \<union> set xs) lt" "sorted_wrt (\<lambda>a b. \<not> lt a b) ds"
  shows "no_inversion lt (insertion_loop lt ds xs)"
  using assms
proof (induction xs arbitrary: ds)
  case Nil
  then show ?case by (simp add: no_inversion_def sorted_wrt_rev)
next
  case (Cons x xs)
  have "strict_weak_on (insert x (set ds)) lt"
    using Cons.prems(1) by (rule strict_weak_on_subset) auto
  then have "sorted_wrt (\<lambda>a b. \<not> lt a b) (insert_left lt x ds)"
    using Cons.prems(2) by (rule insert_left_sorted)
  moreover have "strict_weak_on (set (insert_left lt x ds) \<union> set xs) lt"
    using Cons.prems(1) by (rule strict_weak_on_subset) auto
  ultimately show ?case using Cons.IH by simp
qed

lemma insertion_loop_idle:
  "no_inversion lt (rev ds @ xs) \<Longrightarrow> insertion_loop lt ds xs = rev ds @ xs"
proof (induction xs arbitrary: ds)
  case Nil
  then show ?case by simp
next
  case (Cons x xs)
  then have "insert_left lt x ds = x # ds"
    by (cases ds) (auto simp: no_inversion_def sorted_wrt_append)
  with Cons show ?case by simp
qed

section \<open>The contract of sort.Slice\<close>

text \<open>
  What the retention code relies on: the result is a permutation; it is ordered when the
  comparison is a strict weak order; and a slice without inversions is left as it is (Go's
  pattern-defeating quicksort detects it before it moves anything, its insertion sort never
  moves an element). Clients are proved against this contract, not against one algorithm.
\<close>

locale slice_sorter =
  fixes sortSlice :: "('a \<Rightarrow> 'a \<Rightarrow> bool) \<Rightarrow> 'a list \<Rightarrow> 'a list"
  assumes sort_perm: "mset (sortSlice lt xs) = mset xs"
    and sort_ordered: "strict_weak_on (set xs) lt \<Longrightarrow> no_inversion lt (sortSlice lt xs)"
    and sort_idle: "no_inversion lt xs \<Longrightarrow> sortSlice lt xs = xs"
begin

lemma sort_set [simp]: "set (sortSlice lt xs) = set xs"
  using sort_perm by (metis set_mset_mset)

lemma sort_length [simp]: "length (sortSlice lt xs) = length xs"
  using sort_perm by (metis size_mset)

lemma sort_distinct [simp]: "distinct (sortSlice lt xs) = distinct xs"
  using sort_perm by (metis mset_eq_imp_distinct_iff)

lemma sort_twice:
  "strict_weak_on (set xs) lt \<Longrightarrow> sortSlice lt (sortSlice lt xs) = sortSlice lt xs"
  by (rule sort_idle) (rule sort_ordered)

end

interpretation go_insertion: slice_sorter insertionSort
proof
  fix lt :: "'a \<Rightarrow> 'a \<Rightarrow> bool" and xs :: "'a list"
  show "mset (insertionSort lt xs) = mset xs"
    by (simp add: insertionSort_def mset_insertion_loop)
  show "no_inversion lt (insertionSort lt xs)" if "strict_weak_on (set xs) lt"
    unfolding insertionSort_def using that by (intro insertion_loop_sorted) auto
  show "insertionSort lt xs = xs" if "no_inversion lt xs"
    using insertion_loop_idle [of lt "[]" xs] that by (simp add: insertionSort_def)
qed

text \<open>Updating entries without changing what they are found by.\<close>

lemma find_map_key:
  assumes "find P xs = Some x" "\<And>y. P (f y) = P y"
  shows "find P (map f xs) = Some (f x)"
  using assms by (induction xs) (auto split: if_splits)

end
