(* ===== verification/Go_Filepath.thy ===== *)
theory Go_Filepath
  imports Go_Prelude
begin

text \<open>
  Package \<^verbatim>\<open>path/filepath\<close> of the Go standard library on Unix, as far as the operator and
  the CRI proxy use it: lexical cleaning, splitting, joining, and the patterns of
  \<open>filepath.Match\<close>. \<open>Clean\<close> works on the list of path components; the lemmas
  characterise absolute clean paths by their components, which is what the path checks of
  the API package rest on.
\<close>

section \<open>Definitions\<close>

subsection \<open>Lexical path operations\<close>

abbreviation slash :: char where "slash \<equiv> CHR ''/''"

fun split_slash :: "string \<Rightarrow> string list" where
  "split_slash [] = [[]]"
| "split_slash (c # s) =
     (if c = slash then [] # split_slash s
      else case split_slash s of [] \<Rightarrow> [[c]] | h # t \<Rightarrow> (c # h) # t)"

definition join_slash :: "string list \<Rightarrow> string" where
  "join_slash cs = Join_strings cs [slash]"

text \<open>The component loop of \<open>Clean\<close>: \<open>st\<close> is the output so far, last component first.\<close>

fun clean_comps :: "bool \<Rightarrow> string list \<Rightarrow> string list \<Rightarrow> string list" where
  "clean_comps rooted st [] = rev st"
| "clean_comps rooted st (c # cs) =
     (if c = [] \<or> c = ''.'' then clean_comps rooted st cs
      else if c = ''..'' then
        (case st of
           [] \<Rightarrow> if rooted then clean_comps rooted [] cs else clean_comps rooted [''..''] cs
         | t # ts \<Rightarrow> if t = ''..'' then clean_comps rooted (''..'' # t # ts) cs
                   else clean_comps rooted ts cs)
      else clean_comps rooted (c # st) cs)"

definition IsAbs :: "string \<Rightarrow> bool" where
  "IsAbs p = HasPrefix p [slash]"

definition Clean :: "string \<Rightarrow> string" where
  "Clean p =
     (if p = [] then ''.''
      else if IsAbs p then slash # join_slash (clean_comps True [] (split_slash p))
      else let out = join_slash (clean_comps False [] (split_slash p))
           in if out = [] then ''.'' else out)"

text \<open>The path up to and including its last slash, and what follows it.\<close>

definition dir_part :: "string \<Rightarrow> string" where
  "dir_part p = rev (dropWhile (\<lambda>c. c \<noteq> slash) (rev p))"

definition file_part :: "string \<Rightarrow> string" where
  "file_part p = rev (takeWhile (\<lambda>c. c \<noteq> slash) (rev p))"

definition Dir :: "string \<Rightarrow> string" where
  "Dir p = Clean (dir_part p)"

definition Base :: "string \<Rightarrow> string" where
  "Base p =
     (if p = [] then ''.''
      else let q = rev (dropWhile (\<lambda>c. c = slash) (rev p))
           in if file_part q = [] then [slash] else file_part q)"

definition Ext :: "string \<Rightarrow> string" where
  "Ext p =
     (let f = file_part p
      in if CHR ''.'' \<in> set f then CHR ''.'' # rev (takeWhile (\<lambda>c. c \<noteq> CHR ''.'') (rev f))
         else [])"

definition Join :: "string list \<Rightarrow> string" where
  "Join es =
     (let ne = dropWhile (\<lambda>e. e = []) es
      in if ne = [] then [] else Clean (join_slash ne))"

subsection \<open>Patterns of filepath.Match\<close>

datatype glob_tok = GStar | GAny | GLit char | GClass bool "(char \<times> char) list"

text \<open>One bound of a character range, with its escape.\<close>

fun get_esc :: "string \<Rightarrow> (char \<times> string) option" where
  "get_esc [] = None"
| "get_esc (c # s) =
     (if c = CHR ''-'' \<or> c = CHR '']'' then None
      else if c = CHR 0x5C then
        (case s of [] \<Rightarrow> None | d # t \<Rightarrow> if t = [] then None else Some (d, t))
      else if s = [] then None else Some (c, s))"

lemma get_esc_length: "get_esc s = Some (c, t) \<Longrightarrow> length t < length s"
  by (cases s) (auto split: if_splits list.splits)

text \<open>The ranges of a class up to its closing bracket; \<open>first\<close> while there is none yet.\<close>

function parse_ranges :: "bool \<Rightarrow> string \<Rightarrow> ((char \<times> char) list \<times> string) option" where
  "parse_ranges first s =
     (if \<not> first \<and> s \<noteq> [] \<and> hd s = CHR '']'' then Some ([], tl s)
      else case get_esc s of
        None \<Rightarrow> None
      | Some (lo, t) \<Rightarrow>
          (case (if hd t = CHR ''-'' then get_esc (tl t) else Some (lo, t)) of
             None \<Rightarrow> None
           | Some (hi, u) \<Rightarrow>
               (case parse_ranges False u of
                  None \<Rightarrow> None
                | Some (rs, v) \<Rightarrow> Some ((lo, hi) # rs, v))))"
  by pat_completeness auto
termination
proof (relation "measure (\<lambda>(first, s). length s)")
  fix first :: bool and s t u :: string and lo hi :: char and x y
  assume "get_esc s = Some x" "(lo, t) = x"
    "(if hd t = CHR ''-'' then get_esc (tl t) else Some (lo, t)) = Some y" "(hi, u) = y"
  then show "((False, u), first, s) \<in> measure (\<lambda>(first, s). length s)"
    by (auto split: if_splits dest!: get_esc_length)
qed simp

declare parse_ranges.simps [simp del]

lemma parse_ranges_length: "parse_ranges first s = Some (rs, t) \<Longrightarrow> length t < length s"
proof (induction first s arbitrary: rs t rule: parse_ranges.induct)
  case (1 first s)
  show ?case
  proof (cases "\<not> first \<and> s \<noteq> [] \<and> hd s = CHR '']''")
    case True
    with "1.prems" show ?thesis by (auto simp: parse_ranges.simps [of False s])
  next
    case False
    then obtain lo a hi u rs' where a: "get_esc s = Some (lo, a)"
      and u: "(if hd a = CHR ''-'' then get_esc (tl a) else Some (lo, a)) = Some (hi, u)"
      and r: "parse_ranges False u = Some (rs', t)"
      using "1.prems" by (auto simp: parse_ranges.simps [of first s] split: option.splits)
    have "length t < length u" using "1.IH" [OF False a refl u refl r] .
    moreover have "length u < length s"
      using a u by (auto split: if_splits dest!: get_esc_length)
    ultimately show ?thesis by simp
  qed
qed

function glob_parse :: "string \<Rightarrow> glob_tok list option" where
  "glob_parse [] = Some []"
| "glob_parse (c # s) =
     (if c = CHR ''*'' then map_option ((#) GStar) (glob_parse s)
      else if c = CHR ''?'' then map_option ((#) GAny) (glob_parse s)
      else if c = CHR 0x5C then
        (case s of [] \<Rightarrow> None | d # t \<Rightarrow> map_option ((#) (GLit d)) (glob_parse t))
      else if c = CHR ''['' then
        (let neg = (s \<noteq> [] \<and> hd s = CHR ''^'')
         in case parse_ranges True (if neg then tl s else s) of
              None \<Rightarrow> None
            | Some (rs, t) \<Rightarrow> map_option ((#) (GClass neg rs)) (glob_parse t))
      else map_option ((#) (GLit c)) (glob_parse s))"
  by pat_completeness auto
termination
  by (relation "measure length") (auto dest!: parse_ranges_length split: if_splits)

definition in_class :: "char \<Rightarrow> (char \<times> char) list \<Rightarrow> bool" where
  "in_class c rs = (\<exists>r\<in>set rs. fst r \<le> c \<and> c \<le> snd r)"

fun glob_match :: "glob_tok list \<Rightarrow> string \<Rightarrow> bool" where
  "glob_match [] s = (s = [])"
| "glob_match (GStar # ts) [] = glob_match ts []"
| "glob_match (GStar # ts) (c # s) =
     (glob_match ts (c # s) \<or> (c \<noteq> slash \<and> glob_match (GStar # ts) s))"
| "glob_match (t # ts) [] = False"
| "glob_match (GAny # ts) (c # s) = (c \<noteq> slash \<and> glob_match ts s)"
| "glob_match (GLit d # ts) (c # s) = (c = d \<and> glob_match ts s)"
| "glob_match (GClass neg rs # ts) (c # s) = (in_class c rs \<noteq> neg \<and> glob_match ts s)"

text \<open>\<open>filepath.Match\<close>; \<open>None\<close> is \<open>ErrBadPattern\<close>.\<close>

definition Match :: "string \<Rightarrow> string \<Rightarrow> bool option" where
  "Match pat name = map_option (\<lambda>ts. glob_match ts name) (glob_parse pat)"

section \<open>Lemmas\<close>

subsection \<open>Components\<close>

text \<open>A proper component: not empty, not a dot or dot-dot, and without a slash.\<close>

definition proper :: "string \<Rightarrow> bool" where
  "proper c = (c \<noteq> [] \<and> c \<noteq> ''.'' \<and> c \<noteq> ''..'' \<and> slash \<notin> set c)"

lemma split_slash_nonempty [simp]: "split_slash s \<noteq> []"
  by (cases s) (auto split: list.splits)

lemma split_slash_no_slash: "c \<in> set (split_slash s) \<Longrightarrow> slash \<notin> set c"
  by (induction s arbitrary: c) (auto split: if_splits list.splits)

lemma split_slash_append:
  "slash \<notin> set c \<Longrightarrow> split_slash (c @ slash # s) = c # split_slash s"
  by (induction c) (auto split: list.splits)

lemma split_slash_single: "slash \<notin> set c \<Longrightarrow> split_slash c = [c]"
  by (induction c) auto

lemma join_slash_simps [simp]:
  "join_slash [] = []" "join_slash [c] = c"
  "join_slash (c # d # cs) = c @ slash # join_slash (d # cs)"
  by (simp_all add: join_slash_def)

lemma join_slash_snoc: "cs \<noteq> [] \<Longrightarrow> join_slash (cs @ [f]) = join_slash cs @ slash # f"
proof (induction cs)
  case (Cons c cs)
  then show ?case by (cases cs) auto
qed simp

lemma split_join:
  "cs \<noteq> [] \<Longrightarrow> (\<forall>c\<in>set cs. slash \<notin> set c) \<Longrightarrow> split_slash (join_slash cs) = cs"
proof (induction cs)
  case (Cons c cs)
  then show ?case by (cases cs) (auto simp: split_slash_single split_slash_append)
qed simp

subsection \<open>Clean\<close>

lemma clean_comps_proper_id:
  "list_all proper cs \<Longrightarrow> clean_comps r st cs = rev st @ cs"
  by (induction cs arbitrary: st) (auto simp: proper_def)

lemma Clean_proper [simp]: "proper f \<Longrightarrow> Clean f = f"
  by (cases f) (auto simp: Clean_def IsAbs_def HasPrefix_def proper_def split_slash_single
      simp del: split_slash.simps)

lemma clean_comps_rooted_proper:
  "list_all proper st \<Longrightarrow> (\<forall>c\<in>set cs. slash \<notin> set c) \<Longrightarrow>
     list_all proper (clean_comps True st cs)"
proof (induction cs arbitrary: st)
  case Nil
  then show ?case by (simp add: list_all_iff)
next
  case (Cons c cs)
  have "list_all proper (c # st)" if "c \<noteq> []" "c \<noteq> ''.''" "c \<noteq> ''..''"
    using that Cons.prems by (simp add: proper_def [of c])
  with Cons show ?case by (auto split: list.splits)
qed

text \<open>The absolute clean paths are exactly the slash-joined lists of proper components.\<close>

lemma Clean_abs_components:
  assumes "IsAbs p"
  shows "\<exists>cs. list_all proper cs \<and> Clean p = slash # join_slash cs"
proof -
  have "p \<noteq> []" using assms by (auto simp: IsAbs_def HasPrefix_def)
  moreover have "list_all proper (clean_comps True [] (split_slash p))"
    by (rule clean_comps_rooted_proper) (auto dest: split_slash_no_slash)
  ultimately show ?thesis using assms by (auto simp: Clean_def)
qed

lemma Clean_join_proper:
  assumes "list_all proper cs"
  shows "Clean (slash # join_slash cs) = slash # join_slash cs"
proof (cases "cs = []")
  case True
  then show ?thesis by (simp add: Clean_def IsAbs_def HasPrefix_def)
next
  case False
  then have "split_slash (join_slash cs) = cs"
    using assms by (intro split_join) (auto simp: list_all_iff proper_def)
  then show ?thesis using assms
    by (simp add: Clean_def IsAbs_def HasPrefix_def clean_comps_proper_id)
qed

lemma Clean_join_proper_slash:
  assumes "list_all proper cs" "cs \<noteq> []"
  shows "Clean (slash # join_slash cs @ [slash]) = slash # join_slash cs"
proof -
  have "join_slash cs @ [slash] = join_slash (cs @ [[]])"
    using assms(2) by (simp add: join_slash_snoc)
  moreover have "split_slash (join_slash (cs @ [[]])) = cs @ [[]]"
    using assms by (intro split_join) (auto simp: list_all_iff proper_def)
  moreover have "clean_comps True [] (cs @ [[]]) = cs"
  proof -
    have "clean_comps True st (cs @ [[]]) = clean_comps True st cs" for st
      by (induction cs arbitrary: st) (auto split: list.splits)
    then show ?thesis using assms(1) by (simp add: clean_comps_proper_id)
  qed
  ultimately show ?thesis by (simp add: Clean_def IsAbs_def HasPrefix_def)
qed

lemma Clean_idem_abs: "IsAbs p \<Longrightarrow> Clean (Clean p) = Clean p"
  using Clean_abs_components Clean_join_proper by metis

text \<open>A segment: what a relative clean path may also have, dot-dot included.\<close>

definition segment :: "string \<Rightarrow> bool" where
  "segment c = (c \<noteq> [] \<and> slash \<notin> set c)"

lemma clean_comps_relative:
  "list_all segment st \<Longrightarrow> (\<forall>c\<in>set cs. slash \<notin> set c) \<Longrightarrow>
     list_all segment (clean_comps False st cs)"
proof (induction cs arbitrary: st)
  case Nil
  then show ?case by (simp add: list_all_iff)
next
  case (Cons c cs)
  have "list_all segment (c # st)" if "c \<noteq> []"
    using that Cons.prems by (simp add: segment_def [of c])
  moreover have "segment ''..''" by (simp add: segment_def)
  ultimately show ?case using Cons by (auto split: list.splits)
qed

lemma join_slash_hd:
  assumes "cs \<noteq> []" "list_all segment cs"
  shows "\<not> IsAbs (join_slash cs)"
proof -
  obtain x c ds where "cs = (x # c) # ds" "x \<noteq> slash"
    using assms by (cases cs; cases "hd cs") (auto simp: segment_def)
  then show ?thesis by (cases ds) (auto simp: IsAbs_def HasPrefix_def)
qed

lemma IsAbs_Clean [simp]: "IsAbs (Clean p) = IsAbs p"
proof (cases "IsAbs p")
  case True
  then show ?thesis by (auto simp: Clean_def IsAbs_def HasPrefix_def)
next
  case False
  let ?cs = "clean_comps False [] (split_slash p)"
  have "list_all segment ?cs"
    using clean_comps_relative [of "[]" "split_slash p"] split_slash_no_slash by auto
  then have "?cs \<noteq> [] \<Longrightarrow> \<not> IsAbs (join_slash ?cs)" by (rule join_slash_hd [rotated])
  with False show ?thesis
    by (cases "?cs = []") (auto simp: Clean_def IsAbs_def HasPrefix_def Let_def)
qed

subsection \<open>Directory and base of a clean absolute path\<close>

lemma file_part_snoc: "slash \<notin> set f \<Longrightarrow> file_part (d @ slash # f) = f"
  by (simp add: file_part_def takeWhile_append)

lemma file_part_self [simp]: "slash \<notin> set f \<Longrightarrow> file_part f = f"
  by (auto simp: file_part_def rev_swap takeWhile_eq_all_conv)

lemma file_part_no_slash [simp]: "slash \<notin> set (file_part p)"
  by (auto simp: file_part_def dest: set_takeWhileD)

lemma dir_part_snoc: "slash \<notin> set f \<Longrightarrow> dir_part (d @ slash # f) = d @ [slash]"
  by (simp add: dir_part_def dropWhile_append)

lemma Dir_proper:
  assumes "list_all proper cs" "slash \<notin> set f"
  shows "Dir (slash # join_slash (cs @ [f])) = slash # join_slash cs"
proof (cases "cs = []")
  case True
  have "dir_part ([] @ slash # f) = [] @ [slash]" using assms(2) by (rule dir_part_snoc)
  then show ?thesis using True Clean_join_proper [of "[]"] by (simp add: Dir_def)
next
  case False
  have "dir_part ((slash # join_slash cs) @ slash # f) = (slash # join_slash cs) @ [slash]"
    using assms(2) by (rule dir_part_snoc)
  then show ?thesis using False assms(1)
    by (simp add: Dir_def join_slash_snoc Clean_join_proper_slash)
qed

lemma Base_proper:
  assumes "f \<noteq> []" "slash \<notin> set f"
  shows "Base (d @ slash # f) = f"
proof -
  have "dropWhile (\<lambda>c. c = slash) (rev f @ slash # rev d) = rev f @ slash # rev d"
    using assms by (cases "rev f") (auto dest!: arg_cong [of _ _ set])
  then show ?thesis using assms by (simp add: Base_def file_part_snoc)
qed

lemma slash_join_snoc:
  "slash # join_slash (cs @ [f]) = (if cs = [] then [] else slash # join_slash cs) @ slash # f"
  by (simp add: join_slash_snoc)

lemma Ext_eq_suffix:
  "Ext p = CHR ''.'' # e \<longleftrightarrow>
     (\<exists>a. file_part p = a @ CHR ''.'' # e \<and> CHR ''.'' \<notin> set e)"
proof
  assume *: "Ext p = CHR ''.'' # e"
  then have m: "CHR ''.'' \<in> set (file_part p)"
    and e: "e = rev (takeWhile (\<lambda>c. c \<noteq> CHR ''.'') (rev (file_part p)))"
    by (auto simp: Ext_def Let_def split: if_splits)
  obtain u v where uv: "rev (file_part p) = u @ CHR ''.'' # v" "CHR ''.'' \<notin> set u"
    using split_list_first [of "CHR ''.''" "rev (file_part p)"] m by auto
  then have "e = rev u" using e by (simp add: takeWhile_append)
  moreover have "file_part p = rev v @ CHR ''.'' # rev u"
    using uv(1) by (metis append.assoc append_Cons append_Nil rev.simps(2) rev_append rev_rev_ident)
  ultimately show "\<exists>a. file_part p = a @ CHR ''.'' # e \<and> CHR ''.'' \<notin> set e"
    using uv(2) by auto
next
  assume "\<exists>a. file_part p = a @ CHR ''.'' # e \<and> CHR ''.'' \<notin> set e"
  then show "Ext p = CHR ''.'' # e" by (auto simp: Ext_def takeWhile_append)
qed

subsection \<open>Entries of a directory\<close>

text \<open>The path of the entry \<open>f\<close> of a clean directory.\<close>

definition entry_of :: "string \<Rightarrow> string \<Rightarrow> string" where
  "entry_of d f = (if d = [slash] then slash # f else d @ slash # f)"

lemma entry_of_join:
  "list_all proper cs \<Longrightarrow> entry_of (slash # join_slash cs) f = slash # join_slash (cs @ [f])"
proof (cases cs)
  case (Cons c ds)
  assume "list_all proper cs"
  with Cons have "join_slash cs \<noteq> []" by (cases ds) (auto simp: proper_def)
  with Cons show ?thesis using join_slash_snoc [of cs f] by (simp add: entry_of_def)
qed (simp add: entry_of_def)

lemma Ext_entry: "slash \<notin> set f \<Longrightarrow> Ext (entry_of d f) = Ext f"
  using file_part_snoc [of f "[]"] file_part_snoc [of f d] by (simp add: Ext_def entry_of_def)

lemma Base_entry: "slash \<notin> set f \<Longrightarrow> f \<noteq> [] \<Longrightarrow> Base (entry_of d f) = f"
  using Base_proper [of f "[]"] Base_proper [of f d] by (simp add: entry_of_def)

lemma entry_of_inject:
  "slash \<notin> set f \<Longrightarrow> slash \<notin> set g \<Longrightarrow> entry_of d f = entry_of d g \<longleftrightarrow> f = g"
  by (auto simp: entry_of_def)

lemma split_slash_append_slash: "split_slash (a @ slash # b) = split_slash a @ split_slash b"
proof (induction a)
  case (Cons c a)
  then show ?case by (cases "split_slash a") auto
qed simp

lemma clean_comps_snoc: "proper f \<Longrightarrow> clean_comps r st (cs @ [f]) = clean_comps r st cs @ [f]"
  by (induction cs arbitrary: st) (auto simp: proper_def split: list.splits)

lemma Join_entry_clean:
  assumes "IsAbs d" "proper f"
  shows "Join [d, f] = entry_of (Clean d) f"
proof -
  let ?cs = "clean_comps True [] (split_slash d)"
  have f: "slash \<notin> set f" "f \<noteq> []" using assms(2) by (auto simp: proper_def)
  have d: "d \<noteq> []" "IsAbs (d @ slash # f)" using assms(1) by (auto simp: IsAbs_def HasPrefix_def)
  have p: "list_all proper ?cs" by (rule clean_comps_rooted_proper) (auto dest: split_slash_no_slash)
  have "Join [d, f] = Clean (d @ slash # f)" using d by (simp add: Join_def)
  also have "\<dots> = slash # join_slash (?cs @ [f])"
    using d f assms(2)
    by (simp add: Clean_def split_slash_append_slash split_slash_single clean_comps_snoc)
  also have "\<dots> = entry_of (Clean d) f" using d assms(1) entry_of_join [OF p] by (simp add: Clean_def)
  finally show ?thesis .
qed

lemma Join_entry: "IsAbs d \<Longrightarrow> Clean d = d \<Longrightarrow> proper f \<Longrightarrow> Join [d, f] = entry_of d f"
  by (simp add: Join_entry_clean)

lemma Dir_entry:
  assumes "IsAbs d" "Clean d = d" "slash \<notin> set f"
  shows "Dir (entry_of d f) = d"
  using Clean_abs_components [OF assms(1)] assms(2,3) Dir_proper entry_of_join by metis

lemma file_part_entry: "slash \<notin> set f \<Longrightarrow> file_part (entry_of d f) = f"
  using file_part_snoc [of f "[]"] file_part_snoc [of f d] by (simp add: entry_of_def)

subsection \<open>Patterns with a literal ending\<close>

lemma get_esc_suffix: "get_esc s = Some (c, t) \<Longrightarrow> \<exists>m. s = m @ t"
  by (cases s) (auto split: if_splits list.splits)

lemma parse_ranges_bracket: "parse_ranges first s = Some (rs, t) \<Longrightarrow> \<exists>m. s = m @ CHR '']'' # t"
proof (induction first s arbitrary: rs t rule: parse_ranges.induct)
  case (1 first s)
  show ?case
  proof (cases "\<not> first \<and> s \<noteq> [] \<and> hd s = CHR '']''")
    case True
    with "1.prems" have "s = CHR '']'' # t"
      using parse_ranges.simps [of first s] by (cases s) simp_all
    then show ?thesis by (intro exI [of _ "[]"]) simp
  next
    case False
    then obtain lo a hi u rs' where a: "get_esc s = Some (lo, a)"
      and u: "(if hd a = CHR ''-'' then get_esc (tl a) else Some (lo, a)) = Some (hi, u)"
      and r: "parse_ranges False u = Some (rs', t)"
      using "1.prems" by (auto simp: parse_ranges.simps [of first s] split: option.splits)
    obtain m where m: "u = m @ CHR '']'' # t" using "1.IH" [OF False a refl u refl r] by auto
    obtain k where k: "s = k @ a" using get_esc_suffix [OF a] by auto
    have "\<exists>n. a = n @ u"
    proof (cases "hd a = CHR ''-''")
      case True
      then obtain n where "tl a = n @ u" using u get_esc_suffix by fastforce
      then show ?thesis
        by (cases a) (simp, metis append_Cons list.sel(3))
    qed (use u in auto)
    then show ?thesis using m k by auto
  qed
qed

lemma parse_ranges_keeps:
  assumes "parse_ranges first (p @ q) = Some (rs, t)" "CHR '']'' \<notin> set q"
  shows "\<exists>p'. t = p' @ q \<and> length p' < length p"
proof -
  obtain m where "p @ q = m @ CHR '']'' # t" using parse_ranges_bracket [OF assms(1)] by auto
  then consider k where "p = m @ k" "k @ q = CHR '']'' # t" | k where "q = k @ CHR '']'' # t"
    by (auto simp: append_eq_append_conv2)
  then show ?thesis
  proof cases
    case 1
    then show ?thesis using assms(2) by (cases k) auto
  qed (use assms(2) in auto)
qed

text \<open>
  A pattern that ends in a star and a literal extension keeps that extension, whatever
  stands before: an unclosed class is an error, an escaped star is still a literal.
\<close>

lemma glob_parse_star_ext:
  assumes "e \<noteq> []" "\<forall>c\<in>set e. c \<notin> {CHR ''*'', CHR ''?'', CHR 0x5C, CHR ''['', CHR '']''}"
  shows "glob_parse (p @ CHR ''*'' # e) = Some ts \<Longrightarrow> \<exists>us. ts = us @ map GLit e"
proof (induction p arbitrary: ts rule: length_induct)
  case (1 p)
  have e: "glob_parse e = Some (map GLit e)" using assms(2) by (induction e) auto
  have br: "CHR '']'' \<notin> set (CHR ''*'' # e)" using assms(2) by auto
  show ?case
  proof (cases p)
    case Nil
    with "1.prems" e show ?thesis by auto
  next
    case (Cons c p')
    have IH: "\<exists>us. t # ts' = us @ map GLit e"
      if "glob_parse (q @ CHR ''*'' # e) = Some ts'" "length q < length p" for q ts' t
      using "1.IH" that by (metis append_Cons)
    consider "c = CHR ''*''" | "c = CHR ''?''" | "c = CHR 0x5C" | "c = CHR ''[''"
      | "c \<notin> {CHR ''*'', CHR ''?'', CHR 0x5C, CHR ''[''}" by blast
    then show ?thesis
    proof cases
      case 3
      show ?thesis
      proof (cases p')
        case Nil
        with "1.prems" Cons 3 e show ?thesis by auto
      next
        case (Cons d q)
        then show ?thesis using "1.prems" \<open>p = c # p'\<close> 3 by (auto intro!: IH)
      qed
    next
      case 4
      define neg where "neg = (p' \<noteq> [] \<and> hd p' = CHR ''^'')"
      have n: "(p' @ CHR ''*'' # e \<noteq> [] \<and> hd (p' @ CHR ''*'' # e) = CHR ''^'') = neg"
        by (cases p') (auto simp: neg_def)
      have s: "(if neg then tl (p' @ CHR ''*'' # e) else p' @ CHR ''*'' # e)
          = (if neg then tl p' else p') @ CHR ''*'' # e"
        by (auto simp: neg_def)
      from "1.prems" Cons 4 n s obtain rs t ts' where
        r: "parse_ranges True ((if neg then tl p' else p') @ CHR ''*'' # e) = Some (rs, t)"
        "glob_parse t = Some ts'" "ts = GClass neg rs # ts'"
        by (auto simp: Let_def split: option.splits)
      obtain q where q: "t = q @ CHR ''*'' # e" "length q < length (if neg then tl p' else p')"
        using parse_ranges_keeps [OF r(1) br] by auto
      then have "length q < length p" using Cons by (auto split: if_splits)
      with r q IH show ?thesis by blast
    qed (use "1.prems" Cons in \<open>auto intro!: IH\<close>)
  qed
qed

lemma glob_match_rest: "glob_match (us @ vs) s \<Longrightarrow> \<exists>m n. s = m @ n \<and> glob_match vs n"
proof (induction us arbitrary: s)
  case Nil
  then show ?case by auto
next
  case (Cons t us)
  note IH = Cons.IH
  have step: "\<exists>m n. c # s' = m @ n \<and> glob_match vs n" if "glob_match (us @ vs) s'" for c s'
    using IH [OF that] by (metis append_Cons)
  show ?case
  proof (cases "t = GStar")
    case True
    then have "glob_match (GStar # us @ vs) s" using Cons.prems by simp
    then show ?thesis
    proof (induction s)
      case Nil
      then show ?case using IH [of "[]"] by simp
    next
      case (Cons c s)
      from Cons.prems have "glob_match (us @ vs) (c # s) \<or> glob_match (GStar # us @ vs) s" by auto
      then show ?case using IH Cons.IH by (metis append_Cons)
    qed
  next
    case False
    then show ?thesis using Cons.prems step by (cases t; cases s) auto
  qed
qed

lemma glob_match_literal: "glob_match (map GLit l) s \<longleftrightarrow> s = l"
proof (induction l arbitrary: s)
  case (Cons c l)
  then show ?case by (cases s) auto
qed simp

lemma glob_match_literal_end: "glob_match (us @ map GLit l) s \<Longrightarrow> \<exists>m. s = m @ l"
  using glob_match_rest [of us "map GLit l" s] by (auto simp: glob_match_literal)

end
