(* ===== verification/Kube_Objects.thy ===== *)
theory Kube_Objects
  imports Go_Prelude
begin

text \<open>
  The Kubernetes objects the controllers read and write, with the fields they use, and the
  helpers of the Kubernetes libraries they call on them: status conditions
  (\<^verbatim>\<open>meta.SetStatusCondition\<close>), API errors, and \<^verbatim>\<open>retry.RetryOnConflict\<close>. Calls to the API
  server are not defined here: they are arguments of the operations that make them, as
  functions that thread an arbitrary world \<open>'w\<close>. Also here: the pod and container
  selection of \<^verbatim>\<open>internal/controller/pod_selector.go\<close>, which all triggers share.

  A time is the number of nanoseconds since Go's zero time; 0 is the zero time.
\<close>

section \<open>Definitions\<close>

type_synonym time = int
type_synonym duration = int

abbreviation second :: duration where "second \<equiv> 1000000000"
abbreviation minute :: duration where "minute \<equiv> 60 * second"

subsection \<open>API errors and results\<close>

datatype ApiError = NotFound | AlreadyExists | Conflict | OtherError string

definition IsNotFound :: "ApiError \<Rightarrow> bool" where
  "IsNotFound e = (e = NotFound)"

definition IgnoreNotFound :: "ApiError \<Rightarrow> ApiError option" where
  "IgnoreNotFound e = (if IsNotFound e then None else Some e)"

text \<open>\<open>ctrl.Result\<close>, and what a reconciler returns: an error or a result.\<close>

record Result =
  RequeueAfter :: duration

definition no_requeue :: Result where
  "no_requeue = \<lparr>RequeueAfter = 0\<rparr>"

definition requeue_after :: "duration \<Rightarrow> Result" where
  "requeue_after d = \<lparr>RequeueAfter = d\<rparr>"

text \<open>
  \<open>retry.RetryOnConflict\<close>: the attempt runs again after a conflict, at most \<open>steps\<close>
  times in all; \<open>retry.DefaultRetry\<close> has five steps. \<open>None\<close> is a nil error.
\<close>

fun RetryOnConflict :: "nat \<Rightarrow> ('w \<Rightarrow> ApiError option \<times> 'w) \<Rightarrow> 'w \<Rightarrow> ApiError option \<times> 'w" where
  "RetryOnConflict 0 fn w = (None, w)"
| "RetryOnConflict (Suc n) fn w =
     (case fn w of
        (None, w') \<Rightarrow> (None, w')
      | (Some e, w') \<Rightarrow>
          if e = Conflict \<and> n > 0 then RetryOnConflict n fn w' else (Some e, w'))"

definition DefaultRetry_steps :: nat where
  "DefaultRetry_steps = 5"

text \<open>
  What a store holds after a write of \<open>new\<close> over \<open>old\<close> was answered with \<open>e\<close>: a success has
  stored it and a conflict has not, and after any other error (a time-out, say) it may be
  either.
\<close>

definition write_outcome :: "ApiError option \<Rightarrow> 'c \<Rightarrow> 'c \<Rightarrow> 'c option \<Rightarrow> bool" where
  "write_outcome e old new s \<longleftrightarrow>
     (if e = None then s = Some new else if e = Some Conflict then s = Some old else s \<in> {Some old, Some new})"

subsection \<open>Status conditions\<close>

record Condition =
  cType :: string
  cStatus :: string
  cObservedGeneration :: int
  cLastTransitionTime :: time
  cReason :: string
  cMessage :: string

definition ConditionTrue :: string where "ConditionTrue = ''True''"
definition ConditionFalse :: string where "ConditionFalse = ''False''"

fun FindStatusCondition :: "Condition list \<Rightarrow> string \<Rightarrow> Condition option" where
  "FindStatusCondition [] t = None"
| "FindStatusCondition (c # cs) t = (if cType c = t then Some c else FindStatusCondition cs t)"

text \<open>\<open>now\<close> is what \<open>time.Now()\<close> returns if the call needs it.\<close>

fun SetStatusCondition :: "time \<Rightarrow> Condition list \<Rightarrow> Condition \<Rightarrow> Condition list" where
  "SetStatusCondition now [] new =
     [if cLastTransitionTime new = 0 then new\<lparr>cLastTransitionTime := now\<rparr> else new]"
| "SetStatusCondition now (c # cs) new =
     (if cType c = cType new then
        c\<lparr>cStatus := cStatus new,
          cLastTransitionTime :=
            (if cStatus c \<noteq> cStatus new
             then (if cLastTransitionTime new \<noteq> 0 then cLastTransitionTime new else now)
             else cLastTransitionTime c),
          cReason := cReason new,
          cMessage := cMessage new,
          cObservedGeneration := cObservedGeneration new\<rparr> # cs
      else c # SetStatusCondition now cs new)"

subsection \<open>Quantities\<close>

text \<open>
  \<open>resource.Quantity\<close> is exact down to a billionth, so it is the integer number of
  billionths. \<open>Value\<close> and \<open>MilliValue\<close> are documented as ceilings.
\<close>

type_synonym quantity = int

definition NewQuantity :: "int \<Rightarrow> quantity" where
  "NewQuantity v = v * 10 ^ 9"

definition Value :: "quantity \<Rightarrow> int" where
  "Value q = - ((- q) div 10 ^ 9)"

definition MilliValue :: "quantity \<Rightarrow> int" where
  "MilliValue q = - ((- q) div 10 ^ 6)"

definition Cmp :: "quantity \<Rightarrow> quantity \<Rightarrow> int" where
  "Cmp a b = sgn (a - b)"

subsection \<open>Pods\<close>

record LabelSelector =
  matchLabels :: smap
  matchExpressions :: "(string \<times> string \<times> string list) list"

record Container =
  ctName :: string
  ctImage :: string
  ctLimits :: "(string \<times> quantity) list"

record PodCondition =
  pcType :: string
  pcStatus :: string
  pcReason :: string

text \<open>\<open>podController\<close> is the UID in the owner reference that is marked as controller.\<close>

record Pod =
  podName :: string
  podNamespace :: string
  podLabels :: smap
  podAnnotations :: smap
  podController :: "string option"
  podDeletionTimestamp :: "time option"
  podNodeName :: string
  podContainers :: "Container list"
  podPhase :: string
  podReason :: string
  podMessage :: string
  podConditions :: "PodCondition list"

record Node =
  nodeName :: string
  nodeUnschedulable :: bool

definition PodRunning :: string where "PodRunning = ''Running''"
definition PodSucceeded :: string where "PodSucceeded = ''Succeeded''"
definition PodFailed :: string where "PodFailed = ''Failed''"

subsection \<open>Pod selection (pod_selector.go)\<close>

text \<open>
  Listing pods: the conversion of the label selector may fail, and so may the List call.
  Both are functions of the client that the caller passes in.
\<close>

record 'w PodLister =
  plSelector :: "LabelSelector \<Rightarrow> ApiError option"
  plList :: "string \<Rightarrow> LabelSelector \<Rightarrow> 'w \<Rightarrow> (ApiError + Pod list) \<times> 'w"

fun running_pods :: "Pod list \<Rightarrow> Pod list" where
  "running_pods [] = []"
| "running_pods (p # ps) =
     (if podPhase p = PodRunning then p # running_pods ps else running_pods ps)"

definition getMatchingPods ::
  "'w PodLister \<Rightarrow> string \<Rightarrow> LabelSelector \<Rightarrow> 'w \<Rightarrow> (ApiError + Pod list) \<times> 'w" where
  "getMatchingPods pl namespace selector w =
     (case plSelector pl selector of
        Some err \<Rightarrow> (Inl err, w)
      | None \<Rightarrow>
          (case plList pl namespace selector w of
             (Inl err, w') \<Rightarrow> (Inl err, w')
           | (Inr items, w') \<Rightarrow> (Inr (running_pods items), w')))"

definition filterContainers :: "Pod \<Rightarrow> string list \<Rightarrow> Container list" where
  "filterContainers pod containerNames =
     (if containerNames = [] then podContainers pod
      else let nameSet = map (\<lambda>name. (name, True)) containerNames
           in filter (\<lambda>c. map_of nameSet (ctName c) = Some True) (podContainers pod))"

section \<open>Lemmas\<close>

subsection \<open>Conditions\<close>

lemma SetStatusCondition_types:
  "map cType (SetStatusCondition now cs new) =
     (if cType new \<in> set (map cType cs) then map cType cs else map cType cs @ [cType new])"
  by (induction cs) auto

lemma SetStatusCondition_distinct:
  "distinct (map cType cs) \<Longrightarrow> distinct (map cType (SetStatusCondition now cs new))"
  by (simp add: SetStatusCondition_types)

lemma FindStatusCondition_set_other [simp]:
  "t \<noteq> cType new \<Longrightarrow>
     FindStatusCondition (SetStatusCondition now cs new) t = FindStatusCondition cs t"
  by (induction cs) auto

lemma FindStatusCondition_set:
  "\<exists>c. FindStatusCondition (SetStatusCondition now cs new) (cType new) = Some c \<and>
     cType c = cType new \<and> cStatus c = cStatus new \<and> cReason c = cReason new \<and>
     cMessage c = cMessage new \<and> cObservedGeneration c = cObservedGeneration new"
  by (induction cs) auto

text \<open>A second identical update changes nothing, whatever the clock says.\<close>

lemma SetStatusCondition_idem:
  "SetStatusCondition now' (SetStatusCondition now cs new) new = SetStatusCondition now cs new"
  by (induction cs) auto

subsection \<open>Quantities\<close>

lemma Value_NewQuantity [simp]: "Value (NewQuantity v) = v"
  by (simp add: Value_def NewQuantity_def flip: mult_minus_left)

lemma Cmp_neg [simp]: "Cmp a b < 0 \<longleftrightarrow> a < b"
  by (auto simp: Cmp_def sgn_if)

lemma Cmp_nonneg [simp]: "0 \<le> Cmp a b \<longleftrightarrow> b \<le> a"
  by (auto simp: Cmp_def sgn_if)

lemma NewQuantity_less_iff [simp]: "NewQuantity a < NewQuantity b \<longleftrightarrow> a < b"
  by (simp add: NewQuantity_def)

subsection \<open>Selection\<close>

lemma running_pods_filter: "running_pods ps = filter (\<lambda>p. podPhase p = PodRunning) ps"
  by (induction ps) auto

lemma map_of_const_True: "map_of (map (\<lambda>n. (n, True)) ns) k = Some True \<longleftrightarrow> k \<in> set ns"
  by (induction ns) auto

lemma filterContainers_eq:
  "filterContainers pod ns = filter (\<lambda>c. ns = [] \<or> ctName c \<in> set ns) (podContainers pod)"
  by (simp add: filterContainers_def map_of_const_True)

lemma RetryOnConflict_result:
  "RetryOnConflict (Suc n) fn w = (None, w') \<Longrightarrow> \<exists>v. fn v = (None, w')"
  by (induction n arbitrary: w) (auto split: prod.splits option.splits if_splits)

text \<open>
  The retries end like one of their attempts: what every attempt keeps or establishes, with a
  conflict keeping the starting condition, the whole keeps or establishes.
\<close>

lemma RetryOnConflict_outcome:
  assumes "RetryOnConflict (Suc n) fn w = (e, w')" "I w"
    and "\<And>v e' v'. I v \<Longrightarrow> fn v = (e', v') \<Longrightarrow> Q e' v' \<and> (e' = Some Conflict \<longrightarrow> I v')"
  shows "Q e w'"
  using assms(1,2)
proof (induction n arbitrary: w)
  case 0
  then show ?case using assms(3) [of w] by (auto split: prod.splits option.splits if_splits)
next
  case (Suc n)
  obtain e1 w1 where f: "fn w = (e1, w1)" by fastforce
  show ?case
  proof (cases "e1 = Some Conflict")
    case True
    then have "I w1" using assms(3) [OF Suc.prems(2) f] by simp
    then show ?thesis using Suc.IH [of w1] Suc.prems(1) f True by simp
  next
    case False
    then have "e = e1 \<and> w' = w1" using Suc.prems(1) f by (auto split: option.splits if_splits)
    then show ?thesis using assms(3) [OF Suc.prems(2) f] by simp
  qed
qed

end
