(* ===== verification/Api_PodRestore.thy ===== *)
theory Api_PodRestore
  imports Go_Filepath Kube_Objects
begin

text \<open>
  \<^verbatim>\<open>api/v1/podrestore_types.go\<close>: the PodRestore resource and the three path checks that the
  PodRestore controller and the CRI proxy share. The checks return the error as a value,
  \<open>None\<close> for nil. The lemmas give each check as an equivalence: which paths it lets
  through, no more and no less.
\<close>

section \<open>Definitions\<close>

definition RestoreCheckpointPathAnnotationPrefix :: string where
  "RestoreCheckpointPathAnnotationPrefix = ''restore.criu.org/checkpoint-path.''"

definition DefaultCheckpointDir :: string where
  "DefaultCheckpointDir = ''/var/lib/kubelet/checkpoints''"

datatype PathError =
    PathEmpty
  | PathNotAbsolute
  | PathNotClean
  | PathNotTar
  | PathOutsideDir
  | NotKubeletName
  | ForeignNamespace

definition ValidateCheckpointPath :: "string \<Rightarrow> PathError option" where
  "ValidateCheckpointPath p =
     (if p = [] then Some PathEmpty
      else if \<not> IsAbs p then Some PathNotAbsolute
      else if Clean p \<noteq> p then Some PathNotClean
      else if Ext p \<noteq> ''.tar'' then Some PathNotTar
      else None)"

definition ValidateCheckpointPathInDir :: "string \<Rightarrow> string \<Rightarrow> PathError option" where
  "ValidateCheckpointPathInDir p allowedDir =
     (case ValidateCheckpointPath p of
        Some err \<Rightarrow> Some err
      | None \<Rightarrow>
          let allowedDir = (if allowedDir = [] then DefaultCheckpointDir else allowedDir)
          in if Dir p \<noteq> Clean allowedDir then Some PathOutsideDir else None)"

definition ValidateCheckpointNamespaceHint :: "string \<Rightarrow> string \<Rightarrow> PathError option" where
  "ValidateCheckpointNamespaceHint p ns =
     (let base = Base p
      in case CutPrefix base ''checkpoint-'' of
           None \<Rightarrow> Some NotKubeletName
         | Some rest \<Rightarrow>
             (case Cut rest (CHR ''_'') of
                None \<Rightarrow> Some NotKubeletName
              | Some (_, after) \<Rightarrow>
                  if \<not> HasPrefix after (ns @ ''-'') then Some ForeignNamespace else None))"

record ContainerCheckpoint =
  ccContainer :: string
  ccPath :: string

text \<open>The pod template: its annotations and labels, and the pod spec's containers.\<close>

record PodTemplateSpec =
  ptAnnotations :: smap
  ptLabels :: smap
  ptContainers :: "Container list"

record PodRestoreSpec =
  prTargetNode :: string
  prCheckpoints :: "ContainerCheckpoint list"
  prTemplate :: PodTemplateSpec

definition ConditionReady :: string where
  "ConditionReady = ''Ready''"

definition ConditionCheckpointsPinned :: string where
  "ConditionCheckpointsPinned = ''CheckpointsPinned''"

record PodRestoreStatus =
  prConditions :: "Condition list"
  prPodName :: string
  prObservedGeneration :: int

record PodRestore =
  prName :: string
  prNamespace :: string
  prUID :: string
  prGeneration :: int
  prFinalizers :: "string list"
  prDeletionTimestamp :: "time option"
  prSpec :: PodRestoreSpec
  prStatus :: PodRestoreStatus

section \<open>Lemmas\<close>

text \<open>The directory that a configured \<open>allowedDir\<close> stands for.\<close>

definition effective_dir :: "string \<Rightarrow> string" where
  "effective_dir d = Clean (if d = [] then DefaultCheckpointDir else d)"

lemma tar_name_proper: "Ext f = ''.tar'' \<Longrightarrow> slash \<notin> set f \<Longrightarrow> proper f"
  using Ext_eq_suffix [of f "''tar''"] by (auto simp: proper_def)

lemma ValidateCheckpointPath_iff:
  "ValidateCheckpointPath p = None \<longleftrightarrow>
     (\<exists>cs f. list_all proper cs \<and> slash \<notin> set f \<and> Ext f = ''.tar'' \<and>
        p = slash # join_slash (cs @ [f]))"
proof
  assume "ValidateCheckpointPath p = None"
  then have p: "IsAbs p" "Clean p = p" "Ext p = ''.tar''"
    by (auto simp: ValidateCheckpointPath_def split: if_splits)
  obtain ds where ds: "list_all proper ds" "p = slash # join_slash ds"
    using Clean_abs_components [OF p(1)] p(2) by metis
  have "ds \<noteq> []" using p(3) ds(2) by (auto simp: Ext_def file_part_def)
  then obtain cs f where "ds = cs @ [f]" by (metis rev_exhaust)
  moreover from this ds have "slash \<notin> set f" "list_all proper cs" by (auto simp: proper_def)
  moreover have "Ext p = Ext f"
    using calculation ds Ext_entry [of f] entry_of_join [of cs f] by metis
  ultimately show "\<exists>cs f. list_all proper cs \<and> slash \<notin> set f \<and> Ext f = ''.tar'' \<and>
      p = slash # join_slash (cs @ [f])"
    using ds(2) p(3) by metis
next
  assume "\<exists>cs f. list_all proper cs \<and> slash \<notin> set f \<and> Ext f = ''.tar'' \<and>
      p = slash # join_slash (cs @ [f])"
  then obtain cs f where p: "list_all proper cs" "slash \<notin> set f" "Ext f = ''.tar''"
    "p = slash # join_slash (cs @ [f])" by auto
  then have "list_all proper (cs @ [f])" using tar_name_proper by simp
  then have "Clean p = p" using p(4) Clean_join_proper by metis
  moreover have "Ext p = ''.tar''" using p Ext_entry [of f] entry_of_join [of cs f] by metis
  ultimately show "ValidateCheckpointPath p = None"
    using p(4) by (simp add: ValidateCheckpointPath_def IsAbs_def HasPrefix_def)
qed

lemma ValidateCheckpointPathInDir_iff:
  "ValidateCheckpointPathInDir p d = None \<longleftrightarrow>
     IsAbs (effective_dir d) \<and>
     (\<exists>f. slash \<notin> set f \<and> Ext f = ''.tar'' \<and> p = entry_of (effective_dir d) f)"
    (is "?ok \<longleftrightarrow> ?abs \<and> (\<exists>f. ?entry f)")
proof
  assume ok: ?ok
  then have "ValidateCheckpointPath p = None" and dir: "Dir p = effective_dir d"
    by (auto simp: ValidateCheckpointPathInDir_def effective_dir_def Let_def
        split: option.splits if_splits)
  then obtain cs f where p: "list_all proper cs" "slash \<notin> set f" "Ext f = ''.tar''"
    "p = slash # join_slash (cs @ [f])" using ValidateCheckpointPath_iff by auto
  have "effective_dir d = slash # join_slash cs" using dir p Dir_proper by metis
  with p show "?abs \<and> (\<exists>f. ?entry f)"
    using entry_of_join by (auto simp: IsAbs_def HasPrefix_def)
next
  assume "?abs \<and> (\<exists>f. ?entry f)"
  then obtain f where abs: ?abs and f: "slash \<notin> set f" "Ext f = ''.tar''"
    "p = entry_of (effective_dir d) f" by auto
  obtain cs where cs: "list_all proper cs" "effective_dir d = slash # join_slash cs"
    using abs Clean_abs_components unfolding effective_dir_def by (metis IsAbs_Clean)
  have p: "p = slash # join_slash (cs @ [f])" using f(3) cs entry_of_join by metis
  have "Dir p = effective_dir d" using p cs f(1) Dir_proper by metis
  moreover have "ValidateCheckpointPath p = None"
    unfolding ValidateCheckpointPath_iff using cs(1) f(1,2) p
    by (intro exI [of _ cs] exI [of _ f]) simp
  ultimately show ?ok by (simp add: ValidateCheckpointPathInDir_def effective_dir_def Let_def)
qed

lemma ValidateCheckpointNamespaceHint_iff:
  "ValidateCheckpointNamespaceHint p ns = None \<longleftrightarrow>
     (\<exists>pod rest. CHR ''_'' \<notin> set pod \<and>
        Base p = ''checkpoint-'' @ pod @ ''_'' @ ns @ ''-'' @ rest)"
proof -
  have "ValidateCheckpointNamespaceHint p ns = None \<longleftrightarrow>
      (\<exists>r. CutPrefix (Base p) ''checkpoint-'' = Some r \<and>
         (\<exists>pod a. Cut r (CHR ''_'') = Some (pod, a) \<and> prefix (ns @ ''-'') a))"
    by (auto simp: ValidateCheckpointNamespaceHint_def HasPrefix_def Let_def
        split: option.splits if_splits)
  also have "\<dots> \<longleftrightarrow> (\<exists>pod rest. CHR ''_'' \<notin> set pod \<and>
        Base p = ''checkpoint-'' @ pod @ ''_'' @ ns @ ''-'' @ rest)"
    unfolding CutPrefix_iff Cut_iff prefix_def by auto
  finally show ?thesis .
qed

section \<open>Property\<close>

text \<open>C6: The well-formed checkpoint paths of a namespace are exactly these: directly in the configured
  directory, or the kubelet's if none is configured, which is absolute, a file named
  \<^verbatim>\<open>checkpoint-<pod>_<namespace>-...tar\<close>. No path with a dot segment, a doubled or trailing slash or a
  subdirectory passes the two checks, and every path of that form does.\<close>

theorem accepted_paths:
  "ValidateCheckpointPathInDir p d = None \<and> ValidateCheckpointNamespaceHint p ns = None \<longleftrightarrow>
     IsAbs (effective_dir d) \<and>
     (\<exists>pod rest. slash \<notin> set (pod @ ns @ rest) \<and> CHR ''_'' \<notin> set pod \<and>
        Ext (''checkpoint-'' @ pod @ ''_'' @ ns @ ''-'' @ rest) = ''.tar'' \<and>
        p = entry_of (effective_dir d) (''checkpoint-'' @ pod @ ''_'' @ ns @ ''-'' @ rest))"
  (is "?checks \<longleftrightarrow> ?abs \<and> (\<exists>pod rest. ?form pod rest)")
proof
  assume c: ?checks
  then obtain f where f: ?abs "slash \<notin> set f" "Ext f = ''.tar''" "p = entry_of (effective_dir d) f"
    using ValidateCheckpointPathInDir_iff by blast
  have "f \<noteq> []" using f(3) by (auto simp: Ext_def file_part_def)
  then have "Base p = f" using Base_entry [OF f(2)] f(4) by simp
  then obtain pod rest where pr: "CHR ''_'' \<notin> set pod" "f = ''checkpoint-'' @ pod @ ''_'' @ ns @ ''-'' @ rest"
    using c ValidateCheckpointNamespaceHint_iff by blast
  have "slash \<notin> set (pod @ ns @ rest)" using f(2) unfolding pr(2) by simp
  then show "?abs \<and> (\<exists>pod rest. ?form pod rest)" using f pr by blast
next
  assume a: "?abs \<and> (\<exists>pod rest. ?form pod rest)"
  then obtain pod rest where pr: "slash \<notin> set (pod @ ns @ rest)" "CHR ''_'' \<notin> set pod"
    "Ext (''checkpoint-'' @ pod @ ''_'' @ ns @ ''-'' @ rest) = ''.tar''"
    "p = entry_of (effective_dir d) (''checkpoint-'' @ pod @ ''_'' @ ns @ ''-'' @ rest)" by blast
  let ?f = "''checkpoint-'' @ pod @ ''_'' @ ns @ ''-'' @ rest"
  have f: "slash \<notin> set ?f" using pr(1) by simp
  then have "Base p = ?f" using Base_entry [OF f] pr(4) by simp
  then have "ValidateCheckpointNamespaceHint p ns = None" using pr(2) ValidateCheckpointNamespaceHint_iff by blast
  moreover have "ValidateCheckpointPathInDir p d = None"
    unfolding ValidateCheckpointPathInDir_iff using a f pr(3,4) by blast
  ultimately show ?checks by simp
qed

end
