(* ===== verification/Go_OS.thy ===== *)
theory Go_OS
  imports Go_Filepath Kube_Objects
begin

text \<open>
  The file system as package \<^verbatim>\<open>os\<close> shows it: files by absolute path, and for each kind of
  call the paths on which it fails for a reason other than a missing file (permissions,
  I/O). A failing write leaves the first \<open>fsTorn\<close> bytes behind, so that the effect of a
  crash in the middle of a write is part of the model. \<open>filepath.Glob\<close> lists one
  directory, as the retention code uses it.
\<close>

section \<open>Definitions\<close>

record FileInfo =
  fSize :: int
  fModTime :: time
  fContent :: string

record FS =
  fsFiles :: "(string \<times> FileInfo) list"
  fsNow :: time
  fsStatFail :: "string \<Rightarrow> bool"
  fsRemoveFail :: "string \<Rightarrow> bool"
  fsReadFail :: "string \<Rightarrow> bool"
  fsWriteFail :: "string \<Rightarrow> bool"
  fsRenameFail :: "string \<Rightarrow> bool"
  fsTorn :: "string \<Rightarrow> nat"

datatype OsError = ErrNotExist | ErrIO

definition fs_lookup :: "FS \<Rightarrow> string \<Rightarrow> FileInfo option" where
  "fs_lookup fs p = map_of (fsFiles fs) p"

definition fs_put :: "string \<Rightarrow> FileInfo \<Rightarrow> FS \<Rightarrow> FS" where
  "fs_put p f fs = fs\<lparr>fsFiles := AList.update p f (fsFiles fs)\<rparr>"

definition fs_delete :: "string \<Rightarrow> FS \<Rightarrow> FS" where
  "fs_delete p fs = fs\<lparr>fsFiles := AList.delete p (fsFiles fs)\<rparr>"

definition os_Stat :: "FS \<Rightarrow> string \<Rightarrow> OsError + FileInfo" where
  "os_Stat fs p =
     (if fsStatFail fs p then Inl ErrIO
      else case fs_lookup fs p of None \<Rightarrow> Inl ErrNotExist | Some f \<Rightarrow> Inr f)"

definition os_Remove :: "FS \<Rightarrow> string \<Rightarrow> OsError option \<times> FS" where
  "os_Remove fs p =
     (if fs_lookup fs p = None then (Some ErrNotExist, fs)
      else if fsRemoveFail fs p then (Some ErrIO, fs)
      else (None, fs_delete p fs))"

definition os_ReadFile :: "FS \<Rightarrow> string \<Rightarrow> OsError + string" where
  "os_ReadFile fs p =
     (case fs_lookup fs p of
        None \<Rightarrow> Inl ErrNotExist
      | Some f \<Rightarrow> if fsReadFail fs p then Inl ErrIO else Inr (fContent f))"

definition new_file :: "FS \<Rightarrow> string \<Rightarrow> FileInfo" where
  "new_file fs data = \<lparr>fSize = int (length data), fModTime = fsNow fs, fContent = data\<rparr>"

definition os_WriteFile :: "FS \<Rightarrow> string \<Rightarrow> string \<Rightarrow> OsError option \<times> FS" where
  "os_WriteFile fs p data =
     (if fsWriteFail fs p then (Some ErrIO, fs_put p (new_file fs (take (fsTorn fs p) data)) fs)
      else (None, fs_put p (new_file fs data) fs))"

definition os_Rename :: "FS \<Rightarrow> string \<Rightarrow> string \<Rightarrow> OsError option \<times> FS" where
  "os_Rename fs old new =
     (case fs_lookup fs old of
        None \<Rightarrow> (Some ErrNotExist, fs)
      | Some f \<Rightarrow> if fsRenameFail fs new then (Some ErrIO, fs)
                  else (None, fs_put new f (fs_delete old fs)))"

text \<open>
  \<open>filepath.Glob\<close> for a pattern whose directory part has no metacharacters: the entries of
  that directory, in name order, whose name matches the file part. \<open>None\<close> is
  \<open>ErrBadPattern\<close>.
\<close>

definition dir_entries :: "FS \<Rightarrow> string \<Rightarrow> string list" where
  "dir_entries fs d =
     sort (remdups [file_part p. p \<leftarrow> map fst (fsFiles fs), file_part p \<noteq> [], Dir p = d])"

definition Glob :: "FS \<Rightarrow> string \<Rightarrow> string list option" where
  "Glob fs pattern =
     (case glob_parse pattern of
        None \<Rightarrow> None
      | Some _ \<Rightarrow>
          (case glob_parse (file_part pattern) of
             None \<Rightarrow> None
           | Some ts \<Rightarrow>
               Some [Join [Dir pattern, n]. n \<leftarrow> dir_entries fs (Dir pattern), glob_match ts n]))"

text \<open>A file system on which no call fails, for evaluating examples.\<close>

definition plain_fs :: "(string \<times> FileInfo) list \<Rightarrow> FS" where
  "plain_fs files =
     \<lparr>fsFiles = files, fsNow = 0, fsStatFail = (\<lambda>_. False), fsRemoveFail = (\<lambda>_. False),
      fsReadFail = (\<lambda>_. False), fsWriteFail = (\<lambda>_. False), fsRenameFail = (\<lambda>_. False),
      fsTorn = (\<lambda>_. 0)\<rparr>"

section \<open>Lemmas\<close>

lemma fs_lookup_put [simp]:
  "fs_lookup (fs_put p f fs) q = (if q = p then Some f else fs_lookup fs q)"
  by (simp add: fs_lookup_def fs_put_def update_conv')

lemma fs_lookup_delete [simp]:
  "fs_lookup (fs_delete p fs) q = (if q = p then None else fs_lookup fs q)"
  by (simp add: fs_lookup_def fs_delete_def delete_conv')

text \<open>The failure oracles and the clock are never changed by the program.\<close>

definition same_faults :: "FS \<Rightarrow> FS \<Rightarrow> bool" where
  "same_faults a b = (b = a\<lparr>fsFiles := fsFiles b\<rparr>)"

lemma same_faultsD:
  assumes "same_faults a b"
  shows "fsNow b = fsNow a" "fsStatFail b = fsStatFail a" "fsRemoveFail b = fsRemoveFail a"
    "fsReadFail b = fsReadFail a" "fsWriteFail b = fsWriteFail a"
    "fsRenameFail b = fsRenameFail a" "fsTorn b = fsTorn a"
  using assms unfolding same_faults_def by (metis FS.select_convs FS.surjective FS.update_convs)+

lemma same_faults_refl [simp]: "same_faults a a"
  by (simp add: same_faults_def)

lemma same_faults_trans: "same_faults a b \<Longrightarrow> same_faults b c \<Longrightarrow> same_faults a c"
  unfolding same_faults_def by (cases a; cases b; cases c) simp

lemma same_faults_put [simp]: "same_faults a (fs_put p f b) = same_faults a b"
  unfolding same_faults_def fs_put_def by (cases a; cases b) auto

lemma same_faults_delete [simp]: "same_faults a (fs_delete p b) = same_faults a b"
  unfolding same_faults_def fs_delete_def by (cases a; cases b) auto

lemma os_Remove_frame [fs_frame]:
  "os_Remove fs p = (r, fs') \<Longrightarrow> q \<noteq> p \<Longrightarrow> fs_lookup fs' q = fs_lookup fs q"
  by (auto simp: os_Remove_def split: if_splits)

lemma os_Remove_ok:
  "os_Remove fs p = (None, fs') \<Longrightarrow> fs_lookup fs' p = None"
  by (auto simp: os_Remove_def split: if_splits)

lemma os_Remove_faults [fs_frame]: "os_Remove fs p = (r, fs') \<Longrightarrow> same_faults fs fs'"
  by (auto simp: os_Remove_def split: if_splits)

lemma os_Stat_lookup: "os_Stat fs p = Inr f \<Longrightarrow> fs_lookup fs p = Some f"
  by (auto simp: os_Stat_def split: if_splits option.splits)

lemma os_Stat_ok_iff:
  "os_Stat fs p = Inr f \<longleftrightarrow> \<not> fsStatFail fs p \<and> fs_lookup fs p = Some f"
  by (auto simp: os_Stat_def split: option.splits)

subsection \<open>Glob over a directory of archives\<close>

text \<open>Every file is stored under the clean path of an entry of its directory.\<close>

definition fs_clean :: "FS \<Rightarrow> bool" where
  "fs_clean fs \<longleftrightarrow> (\<forall>p\<in>set (map fst (fsFiles fs)). p = entry_of (Dir p) (file_part p))"

lemma dir_entries_member:
  "n \<in> set (dir_entries fs d) \<longleftrightarrow>
     (\<exists>p\<in>set (map fst (fsFiles fs)). n = file_part p \<and> n \<noteq> [] \<and> Dir p = d)"
  by (auto simp: dir_entries_def)

lemma dir_entries_distinct [simp]: "distinct (dir_entries fs d)"
  by (simp add: dir_entries_def)

text \<open>The matches of such a pattern are the entries of the directory that end in the extension.\<close>

lemma Glob_tar_entries:
  assumes "IsAbs dir" "slash \<notin> set f" "Glob fs (Join [dir, f @ ''*.tar'']) = Some ps"
  obtains ns where "ps = map (entry_of (Clean dir)) ns" "distinct ns"
    "\<forall>n\<in>set ns. n \<in> set (dir_entries fs (Clean dir)) \<and> slash \<notin> set n \<and> (\<exists>m. n = m @ ''.tar'')"
proof -
  let ?d = "Clean dir"
  have d: "IsAbs ?d" "Clean ?d = ?d" using assms(1) Clean_idem_abs by auto
  have pf: "proper (f @ ''*.tar'')" using assms(2) by (simp add: proper_def)
  then have j: "Join [dir, f @ ''*.tar''] = entry_of ?d (f @ ''*.tar'')"
    by (rule Join_entry_clean [OF assms(1)])
  have e: "Dir (entry_of ?d (f @ ''*.tar'')) = ?d" "file_part (entry_of ?d (f @ ''*.tar'')) = f @ ''*.tar''"
    using pf Dir_entry [OF d] file_part_entry by (auto simp: proper_def)
  have cm: "concat (map (\<lambda>n. if P n then [g n] else []) xs) = map g (filter P xs)"
    for P and g :: "string \<Rightarrow> string" and xs by (induction xs) auto
  obtain ts where ts: "glob_parse (f @ ''*.tar'') = Some ts"
    and ps: "ps = map (\<lambda>n. Join [?d, n]) (filter (glob_match ts) (dir_entries fs ?d))"
    using assms(3) unfolding j Glob_def e
    by (auto simp: cm split: option.splits)
  have "\<exists>us. ts = us @ map GLit ''.tar''"
    by (rule glob_parse_star_ext [OF _ _ ts]) auto
  then obtain us where us: "ts = us @ map GLit ''.tar''" ..
  have n: "slash \<notin> set n \<and> (\<exists>m. n = m @ ''.tar'') \<and> Join [?d, n] = entry_of ?d n"
    if n: "n \<in> set (filter (glob_match ts) (dir_entries fs ?d))" for n
  proof -
    obtain m where m: "n = m @ ''.tar''"
      using n glob_match_literal_end [of us "''.tar''" n] us by auto
    have s: "slash \<notin> set n" using n by (auto simp: dir_entries_member)
    then have "proper n" using m by (simp add: proper_def)
    with m s d show ?thesis by (simp add: Join_entry)
  qed
  have "ps = map (entry_of ?d) (filter (glob_match ts) (dir_entries fs ?d))"
    unfolding ps using n by (intro map_cong refl) blast
  moreover have "distinct (filter (glob_match ts) (dir_entries fs ?d))" by simp
  moreover have "\<forall>n\<in>set (filter (glob_match ts) (dir_entries fs ?d)).
      n \<in> set (dir_entries fs ?d) \<and> slash \<notin> set n \<and> (\<exists>m. n = m @ ''.tar'')"
    using n unfolding set_filter by blast
  ultimately show ?thesis by (rule that)
qed

lemma Glob_tar:
  assumes "IsAbs dir" "slash \<notin> set f" "Glob fs (Join [dir, f @ ''*.tar'']) = Some ps"
  shows "distinct ps \<and> (\<forall>p\<in>set ps. HasSuffix p ''.tar'' \<and> Dir p = Clean dir \<and>
    (fs_clean fs \<longrightarrow> fs_lookup fs p \<noteq> None))"
proof -
  let ?d = "Clean dir"
  have d: "IsAbs ?d" "Clean ?d = ?d" using assms(1) Clean_idem_abs by auto
  obtain ns where ns: "ps = map (entry_of ?d) ns" "distinct ns"
    "\<forall>n\<in>set ns. n \<in> set (dir_entries fs ?d) \<and> slash \<notin> set n \<and> (\<exists>m. n = m @ ''.tar'')"
    by (rule Glob_tar_entries [OF assms])
  have "inj_on (entry_of ?d) (set ns)" using ns(3) entry_of_inject by (intro inj_onI) blast
  then have "distinct ps" using ns(1,2) by (simp add: distinct_map)
  moreover have "HasSuffix p ''.tar'' \<and> Dir p = ?d \<and> (fs_clean fs \<longrightarrow> fs_lookup fs p \<noteq> None)"
    if p: "p \<in> set ps" for p
  proof -
    obtain k m where m: "k \<in> set (dir_entries fs ?d)" "k = m @ ''.tar''" "slash \<notin> set k" "p = entry_of ?d k"
      using p ns(1,3) by auto
    have "HasSuffix p ''.tar''" using m by (auto simp: HasSuffix_def entry_of_def suffix_def)
    moreover have "Dir p = ?d" using m d Dir_entry by simp
    moreover have "fs_lookup fs p \<noteq> None" if "fs_clean fs"
    proof -
      obtain q where q: "q \<in> set (map fst (fsFiles fs))" "k = file_part q" "Dir q = ?d"
        using m(1) by (auto simp: dir_entries_member)
      then have "q = p" using that m(4) by (auto simp: fs_clean_def)
      then show ?thesis using q(1) by (simp add: fs_lookup_def map_of_eq_None_iff)
    qed
    ultimately show ?thesis by blast
  qed
  ultimately show ?thesis by blast
qed


end
