(* ===== verification/Checkpoint_Archive.thy ===== *)
theory Checkpoint_Archive
  imports Go_OS
begin

text \<open>
  \<^verbatim>\<open>internal/checkpointarchive/archive.go\<close>: extraction of single files out of an untrusted
  checkpoint archive, and the identity (namespace, pod, container) and base image recorded
  in it. Opening and decompressing an archive, and decoding JSON, are functions of
  \<open>ArchiveEnv\<close>; what an archive holds is a list of tar entries and possibly a read error
  after them. Extraction writes into the file system of the temporary directory.
\<close>

section \<open>Definitions\<close>

datatype ArchiveError =
    ArchiveOpenFailed
  | TarReadFailed
  | EntryNotRegular string
  | EntryEscapes string
  | EntryTooLarge string
  | ExtractFailed
  | TempDirFailed
  | DumpUnreadable
  | LabelsMalformed
  | IdentityIncomplete string
  | IdentityConflict string string
  | IdentityMissing
  | NamespaceMissing
  | ImageMissing

text \<open>A tar entry; \<open>teReadErr\<close> if reading its data fails after \<open>teData\<close>.\<close>

record TarEntry =
  teName :: string
  teTypeflag :: char
  teData :: string
  teReadErr :: bool

record TarStream =
  tsEntries :: "TarEntry list"
  tsNextErr :: bool

record ArchiveEnv =
  aeOpen :: "string \<Rightarrow> ArchiveError + TarStream"
  aeTempDir :: "ArchiveError + string"
  aeTempFS :: FS
  aeSpecJSON :: "string \<Rightarrow> smap option"
  aeConfigJSON :: "string \<Rightarrow> string option"
  aeLabelsJSON :: "string \<Rightarrow> smap option"

definition MaxExtractedFileSize :: int where
  "MaxExtractedFileSize = 16777216"

definition criOLabelsAnnotation :: string where
  "criOLabelsAnnotation = ''io.kubernetes.cri-o.Labels''"

definition containerdSandboxNamespaceAnnotation :: string where
  "containerdSandboxNamespaceAnnotation = ''io.kubernetes.cri.sandbox-namespace''"

definition containerdSandboxNameAnnotation :: string where
  "containerdSandboxNameAnnotation = ''io.kubernetes.cri.sandbox-name''"

definition containerdContainerNameAnnotation :: string where
  "containerdContainerNameAnnotation = ''io.kubernetes.cri.container-name''"

definition CheckpointAnnotationNamespace :: string where
  "CheckpointAnnotationNamespace = ''org.criu.checkpoint.pod.namespace''"

definition CheckpointAnnotationPod :: string where
  "CheckpointAnnotationPod = ''org.criu.checkpoint.pod.name''"

definition CheckpointAnnotationName :: string where
  "CheckpointAnnotationName = ''org.criu.checkpoint.container.name''"

definition KubernetesPodNamespaceLabel :: string where
  "KubernetesPodNamespaceLabel = ''io.kubernetes.pod.namespace''"

definition KubernetesPodNameLabel :: string where
  "KubernetesPodNameLabel = ''io.kubernetes.pod.name''"

definition KubernetesContainerNameLabel :: string where
  "KubernetesContainerNameLabel = ''io.kubernetes.container.name''"

definition SpecDumpFile :: string where "SpecDumpFile = ''spec.dump''"
definition ConfigDumpFile :: string where "ConfigDumpFile = ''config.dump''"

record PodContainerRef =
  refNamespace :: string
  refPod :: string
  refContainer :: string

record podContainerRefCandidate =
  candSource :: string
  candRef :: PodContainerRef

subsection \<open>Extraction\<close>

text \<open>The callback of \<open>UntarFiles\<close> for one entry.\<close>

definition untar_entry ::
  "string set \<Rightarrow> string \<Rightarrow> TarEntry \<Rightarrow> FS \<Rightarrow> ArchiveError option \<times> FS" where
  "untar_entry want cleanDest header fs =
     (let name = Clean (teName header)
      in if name \<notin> want then (None, fs)
         else if teTypeflag header \<noteq> CHR ''0'' then (Some (EntryNotRegular (teName header)), fs)
         else let target = Join [cleanDest, name]
              in if target \<noteq> cleanDest \<and> \<not> HasPrefix target (cleanDest @ [slash])
                 then (Some (EntryEscapes (teName header)), fs)
                 else if fsWriteFail fs target then (Some ExtractFailed, fs)
                 else let copied = LimitReader (teData header) (MaxExtractedFileSize + 1);
                          fs' = fs_put target (new_file fs copied) fs
                      in if teReadErr header \<and> int (length (teData header)) \<le> MaxExtractedFileSize
                         then (Some TarReadFailed, fs')
                         else if int (length copied) > MaxExtractedFileSize
                         then (Some (EntryTooLarge (teName header)), fs')
                         else (None, fs'))"

fun iterate_entries ::
  "(TarEntry \<Rightarrow> 's \<Rightarrow> ArchiveError option \<times> 's) \<Rightarrow> TarEntry list \<Rightarrow> bool \<Rightarrow> 's
     \<Rightarrow> ArchiveError option \<times> 's" where
  "iterate_entries callback [] nextErr s = ((if nextErr then Some TarReadFailed else None), s)"
| "iterate_entries callback (e # es) nextErr s =
     (case callback e s of
        (Some err, s') \<Rightarrow> (Some err, s')
      | (None, s') \<Rightarrow> iterate_entries callback es nextErr s')"

definition iterateTarArchive ::
  "ArchiveEnv \<Rightarrow> string \<Rightarrow> (TarEntry \<Rightarrow> 's \<Rightarrow> ArchiveError option \<times> 's) \<Rightarrow> 's
     \<Rightarrow> ArchiveError option \<times> 's" where
  "iterateTarArchive env archiveInput callback s =
     (case aeOpen env archiveInput of
        Inl err \<Rightarrow> (Some err, s)
      | Inr stream \<Rightarrow> iterate_entries callback (tsEntries stream) (tsNextErr stream) s)"

definition UntarFiles ::
  "ArchiveEnv \<Rightarrow> string \<Rightarrow> string \<Rightarrow> string list \<Rightarrow> FS \<Rightarrow> ArchiveError option \<times> FS" where
  "UntarFiles env src dest files fs =
     iterateTarArchive env src (untar_entry (Clean ` set files) (Clean dest)) fs"

text \<open>\<open>metadata.ReadJSONFile\<close> with the decoder of the wanted type.\<close>

definition ReadJSONFile :: "(string \<Rightarrow> 'a option) \<Rightarrow> FS \<Rightarrow> string \<Rightarrow> string \<Rightarrow> ArchiveError + 'a" where
  "ReadJSONFile decode fs dir f =
     (case os_ReadFile fs (Join [dir, f]) of
        Inl _ \<Rightarrow> Inl DumpUnreadable
      | Inr content \<Rightarrow> (case decode content of None \<Rightarrow> Inl DumpUnreadable | Some v \<Rightarrow> Inr v))"

definition extractSpecDump :: "ArchiveEnv \<Rightarrow> string \<Rightarrow> ArchiveError + smap" where
  "extractSpecDump env checkpointPath =
     (case aeTempDir env of
        Inl err \<Rightarrow> Inl err
      | Inr tempDir \<Rightarrow>
          (case UntarFiles env checkpointPath tempDir [SpecDumpFile] (aeTempFS env) of
             (Some err, _) \<Rightarrow> Inl err
           | (None, fs) \<Rightarrow> ReadJSONFile (aeSpecJSON env) fs tempDir SpecDumpFile))"

subsection \<open>Identity\<close>

definition complete :: "PodContainerRef \<Rightarrow> bool" where
  "complete r = (refNamespace r \<noteq> [] \<and> refPod r \<noteq> [] \<and> refContainer r \<noteq> [])"

definition equal_ref :: "PodContainerRef \<Rightarrow> PodContainerRef \<Rightarrow> bool" where
  "equal_ref r other =
     (refNamespace r = refNamespace other \<and> refPod r = refPod other \<and>
      refContainer r = refContainer other)"

definition appendCandidateIfPresent ::
  "podContainerRefCandidate list \<Rightarrow> string \<Rightarrow> PodContainerRef \<Rightarrow> podContainerRefCandidate list" where
  "appendCandidateIfPresent candidates source ref =
     (if refNamespace ref = [] \<and> refPod ref = [] \<and> refContainer ref = [] then candidates
      else candidates @ [\<lparr>candSource = source, candRef = ref\<rparr>])"

definition identity_candidates ::
  "ArchiveEnv \<Rightarrow> smap \<Rightarrow> ArchiveError + podContainerRefCandidate list" where
  "identity_candidates env annotations =
     (let raw = mget annotations criOLabelsAnnotation;
          start =
            (if raw = [] then Inr []
             else case aeLabelsJSON env raw of
               None \<Rightarrow> Inl LabelsMalformed
             | Some labels \<Rightarrow>
                 Inr [\<lparr>candSource = criOLabelsAnnotation,
                       candRef = \<lparr>refNamespace = mget labels KubernetesPodNamespaceLabel,
                                  refPod = mget labels KubernetesPodNameLabel,
                                  refContainer = mget labels KubernetesContainerNameLabel\<rparr>\<rparr>])
      in case start of
           Inl err \<Rightarrow> Inl err
         | Inr c0 \<Rightarrow>
             let c1 = appendCandidateIfPresent c0 ''containerd CRI annotations''
                        \<lparr>refNamespace = mget annotations containerdSandboxNamespaceAnnotation,
                         refPod = mget annotations containerdSandboxNameAnnotation,
                         refContainer = mget annotations containerdContainerNameAnnotation\<rparr>
             in Inr (appendCandidateIfPresent c1 ''checkpointctl annotations''
                        \<lparr>refNamespace = mget annotations CheckpointAnnotationNamespace,
                         refPod = mget annotations CheckpointAnnotationPod,
                         refContainer = mget annotations CheckpointAnnotationName\<rparr>))"

text \<open>The selection loop; the second argument is \<open>selected\<close>, \<open>None\<close> for nil.\<close>

fun select_candidate ::
  "podContainerRefCandidate list \<Rightarrow> podContainerRefCandidate option
     \<Rightarrow> ArchiveError + PodContainerRef" where
  "select_candidate [] selected =
     (case selected of None \<Rightarrow> Inl IdentityMissing | Some s \<Rightarrow> Inr (candRef s))"
| "select_candidate (candidate # cs) selected =
     (if \<not> complete (candRef candidate) then Inl (IdentityIncomplete (candSource candidate))
      else case selected of
        None \<Rightarrow> select_candidate cs (Some candidate)
      | Some s \<Rightarrow>
          if \<not> equal_ref (candRef s) (candRef candidate)
          then Inl (IdentityConflict (candSource s) (candSource candidate))
          else select_candidate cs (Some s))"

definition podContainerRefFromAnnotations ::
  "ArchiveEnv \<Rightarrow> smap \<Rightarrow> ArchiveError + PodContainerRef" where
  "podContainerRefFromAnnotations env annotations =
     (case identity_candidates env annotations of
        Inl err \<Rightarrow> Inl err
      | Inr candidates \<Rightarrow> select_candidate candidates None)"

definition ReadPodContainerRef :: "ArchiveEnv \<Rightarrow> string \<Rightarrow> ArchiveError + PodContainerRef" where
  "ReadPodContainerRef env checkpointPath =
     (case extractSpecDump env checkpointPath of
        Inl err \<Rightarrow> Inl err
      | Inr annotations \<Rightarrow> podContainerRefFromAnnotations env annotations)"

text \<open>The part of \<open>ReadPodNamespace\<close> after the CRI-O labels.\<close>

definition direct_namespace :: "smap \<Rightarrow> ArchiveError + string" where
  "direct_namespace annotations =
     (if mget annotations containerdSandboxNamespaceAnnotation \<noteq> []
      then Inr (mget annotations containerdSandboxNamespaceAnnotation)
      else if mget annotations CheckpointAnnotationNamespace \<noteq> []
      then Inr (mget annotations CheckpointAnnotationNamespace)
      else Inl NamespaceMissing)"

definition ReadPodNamespace :: "ArchiveEnv \<Rightarrow> string \<Rightarrow> ArchiveError + string" where
  "ReadPodNamespace env checkpointPath =
     (case extractSpecDump env checkpointPath of
        Inl err \<Rightarrow> Inl err
      | Inr annotations \<Rightarrow>
          let raw = mget annotations criOLabelsAnnotation
          in if raw = [] then direct_namespace annotations
             else case aeLabelsJSON env raw of
               None \<Rightarrow> Inl LabelsMalformed
             | Some labels \<Rightarrow>
                 if mget labels KubernetesPodNamespaceLabel \<noteq> []
                 then Inr (mget labels KubernetesPodNamespaceLabel)
                 else direct_namespace annotations)"

definition ReadBaseImage :: "ArchiveEnv \<Rightarrow> string \<Rightarrow> ArchiveError + string" where
  "ReadBaseImage env checkpointPath =
     (case aeTempDir env of
        Inl err \<Rightarrow> Inl err
      | Inr tempDir \<Rightarrow>
          (case UntarFiles env checkpointPath tempDir [ConfigDumpFile] (aeTempFS env) of
             (Some err, _) \<Rightarrow> Inl err
           | (None, fs) \<Rightarrow>
               (case ReadJSONFile (aeConfigJSON env) fs tempDir ConfigDumpFile of
                  Inl err \<Rightarrow> Inl err
                | Inr rootfsImageName \<Rightarrow>
                    if rootfsImageName = [] then Inl ImageMissing else Inr rootfsImageName)))"

section \<open>Lemmas\<close>

subsection \<open>Extraction\<close>

lemma untar_entry_ok:
  assumes ok: "untar_entry want d e fs = (None, fs')"
    and d: "IsAbs d" "Clean d = d" "d \<noteq> [slash]" and want: "\<forall>f\<in>want. proper f"
  shows "Clean (teName e) \<notin> want \<and> fs' = fs \<or>
    Clean (teName e) \<in> want \<and> teTypeflag e = CHR ''0'' \<and>
    int (length (teData e)) \<le> MaxExtractedFileSize \<and>
    fs' = fs_put (entry_of d (Clean (teName e))) (new_file fs (teData e)) fs"
proof (cases "Clean (teName e) \<in> want")
  case True
  then have j: "Join [d, Clean (teName e)] = entry_of d (Clean (teName e))"
    using Join_entry d want by blast
  show ?thesis using ok True
    by (auto simp: untar_entry_def j Let_def LimitReader_def min_def split: if_splits)
next
  case False
  then show ?thesis using ok by (simp add: untar_entry_def)
qed

text \<open>The entries of an archive that a wanted name matches.\<close>

definition matching :: "string \<Rightarrow> TarEntry list \<Rightarrow> TarEntry list" where
  "matching f es = filter (\<lambda>e. Clean (teName e) = f) es"

definition extracted :: "string \<Rightarrow> TarEntry list \<Rightarrow> FS \<Rightarrow> FileInfo option \<Rightarrow> FileInfo option" where
  "extracted f es fs old =
     (if matching f es = [] then old else Some (new_file fs (teData (last (matching f es)))))"

lemma matching_simps [simp]:
  "matching f [] = []"
  "matching f (e # es) = (if Clean (teName e) = f then e # matching f es else matching f es)"
  by (simp_all add: matching_def)

lemma new_file_put [simp]: "new_file (fs_put p x fs) = new_file fs"
  by (simp add: new_file_def fs_put_def fun_eq_iff)

lemma iterate_untar_ok:
  assumes "iterate_entries (untar_entry want d) es nextErr fs = (None, fs')"
    and d: "IsAbs d" "Clean d = d" "d \<noteq> [slash]" and want: "\<forall>f\<in>want. proper f"
  shows "\<not> nextErr \<and>
    (\<forall>f\<in>want. fs_lookup fs' (entry_of d f) = extracted f es fs (fs_lookup fs (entry_of d f))) \<and>
    (\<forall>e\<in>set es. Clean (teName e) \<in> want \<longrightarrow>
       teTypeflag e = CHR ''0'' \<and> int (length (teData e)) \<le> MaxExtractedFileSize) \<and>
    (\<forall>q. q \<notin> entry_of d ` want \<longrightarrow> fs_lookup fs' q = fs_lookup fs q)"
  using assms(1)
proof (induction es arbitrary: fs)
  case Nil
  then show ?case by (auto simp: extracted_def split: if_splits)
next
  case (Cons e es)
  then obtain fs1 where s: "untar_entry want d e fs = (None, fs1)"
    and r: "iterate_entries (untar_entry want d) es nextErr fs1 = (None, fs')"
    by (auto split: prod.splits option.splits)
  have inj: "entry_of d f = entry_of d g \<longleftrightarrow> f = g" if "f \<in> want" "g \<in> want" for f g
    using entry_of_inject want that by (simp add: proper_def)
  show ?case
    using untar_entry_ok [OF s d want] Cons.IH [OF r] inj
    by (auto simp: extracted_def)
qed

subsection \<open>Identity\<close>

lemma equal_ref_eq [simp]: "equal_ref r s \<longleftrightarrow> r = s"
  by (cases r; cases s) (auto simp: equal_ref_def)

lemma select_candidate_Some:
  assumes "complete (candRef s)"
  shows "select_candidate cs (Some s) = Inr ref \<longleftrightarrow>
    ref = candRef s \<and> (\<forall>c\<in>set cs. candRef c = ref)"
proof (induction cs)
  case Nil
  show ?case by auto
next
  case (Cons c cs)
  have "select_candidate (c # cs) (Some s) = Inr ref \<longleftrightarrow>
      candRef c = candRef s \<and> select_candidate cs (Some s) = Inr ref"
    using assms by (cases "candRef c = candRef s") simp_all
  then show ?case unfolding Cons.IH list.set ball_simps by blast
qed

lemma select_candidate_None:
  "select_candidate cs None = Inr ref \<longleftrightarrow>
     cs \<noteq> [] \<and> complete ref \<and> (\<forall>c\<in>set cs. candRef c = ref)"
proof (cases cs)
  case (Cons c ds)
  have "select_candidate cs None = Inr ref \<longleftrightarrow>
      complete (candRef c) \<and> select_candidate ds (Some c) = Inr ref"
    using Cons by simp
  also have "\<dots> \<longleftrightarrow> complete ref \<and> candRef c = ref \<and> (\<forall>c\<in>set ds. candRef c = ref)"
    using select_candidate_Some [of c ds ref] by blast
  finally show ?thesis unfolding Cons list.set ball_simps by simp
qed simp

subsection \<open>An example archive\<close>

text \<open>An archive with a decoy entry before its \<^verbatim>\<open>spec.dump\<close>, as containerd writes it.\<close>

definition ex_stream :: TarStream where
  "ex_stream =
     \<lparr>tsEntries =
        [\<lparr>teName = ''x/spec.dump'', teTypeflag = CHR ''2'', teData = [], teReadErr = False\<rparr>,
         \<lparr>teName = ''./spec.dump'', teTypeflag = CHR ''0'', teData = ''{}'', teReadErr = False\<rparr>],
      tsNextErr = False\<rparr>"

definition ex_annotations :: smap where
  "ex_annotations =
     [(containerdSandboxNamespaceAnnotation, ''team''), (containerdSandboxNameAnnotation, ''web''),
      (containerdContainerNameAnnotation, ''app''), (CheckpointAnnotationNamespace, ''team''),
      (CheckpointAnnotationPod, ''web''), (CheckpointAnnotationName, ''app'')]"

definition ex_ref :: PodContainerRef where
  "ex_ref = \<lparr>refNamespace = ''team'', refPod = ''web'', refContainer = ''app''\<rparr>"

definition ex_archive_env :: ArchiveEnv where
  "ex_archive_env =
     \<lparr>aeOpen = (\<lambda>_. Inr ex_stream), aeTempDir = Inr ''/tmp/d'', aeTempFS = plain_fs [],
      aeSpecJSON = (\<lambda>_. Some ex_annotations), aeConfigJSON = (\<lambda>_. None),
      aeLabelsJSON = (\<lambda>_. None)\<rparr>"

section \<open>Properties\<close>

text \<open>C4: Extraction is confined and bounded. When \<open>UntarFiles\<close> succeeds, each wanted
  file of the destination holds the data of the last entry that matches it exactly, every
  matching entry was a regular file of at most 16 MiB, the archive was read to its end,
  and no other path of the file system changed.\<close>

theorem untar_confined:
  assumes "aeOpen env src = Inr stream"
    and "UntarFiles env src dest files fs = (None, fs')"
    and "IsAbs dest" "Clean dest \<noteq> [slash]" "\<forall>f\<in>set files. proper f"
  shows "\<not> tsNextErr stream \<and>
    (\<forall>f\<in>set files. fs_lookup fs' (entry_of (Clean dest) f) =
       extracted f (tsEntries stream) fs (fs_lookup fs (entry_of (Clean dest) f))) \<and>
    (\<forall>e\<in>set (tsEntries stream). Clean (teName e) \<in> set files \<longrightarrow>
       teTypeflag e = CHR ''0'' \<and> int (length (teData e)) \<le> MaxExtractedFileSize) \<and>
    (\<forall>q. q \<notin> entry_of (Clean dest) ` set files \<longrightarrow> fs_lookup fs' q = fs_lookup fs q)"
proof -
  have "Clean ` set files = set files" using assms(5) by force
  then have "iterate_entries (untar_entry (set files) (Clean dest)) (tsEntries stream)
      (tsNextErr stream) fs = (None, fs')"
    using assms(1,2) by (simp add: UntarFiles_def iterateTarArchive_def)
  from iterate_untar_ok [OF this _ _ assms(4,5)] show ?thesis
    using assms(3) by (simp add: Clean_idem_abs)
qed

theorem untar_confined_witness:
  "fs_lookup (snd (UntarFiles ex_archive_env ''a.tar'' ''/tmp/d'' [SpecDumpFile] (plain_fs [])))
     ''/tmp/d/spec.dump'' = Some (new_file (plain_fs []) ''{}'')"
proof -
  let ?r = "UntarFiles ex_archive_env ''a.tar'' ''/tmp/d'' [SpecDumpFile] (plain_fs [])"
  have open_ok: "aeOpen ex_archive_env ''a.tar'' = Inr ex_stream" by (simp add: ex_archive_env_def)
  have "fst ?r = None" by code_simp
  then have ok: "?r = (None, snd ?r)" by (metis prod.collapse)
  have dest: "IsAbs ''/tmp/d''" "Clean ''/tmp/d'' \<noteq> [slash]" by code_simp+
  have files: "\<forall>f\<in>set [SpecDumpFile]. proper f" by code_simp
  have "entry_of (Clean ''/tmp/d'') SpecDumpFile = ''/tmp/d/spec.dump''" by code_simp
  moreover have "extracted SpecDumpFile (tsEntries ex_stream) (plain_fs []) old =
      Some (new_file (plain_fs []) ''{}'')" for old
  proof -
    have "map teData (matching SpecDumpFile (tsEntries ex_stream)) = [''{}'']" by code_simp
    then show ?thesis by (auto simp: extracted_def)
  qed
  ultimately show ?thesis using untar_confined [OF open_ok ok dest files] by simp
qed



text \<open>C3: The two readers of an archive agree. If the retention side can read the
  identity of an archive, then the CRI proxy's reader returns the same namespace for it.\<close>

theorem readers_agree_on_namespace:
  assumes "ReadPodContainerRef env path = Inr ref"
  shows "ReadPodNamespace env path = Inr (refNamespace ref)"
proof -
  obtain a where a: "extractSpecDump env path = Inr a"
    "podContainerRefFromAnnotations env a = Inr ref"
    using assms by (auto simp: ReadPodContainerRef_def split: sum.splits)
  then obtain cs where cs: "identity_candidates env a = Inr cs" "complete ref"
    "cs \<noteq> []" "\<forall>c\<in>set cs. candRef c = ref"
    by (auto simp: podContainerRefFromAnnotations_def select_candidate_None split: sum.splits)
  then show ?thesis
    by (auto simp: ReadPodNamespace_def a(1) identity_candidates_def direct_namespace_def
        appendCandidateIfPresent_def complete_def Let_def split: if_splits option.splits)
qed

theorem readers_agree_on_namespace_witness:
  "ReadPodContainerRef ex_archive_env ''a.tar'' = Inr ex_ref \<and>
   ReadPodNamespace ex_archive_env ''a.tar'' = Inr ''team''"
proof -
  have r: "ReadPodContainerRef ex_archive_env ''a.tar'' = Inr ex_ref" by code_simp
  have "refNamespace ex_ref = ''team''" by (simp add: ex_ref_def)
  with r readers_agree_on_namespace [OF r] show ?thesis by simp
qed

end
