(* ===== verification/Cri_Proxy.thy ===== *)
theory Cri_Proxy
  imports Api_PodRestore Checkpoint_Archive
begin

text \<open>
  \<^verbatim>\<open>internal/criproxy/proxy.go\<close>: the proxy between the kubelet and the container runtime.
  Every call is forwarded unchanged, except that \<open>CreateContainer\<close> of a container with a
  restore annotation has its image replaced by the checkpoint path after the proxy's own
  checks. The upstream runtime is a function of the world; requests that are only forwarded
  carry an arbitrary payload. A protobuf message that may be nil is an option.
\<close>

section \<open>Definitions\<close>

record Options =
  CheckpointDir :: string
  AllowCrossNamespace :: bool

text \<open>The messages, with the fields the proxy reads or writes; \<open>rest\<close> fields are the others.\<close>

record ImageSpec =
  isImage :: string
  isRest :: smap

record ContainerConfig =
  cfgMetadataName :: "string option"
  cfgImage :: "ImageSpec option"
  cfgRest :: smap

record PodSandboxConfig =
  sbNamespace :: "string option"
  sbAnnotations :: smap

record CreateContainerRequest =
  ccrPodSandboxId :: string
  ccrConfig :: "ContainerConfig option"
  ccrSandboxConfig :: "PodSandboxConfig option"

datatype DenyReason = SandboxWithoutNamespace | NamespaceUnverified ArchiveError | NamespaceMismatch

datatype ProxyError = InvalidArgument PathError | PermissionDenied DenyReason

text \<open>The protobuf getters on a sandbox config that may be nil.\<close>

definition GetAnnotations :: "PodSandboxConfig option \<Rightarrow> smap" where
  "GetAnnotations sb = (case sb of None \<Rightarrow> [] | Some s \<Rightarrow> sbAnnotations s)"

definition GetNamespace :: "PodSandboxConfig option \<Rightarrow> string" where
  "GetNamespace sb =
     (case sb of None \<Rightarrow> [] | Some s \<Rightarrow> (case sbNamespace s of None \<Rightarrow> [] | Some ns \<Rightarrow> ns))"

text \<open>The namespace check (second check of the function).\<close>

definition check_namespace ::
  "ArchiveEnv \<Rightarrow> PodSandboxConfig option \<Rightarrow> string \<Rightarrow> ProxyError option" where
  "check_namespace env sandbox path =
     (let sandboxNS = GetNamespace sandbox
      in if sandboxNS = [] then Some (PermissionDenied SandboxWithoutNamespace)
         else case ReadPodNamespace env path of
           Inl err \<Rightarrow> Some (PermissionDenied (NamespaceUnverified err))
         | Inr archiveNS \<Rightarrow>
             if archiveNS \<noteq> sandboxNS then Some (PermissionDenied NamespaceMismatch) else None)"

definition set_image :: "string \<Rightarrow> ContainerConfig \<Rightarrow> ContainerConfig" where
  "set_image path cfg =
     (let img = (case cfgImage cfg of None \<Rightarrow> \<lparr>isImage = [], isRest = []\<rparr> | Some i \<Rightarrow> i)
      in cfg\<lparr>cfgImage := Some (img\<lparr>isImage := path\<rparr>)\<rparr>)"

text \<open>Returns the error or the path (empty if nothing was rewritten), and the request.\<close>

definition rewriteCreateContainer ::
  "ArchiveEnv \<Rightarrow> Options \<Rightarrow> CreateContainerRequest
     \<Rightarrow> (ProxyError + string) \<times> CreateContainerRequest" where
  "rewriteCreateContainer env opts req =
     (case ccrConfig req of
        None \<Rightarrow> (Inr [], req)
      | Some cfg \<Rightarrow>
          (case cfgMetadataName cfg of
             None \<Rightarrow> (Inr [], req)
           | Some name \<Rightarrow>
               let path = mget (GetAnnotations (ccrSandboxConfig req))
                            (RestoreCheckpointPathAnnotationPrefix @ name)
               in if path = [] then (Inr [], req)
                  else case ValidateCheckpointPathInDir path (CheckpointDir opts) of
                    Some err \<Rightarrow> (Inl (InvalidArgument err), req)
                  | None \<Rightarrow>
                      (case (if AllowCrossNamespace opts then None
                             else check_namespace env (ccrSandboxConfig req) path) of
                         Some err \<Rightarrow> (Inl err, req)
                       | None \<Rightarrow> (Inr path, req\<lparr>ccrConfig := Some (set_image path cfg)\<rparr>))))"

text \<open>The unary methods of the runtime service that only forward.\<close>

datatype ForwardedMethod =
    Version | RunPodSandbox | StopPodSandbox | RemovePodSandbox | PodSandboxStatus
  | ListPodSandbox | StartContainer | StopContainer | RemoveContainer | ListContainers
  | ContainerStatus | UpdateContainerResources | ReopenContainerLog | ExecSync | Exec | Attach
  | PortForward | ContainerStats | ListContainerStats | PodSandboxStats | ListPodSandboxStats
  | UpdateRuntimeConfig | Status | CheckpointContainer | ListMetricDescriptors
  | ListPodSandboxMetrics | RuntimeConfig | UpdatePodSandboxResources

datatype 'm CriRequest = CreateContainer CreateContainerRequest | Forwarded ForwardedMethod 'm

datatype ('e, 'r) CriReply = Refused ProxyError | Upstream "'e + 'r"

fun serve ::
  "ArchiveEnv \<Rightarrow> Options \<Rightarrow> ('m CriRequest \<Rightarrow> 'w \<Rightarrow> ('e + 'r) \<times> 'w) \<Rightarrow> 'm CriRequest \<Rightarrow> 'w
     \<Rightarrow> ('e, 'r) CriReply \<times> 'w" where
  "serve env opts client (CreateContainer req) w =
     (case rewriteCreateContainer env opts req of
        (Inl err, _) \<Rightarrow> (Refused err, w)
      | (Inr _, req') \<Rightarrow> (case client (CreateContainer req') w of (r, w') \<Rightarrow> (Upstream r, w')))"
| "serve env opts client (Forwarded m payload) w =
     (case client (Forwarded m payload) w of (r, w') \<Rightarrow> (Upstream r, w'))"

text \<open>The image service: every unary method only forwards.\<close>

datatype ImageMethod = ListImages | ImageStatus | PullImage | RemoveImage | ImageFsInfo

definition serve_image :: "(ImageMethod \<Rightarrow> 'm \<Rightarrow> 'w \<Rightarrow> ('e + 'r) \<times> 'w) \<Rightarrow> ImageMethod \<Rightarrow> 'm \<Rightarrow> 'w \<Rightarrow> ('e + 'r) \<times> 'w" where
  "serve_image client m payload w = client m payload w"

text \<open>
  The relay loop of the streaming methods: receive from upstream, send to the kubelet,
  until the stream ends or one of the two fails. The stream may be infinite, so the loop
  is a partial function; \<open>None\<close> as its result means that it does not return.
\<close>

datatype ('e, 'i) Received = EOF | RecvError 'e | Item 'i

partial_function (option) relay ::
  "('w \<Rightarrow> ('e, 'i) Received \<times> 'w) \<Rightarrow> ('i \<Rightarrow> 'w \<Rightarrow> 'e option \<times> 'w) \<Rightarrow> 'w
     \<Rightarrow> ('e option \<times> 'w) option" where
  "relay recv send w =
     (case recv w of
        (EOF, w') \<Rightarrow> Some (None, w')
      | (RecvError err, w') \<Rightarrow> Some (Some err, w')
      | (Item item, w') \<Rightarrow>
          (case send item w' of
             (Some err, w'') \<Rightarrow> Some (Some err, w'')
           | (None, w'') \<Rightarrow> relay recv send w''))"

text \<open>A streaming method: opening the upstream stream may fail.\<close>

definition stream_method ::
  "('w \<Rightarrow> ('e + ('w \<Rightarrow> ('e, 'i) Received \<times> 'w)) \<times> 'w) \<Rightarrow> ('i \<Rightarrow> 'w \<Rightarrow> 'e option \<times> 'w) \<Rightarrow> 'w
     \<Rightarrow> ('e option \<times> 'w) option" where
  "stream_method connect send w =
     (case connect w of
        (Inl err, w') \<Rightarrow> Some (Some err, w')
      | (Inr recv, w') \<Rightarrow> relay recv send w')"

text \<open>
  The streaming methods of both services. The proxy has no method of its own for the last three; the
  embedded \<open>UnimplementedRuntimeServiceServer\<close> answers them.
\<close>

datatype StreamMethod =
    StreamContainers | StreamContainerStats | GetContainerEvents | StreamImages
  | StreamPodSandboxes | StreamPodSandboxStats | StreamPodSandboxMetrics

datatype 'e StreamError = Unimplemented | StreamFailed 'e

fun not_relayed :: "StreamMethod \<Rightarrow> bool" where
  "not_relayed StreamPodSandboxes = True"
| "not_relayed StreamPodSandboxStats = True"
| "not_relayed StreamPodSandboxMetrics = True"
| "not_relayed _ = False"

definition serve_stream ::
  "StreamMethod \<Rightarrow> ('w \<Rightarrow> ('e + ('w \<Rightarrow> ('e, 'i) Received \<times> 'w)) \<times> 'w) \<Rightarrow> ('i \<Rightarrow> 'w \<Rightarrow> 'e option \<times> 'w) \<Rightarrow> 'w
     \<Rightarrow> ('e StreamError option \<times> 'w) option" where
  "serve_stream m connect send w =
     (if not_relayed m then Some (Some Unimplemented, w)
      else map_option (\<lambda>(r, w'). (map_option StreamFailed r, w')) (stream_method connect send w))"

section \<open>Lemmas\<close>

lemma check_namespace_None:
  "check_namespace env sb path = None \<longleftrightarrow>
     GetNamespace sb \<noteq> [] \<and> ReadPodNamespace env path = Inr (GetNamespace sb)"
  by (auto simp: check_namespace_def Let_def split: sum.splits)

text \<open>What the annotation of the container being created says, if it says anything.\<close>

definition restore_request :: "CreateContainerRequest \<Rightarrow> (ContainerConfig \<times> string) option" where
  "restore_request req =
     (case ccrConfig req of
        None \<Rightarrow> None
      | Some cfg \<Rightarrow>
          (case cfgMetadataName cfg of
             None \<Rightarrow> None
           | Some name \<Rightarrow>
               let path = mget (GetAnnotations (ccrSandboxConfig req))
                            (RestoreCheckpointPathAnnotationPrefix @ name)
               in if path = [] then None else Some (cfg, path)))"

text \<open>The contract of the gate: a path directly inside the directory, and the namespace.\<close>

definition gate_ok :: "ArchiveEnv \<Rightarrow> Options \<Rightarrow> CreateContainerRequest \<Rightarrow> string \<Rightarrow> bool" where
  "gate_ok env opts req path \<longleftrightarrow>
     (\<exists>f. slash \<notin> set f \<and> Ext f = ''.tar'' \<and>
        path = entry_of (effective_dir (CheckpointDir opts)) f) \<and>
     (AllowCrossNamespace opts \<or>
      GetNamespace (ccrSandboxConfig req) \<noteq> [] \<and>
      ReadPodNamespace env path = Inr (GetNamespace (ccrSandboxConfig req)))"

lemma rewrite_cases:
  "rewriteCreateContainer env opts req =
     (case restore_request req of
        None \<Rightarrow> (Inr [], req)
      | Some (cfg, path) \<Rightarrow>
          (case ValidateCheckpointPathInDir path (CheckpointDir opts) of
             Some err \<Rightarrow> (Inl (InvalidArgument err), req)
           | None \<Rightarrow>
               (case (if AllowCrossNamespace opts then None
                      else check_namespace env (ccrSandboxConfig req) path) of
                  Some err \<Rightarrow> (Inl err, req)
                | None \<Rightarrow> (Inr path, req\<lparr>ccrConfig := Some (set_image path cfg)\<rparr>))))"
  by (simp add: rewriteCreateContainer_def restore_request_def Let_def split: option.split)

lemma restore_request_nonempty: "restore_request req = Some (cfg, path) \<Longrightarrow> path \<noteq> []"
  by (auto simp: restore_request_def Let_def split: option.splits if_splits)

lemma rewrite_accepts:
  assumes "restore_request req = Some (cfg, path)" "rewriteCreateContainer env opts req = (Inr r, req')"
  shows "gate_ok env opts req path \<and> r = path \<and>
    req' = req\<lparr>ccrConfig := Some (set_image path cfg)\<rparr>"
  using assms
  by (auto simp: rewrite_cases gate_ok_def ValidateCheckpointPathInDir_iff check_namespace_None
      split: option.splits if_splits)

lemma gate_accepts:
  assumes "restore_request req = Some (cfg, path)" "IsAbs (effective_dir (CheckpointDir opts))"
    "gate_ok env opts req path"
  shows "rewriteCreateContainer env opts req =
    (Inr path, req\<lparr>ccrConfig := Some (set_image path cfg)\<rparr>)"
proof -
  have "ValidateCheckpointPathInDir path (CheckpointDir opts) = None"
    using assms(2,3) unfolding ValidateCheckpointPathInDir_iff gate_ok_def by blast
  moreover have "(if AllowCrossNamespace opts then None
      else check_namespace env (ccrSandboxConfig req) path) = None"
    using assms(3) unfolding gate_ok_def by (auto simp: check_namespace_None)
  ultimately show ?thesis using assms(1) by (simp add: rewrite_cases)
qed

subsection \<open>The relay\<close>

text \<open>
  A finite upstream: the world is the items still to come and the state of the receiver;
  the stream ends with \<open>fin\<close>, an error or (\<open>None\<close>) its regular end.
\<close>

fun list_recv :: "'e option \<Rightarrow> 'i list \<times> 'v \<Rightarrow> ('e, 'i) Received \<times> ('i list \<times> 'v)" where
  "list_recv fin ([], v) = ((case fin of None \<Rightarrow> EOF | Some e \<Rightarrow> RecvError e), ([], v))"
| "list_recv fin (x # xs, v) = (Item x, (xs, v))"

definition to_receiver ::
  "('i \<Rightarrow> 'v \<Rightarrow> 'e option \<times> 'v) \<Rightarrow> 'i \<Rightarrow> 'i list \<times> 'v \<Rightarrow> 'e option \<times> ('i list \<times> 'v)" where
  "to_receiver send x w = (case send x (snd w) of (r, v) \<Rightarrow> (r, (fst w, v)))"

text \<open>What a receiver is handed of a finite stream, and how the call ends.\<close>

fun deliver :: "('i \<Rightarrow> 'v \<Rightarrow> 'e option \<times> 'v) \<Rightarrow> 'e option \<Rightarrow> 'i list \<Rightarrow> 'v \<Rightarrow> 'e option \<times> ('i list \<times> 'v)" where
  "deliver send fin [] v = (fin, ([], v))"
| "deliver send fin (x # xs) v = (case send x v of (Some e, v') \<Rightarrow> (Some e, (xs, v')) | (None, v') \<Rightarrow> deliver send fin xs v')"

lemma relay_delivers: "relay (list_recv fin) (to_receiver send) (xs, v) = Some (deliver send fin xs v)"
proof (induction xs arbitrary: v)
  case Nil
  show ?case by (simp add: relay.simps split: option.split)
next
  case (Cons x xs)
  show ?case by (subst relay.simps) (simp add: to_receiver_def Cons.IH split: prod.split option.split)
qed

text \<open>A receiver that accepts everything is handed everything, in order.\<close>

lemma deliver_all: "deliver (\<lambda>x sent. (None, sent @ [x])) fin xs sent = (fin, ([], sent @ xs))"
  by (induction xs arbitrary: sent) simp_all

text \<open>One turn of the loop on any stream: \<open>Some\<close> result ends it.\<close>

definition turn ::
  "('w \<Rightarrow> ('e, 'i) Received \<times> 'w) \<Rightarrow> ('i \<Rightarrow> 'w \<Rightarrow> 'e option \<times> 'w) \<Rightarrow> 'w \<Rightarrow> 'e option option \<times> 'w" where
  "turn recv send w =
     (case recv w of
        (EOF, w') \<Rightarrow> (Some None, w')
      | (RecvError err, w') \<Rightarrow> (Some (Some err), w')
      | (Item item, w') \<Rightarrow> (case send item w' of (Some err, w'') \<Rightarrow> (Some (Some err), w'') | (None, w'') \<Rightarrow> (None, w'')))"

primrec turns :: "('w \<Rightarrow> 'e option option \<times> 'w) \<Rightarrow> nat \<Rightarrow> 'w \<Rightarrow> 'w" where
  "turns t 0 w = w"
| "turns t (Suc k) w = turns t k (snd (t w))"

definition ends_after :: "('w \<Rightarrow> 'e option option \<times> 'w) \<Rightarrow> nat \<Rightarrow> 'w \<Rightarrow> 'e option \<times> 'w \<Rightarrow> bool" where
  "ends_after t k w res \<longleftrightarrow>
     list_all (\<lambda>j. fst (t (turns t j w)) = None) [0..<k] \<and> t (turns t k w) = (Some (fst res), snd res)"

lemma relay_turn:
  "relay recv send w = (case turn recv send w of (Some r, w') \<Rightarrow> Some (r, w') | (None, w') \<Rightarrow> relay recv send w')"
  by (subst relay.simps) (simp add: turn_def split: prod.split Received.split option.split)

lemma ends_after_Suc: "fst (t w) = None \<Longrightarrow> ends_after t (Suc k) w res \<longleftrightarrow> ends_after t k (snd (t w)) res"
proof -
  assume n: "fst (t w) = None"
  have l: "[0..<Suc k] = 0 # map Suc [0..<k]" by (simp add: upt_conv_Cons map_Suc_upt del: upt_Suc)
  show ?thesis unfolding ends_after_def l using n by (simp add: list.pred_map comp_def del: map_Suc_upt)
qed

lemma ends_after_now: "fst (t w) \<noteq> None \<Longrightarrow> ends_after t k w res \<longleftrightarrow> k = 0 \<and> t w = (Some (fst res), snd res)"
  by (cases k) (auto simp: ends_after_def list_all_iff intro!: bexI [of _ 0])

lemma relay_if: "ends_after (turn recv send) k w res \<Longrightarrow> relay recv send w = Some res"
proof (induction k arbitrary: w)
  case 0
  then show ?case by (subst relay_turn) (simp add: ends_after_def)
next
  case (Suc k)
  then have n: "fst (turn recv send w) = None" using ends_after_now [of "turn recv send" w "Suc k" res] by blast
  then have "relay recv send (snd (turn recv send w)) = Some res" using Suc ends_after_Suc by metis
  then show ?case using n by (subst relay_turn) (cases "turn recv send w", simp)
qed

lemma relay_only_if:
  assumes "relay recv send w = Some res"
  shows "\<exists>k. ends_after (turn recv send) k w res"
proof (rule relay.raw_induct [OF _ assms, where P = "\<lambda>recv send w res. \<exists>k. ends_after (turn recv send) k w res"], goal_cases)
  case (1 rel recv send w res)
  obtain r w' where t: "turn recv send w = (r, w')" by fastforce
  show ?case
  proof (cases r)
    case None
    then have "rel recv send w' = Some res" using 1(2) t
      by (auto simp: turn_def split: prod.splits Received.splits option.splits)
    then obtain k where "ends_after (turn recv send) k w' res" using 1(1) by blast
    then show ?thesis using ends_after_Suc [of "turn recv send" w k res] t None by (intro exI [of _ "Suc k"]) simp
  next
    case (Some e)
    then have "res = (e, w')" using 1(2) t by (auto simp: turn_def split: prod.splits Received.splits option.splits)
    then show ?thesis using t Some by (intro exI [of _ 0]) (simp add: ends_after_def)
  qed
qed

lemma relay_returns_iff: "relay recv send w = Some res \<longleftrightarrow> (\<exists>k. ends_after (turn recv send) k w res)"
  by (rule iffI) (auto intro: relay_if dest: relay_only_if)

subsection \<open>An example request\<close>

definition ex_config :: ContainerConfig where
  "ex_config = \<lparr>cfgMetadataName = Some ''app'', cfgImage = None, cfgRest = []\<rparr>"

definition ex_create :: CreateContainerRequest where
  "ex_create =
     \<lparr>ccrPodSandboxId = ''s1'', ccrConfig = Some ex_config,
      ccrSandboxConfig =
        Some \<lparr>sbNamespace = Some ''team'',
              sbAnnotations = [(''restore.criu.org/checkpoint-path.app'',
                                ''/var/lib/kubelet/checkpoints/c.tar'')]\<rparr>\<rparr>"

section \<open>Properties\<close>

text \<open>C1: The restore gate is fail-closed. Whatever the annotation says, the upstream
  runtime is called for \<open>CreateContainer\<close> only with the request as it came, when it asks
  for no restore, or with the image replaced by a path that is a \<open>.tar\<close> directly inside
  the checkpoint directory and, unless cross-namespace restores are allowed, whose archive
  records the sandbox's own non-empty namespace. Otherwise the runtime is not called.\<close>

theorem restore_gate_fail_closed:
  fixes w :: 'w
  shows "(\<exists>err. serve env opts client (CreateContainer req) w = (Refused err, w)) \<or>
    (\<exists>req'. serve env opts client (CreateContainer req) w =
         (Upstream (fst (client (CreateContainer req') w)), snd (client (CreateContainer req') w)) \<and>
       (restore_request req = None \<and> req' = req \<or>
        (\<exists>cfg path. restore_request req = Some (cfg, path) \<and> gate_ok env opts req path \<and>
           req' = req\<lparr>ccrConfig := Some (set_image path cfg)\<rparr>)))"
proof (cases "rewriteCreateContainer env opts req")
  case (Pair r req')
  show ?thesis
  proof (cases r)
    case (Inl err)
    with Pair show ?thesis by simp
  next
    case (Inr p)
    have "restore_request req = None \<and> req' = req \<or>
        (\<exists>cfg path. restore_request req = Some (cfg, path) \<and> gate_ok env opts req path \<and>
           req' = req\<lparr>ccrConfig := Some (set_image path cfg)\<rparr>)"
    proof (cases "restore_request req")
      case None
      then show ?thesis using Pair Inr by (simp add: rewrite_cases)
    next
      case (Some cp)
      obtain cfg path where cp: "restore_request req = Some (cfg, path)"
        using Some by (cases cp) simp
      with rewrite_accepts [OF cp Pair [unfolded Inr]] show ?thesis by simp
    qed
    with Pair Inr show ?thesis by (auto split: prod.split)
  qed
qed

text \<open>C2: The gate refuses nothing that meets its contract. With an absolute checkpoint
  directory, a restore whose path and namespace meet the contract is rewritten to that
  path, and nothing but the image of the container changes in the request.\<close>

theorem restore_gate_complete:
  assumes "restore_request req = Some (cfg, path)"
    and "IsAbs (effective_dir (CheckpointDir opts))" and "gate_ok env opts req path"
  shows "rewriteCreateContainer env opts req =
      (Inr path, req\<lparr>ccrConfig := Some (set_image path cfg)\<rparr>) \<and>
    map_option isImage (cfgImage (set_image path cfg)) = Some path \<and>
    cfgMetadataName (set_image path cfg) = cfgMetadataName cfg \<and>
    cfgRest (set_image path cfg) = cfgRest cfg"
  using gate_accepts [OF assms] by (simp add: set_image_def Let_def)

theorem restore_gate_complete_witness:
  "\<exists>cfg. rewriteCreateContainer ex_archive_env \<lparr>CheckpointDir = [], AllowCrossNamespace = False\<rparr> ex_create =
     (Inr ''/var/lib/kubelet/checkpoints/c.tar'', ex_create\<lparr>ccrConfig := Some cfg\<rparr>)"
proof -
  let ?opts = "\<lparr>CheckpointDir = [], AllowCrossNamespace = False\<rparr>"
  let ?path = "''/var/lib/kubelet/checkpoints/c.tar''"
  have r: "restore_request ex_create = Some (ex_config, ?path)" by code_simp
  have a: "IsAbs (effective_dir (CheckpointDir ?opts))" by code_simp
  have "?path = entry_of (effective_dir (CheckpointDir ?opts)) ''c.tar''" by code_simp
  moreover have "slash \<notin> set ''c.tar''" "Ext ''c.tar'' = ''.tar''" by code_simp+
  moreover have "GetNamespace (ccrSandboxConfig ex_create) = ''team''" by code_simp
  moreover have "ReadPodNamespace ex_archive_env ?path = Inr ''team''" by code_simp
  ultimately have "gate_ok ex_archive_env ?opts ex_create ?path"
    unfolding gate_ok_def by (intro conjI exI [of _ "''c.tar''"] disjI2) simp_all
  from restore_gate_complete [OF r a this] show ?thesis by blast
qed


end
