(* ===== verification/Commands.thy ===== *)
theory Commands
  imports Cri_Proxy
begin

text \<open>
  The two programs: \<^verbatim>\<open>cmd/cri-proxy/main.go\<close>, from its flags to the socket it serves the kubelet on,
  with the hand-over of a socket by systemd, and \<^verbatim>\<open>cmd/main.go\<close>, the set-up of the manager.

  The calls to the operating system, to gRPC and to the manager are events of a log; how each ends is
  a function of the calls before it. Logging is left out, and what the health server does besides
  answering \<^verbatim>\<open>/readyz\<close>.
\<close>

section \<open>Definitions\<close>

subsection \<open>strconv.Atoi\<close>

definition is_digit :: "char \<Rightarrow> bool" where
  "is_digit c \<longleftrightarrow> 48 \<le> (of_char c :: nat) \<and> (of_char c :: nat) \<le> 57"

fun digits_value :: "string \<Rightarrow> int \<Rightarrow> int option" where
  "digits_value [] n = Some n"
| "digits_value (c # s) n = (if is_digit c then digits_value s (10 * n + (int (of_char c) - 48)) else None)"

definition Atoi :: "string \<Rightarrow> int option" where
  "Atoi s =
     (let (neg, ds) = (case s of c # t \<Rightarrow> if c = CHR ''-'' then (True, t) else if c = CHR ''+'' then (False, t) else (False, s)
                               | [] \<Rightarrow> (False, []))
      in if ds = [] then None
         else case digits_value ds 0 of
           None \<Rightarrow> None
         | Some n \<Rightarrow> (let m = (if neg then - n else n) in if - (2 ^ 63) \<le> m \<and> m < 2 ^ 63 then Some m else None))"

subsection \<open>The CRI proxy (cmd/cri-proxy/main.go)\<close>

definition systemdFirstListenFD :: int where "systemdFirstListenFD = 3"

datatype Call =
    NewClient string | Version duration | Unsetenv string | NewFile int | FileListener | CloseFile
  | MkdirAll string int | Remove string | Listen string | Chmod string int | CloseListener | Serve Options | CloseConn
  | ListenHealth string | ShutdownHealth | GracefulStop

datatype StartError =
    ActivationIncomplete | BadListenPID | BadListenFDs | NegativeListenFDs int | WrongSocketCount int
  | NoSystemdFile | BadSystemdFile | SocketDirectory | StaleSocket | ListenFailed | SocketPermissions

text \<open>How a call ends, given the calls before it; \<open>None\<close> is a nil error.\<close>

type_synonym System = "Call list \<Rightarrow> Call \<Rightarrow> OsError option"

definition call :: "System \<Rightarrow> Call \<Rightarrow> Call list \<Rightarrow> OsError option \<times> Call list" where
  "call os c log = (os log c, log @ [c])"

definition checkUpstream :: "System \<Rightarrow> duration \<Rightarrow> Call list \<Rightarrow> OsError option \<times> Call list" where
  "checkUpstream os timeout log = call os (Version timeout) log"

text \<open>The status and the body of \<^verbatim>\<open>/readyz\<close>.\<close>

definition readyzHandler :: "System \<Rightarrow> (OsError \<Rightarrow> string) \<Rightarrow> duration \<Rightarrow> Call list \<Rightarrow> (int \<times> string) \<times> Call list" where
  "readyzHandler os text timeout log =
     (case checkUpstream os timeout log of
        (Some err, log1) \<Rightarrow> ((503, text err @ [CHR 0x0A]), log1)
      | (None, log1) \<Rightarrow> ((200, ''ok'' @ [CHR 0x0A]), log1))"

text \<open>The number of sockets, whether this process was activated, and the error.\<close>

definition systemdActivationFDCount :: "int \<Rightarrow> string \<Rightarrow> string \<Rightarrow> int \<times> bool \<times> StartError option" where
  "systemdActivationFDCount currentPID listenPID listenFDs =
     (if listenPID = [] \<and> listenFDs = [] then (0, False, None)
      else if listenPID = [] \<or> listenFDs = [] then (0, True, Some ActivationIncomplete)
      else case Atoi listenPID of
        None \<Rightarrow> (0, True, Some BadListenPID)
      | Some pid \<Rightarrow>
          if pid \<noteq> currentPID then (0, False, None)
          else case Atoi listenFDs of
            None \<Rightarrow> (0, True, Some BadListenFDs)
          | Some fds \<Rightarrow> if fds < 0 then (0, True, Some (NegativeListenFDs fds)) else (fds, True, None))"

definition unsetSystemdActivationEnv :: "System \<Rightarrow> Call list \<Rightarrow> Call list" where
  "unsetSystemdActivationEnv os log =
     (let log1 = snd (call os (Unsetenv ''LISTEN_PID'') log);
          log2 = snd (call os (Unsetenv ''LISTEN_FDS'') log1)
      in snd (call os (Unsetenv ''LISTEN_FDNAMES'') log2))"

datatype Listener = SystemdSocket | UnixSocket string

definition inheritedSystemdListener ::
  "System \<Rightarrow> int \<Rightarrow> smap \<Rightarrow> Call list \<Rightarrow> (Listener option \<times> bool \<times> StartError option) \<times> Call list" where
  "inheritedSystemdListener os pid environ log =
     (case systemdActivationFDCount pid (mget environ ''LISTEN_PID'') (mget environ ''LISTEN_FDS'') of
        (fds, activated, err) \<Rightarrow>
          if \<not> activated \<or> err \<noteq> None then ((None, activated, err), log)
          else
            (let log1 = unsetSystemdActivationEnv os log
             in if fds \<noteq> 1 then ((None, True, Some (WrongSocketCount fds)), log1)
                else case call os (NewFile systemdFirstListenFD) log1 of
                  (Some e, log2) \<Rightarrow> ((None, True, Some NoSystemdFile), log2)
                | (None, log2) \<Rightarrow>
                    (case call os FileListener log2 of
                       (Some e, log3) \<Rightarrow> ((None, True, Some BadSystemdFile), snd (call os CloseFile log3))
                     | (None, log3) \<Rightarrow> ((Some SystemdSocket, True, None), snd (call os CloseFile log3)))))"

definition listenForKubelet ::
  "System \<Rightarrow> int \<Rightarrow> smap \<Rightarrow> string \<Rightarrow> Call list \<Rightarrow> (Listener option \<times> bool \<times> StartError option) \<times> Call list" where
  "listenForKubelet os pid environ listen log =
     (case inheritedSystemdListener os pid environ log of
        ((lis, inherited, err), log1) \<Rightarrow>
          if inherited \<or> err \<noteq> None then ((lis, inherited, err), log1)
          else case call os (MkdirAll (Dir listen) 448) log1 of
            (Some e, log2) \<Rightarrow> ((None, False, Some SocketDirectory), log2)
          | (None, log2) \<Rightarrow>
              (case call os (Remove listen) log2 of
                 (rerr, log3) \<Rightarrow>
                   if rerr \<noteq> None \<and> rerr \<noteq> Some ErrNotExist then ((None, False, Some StaleSocket), log3)
                   else case call os (Listen listen) log3 of
                     (Some e, log4) \<Rightarrow> ((None, False, Some ListenFailed), log4)
                   | (None, log4) \<Rightarrow>
                       (case call os (Chmod listen 384) log4 of
                          (Some e, log5) \<Rightarrow>
                            ((None, False, Some SocketPermissions),
                             snd (call os (Remove listen) (snd (call os CloseListener log5))))
                        | (None, log5) \<Rightarrow> ((Some (UnixSocket listen), False, None), log5))))"

record ProxyFlags =
  pfUpstream :: string
  pfListen :: string
  pfCheckpointDir :: string
  pfAllowCrossNamespace :: bool
  pfUpstreamTimeout :: duration
  pfHealthAddr :: string
  pfHealthTimeout :: duration

definition default_proxy_flags :: ProxyFlags where
  "default_proxy_flags =
     \<lparr>pfUpstream = ''/run/containerd/containerd.sock'', pfListen = ''/run/cr-restore-proxy/cri-proxy.sock'',
      pfCheckpointDir = DefaultCheckpointDir, pfAllowCrossNamespace = False, pfUpstreamTimeout = 10 * second,
      pfHealthAddr = '':8080'', pfHealthTimeout = 2 * second\<rparr>"

definition proxy_options :: "ProxyFlags \<Rightarrow> Options" where
  "proxy_options flags = \<lparr>CheckpointDir = pfCheckpointDir flags, AllowCrossNamespace = pfAllowCrossNamespace flags\<rparr>"

text \<open>
  The health server runs in a goroutine of its own; how it fares is only logged. A termination signal
  stops it and then the gRPC server, which lets \<open>Serve\<close> return.
\<close>

definition start_health :: "System \<Rightarrow> ProxyFlags \<Rightarrow> Call list \<Rightarrow> Call list" where
  "start_health os flags log = (if pfHealthAddr flags \<noteq> [] then snd (call os (ListenHealth (pfHealthAddr flags)) log) else log)"

definition shut_down :: "System \<Rightarrow> ProxyFlags \<Rightarrow> Call list \<Rightarrow> Call list" where
  "shut_down os flags log =
     (let log1 = (if pfHealthAddr flags \<noteq> [] then snd (call os ShutdownHealth log) else log)
      in snd (call os GracefulStop log1))"

text \<open>
  The exit status; \<open>signal\<close> tells whether a signal arrives while the proxy serves. \<^verbatim>\<open>os.Exit\<close> does not run the
  deferred close of the connection.
\<close>

definition cri_proxy_main :: "System \<Rightarrow> int \<Rightarrow> smap \<Rightarrow> ProxyFlags \<Rightarrow> bool \<Rightarrow> Call list \<Rightarrow> int \<times> Call list" where
  "cri_proxy_main os pid environ flags signal log =
     (case call os (NewClient (''unix:'' @ pfUpstream flags)) log of
        (Some err, log1) \<Rightarrow> (1, log1)
      | (None, log1) \<Rightarrow>
          (case checkUpstream os (pfUpstreamTimeout flags) log1 of
             (Some err, log2) \<Rightarrow> (1, log2)
           | (None, log2) \<Rightarrow>
               (case listenForKubelet os pid environ (pfListen flags) log2 of
                  ((lis, inheritedSocket, err), log3) \<Rightarrow>
                    if err \<noteq> None then (1, log3)
                    else case call os (Serve (proxy_options flags)) (start_health os flags log3) of
                      (serveErr, log4) \<Rightarrow>
                        (let log5 = (if signal then shut_down os flags log4 else log4);
                             log6 = (if \<not> inheritedSocket then snd (call os (Remove (pfListen flags)) log5) else log5)
                         in if serveErr \<noteq> None then (1, log6) else (0, snd (call os CloseConn log6))))))"

section \<open>Socket activation\<close>

text \<open>The decimal numeral of a number, as systemd writes it into the environment.\<close>

fun decimal :: "nat \<Rightarrow> string" where
  "decimal n = (if n < 10 then [char_of (48 + n)] else decimal (n div 10) @ [char_of (48 + n mod 10)])"

declare decimal.simps [simp del]

lemma digits_value_append: "digits_value (s @ t) n = (case digits_value s n of None \<Rightarrow> None | Some m \<Rightarrow> digits_value t m)"
  by (induction s arbitrary: n) auto

lemma digit_char: "d < 10 \<Longrightarrow> is_digit (char_of (48 + d)) \<and> int (of_char (char_of (48 + d) :: char)) = 48 + int d"
  by (simp add: is_digit_def)

lemma digits_value_decimal: "digits_value (decimal n) 0 = Some (int n)"
proof (induction n rule: decimal.induct)
  case (1 n)
  show ?case
  proof (cases "n < 10")
    case True
    then show ?thesis using digit_char [OF True] by (simp add: decimal.simps)
  next
    case False
    have "int n = 10 * int (n div 10) + int (n mod 10)" by presburger
    then show ?thesis using 1 False digit_char [of "n mod 10"]
      by (simp add: decimal.simps [of n] digits_value_append)
  qed
qed

lemma decimal_hd: "\<exists>c t. decimal n = c # t \<and> is_digit c"
proof (induction n rule: decimal.induct)
  case (1 n)
  then show ?case using digit_char [of n] by (cases "n < 10") (auto simp: decimal.simps [of n])
qed

lemma Atoi_decimal: "n < 2 ^ 63 \<Longrightarrow> Atoi (decimal n) = Some (int n)"
proof -
  assume "n < 2 ^ 63"
  then have "int n < 2 ^ 63" by simp
  moreover obtain c t where "decimal n = c # t" "is_digit c" using decimal_hd by blast
  moreover have "c \<noteq> CHR ''-''" "c \<noteq> CHR ''+''" using calculation(3) by (auto simp: is_digit_def)
  ultimately show ?thesis using digits_value_decimal [of n] by (simp add: Atoi_def Let_def)
qed

text \<open>A process that systemd started with \<open>n\<close> sockets sees that; another process with its environment does not.\<close>

lemma activation_recognised:
  assumes "p < 2 ^ 63" "n < 2 ^ 63"
  shows "systemdActivationFDCount (int p) (decimal p) (decimal n) = (int n, True, None)"
    "q \<noteq> int p \<Longrightarrow> systemdActivationFDCount q (decimal p) (decimal n) = (0, False, None)"
  using decimal_hd [of p] decimal_hd [of n] Atoi_decimal [OF assms(1)] Atoi_decimal [OF assms(2)]
  by (auto simp: systemdActivationFDCount_def)

section \<open>Serving\<close>

text \<open>The calls of a start, up to the listener.\<close>

definition activation_calls :: "Call list" where
  "activation_calls = [Unsetenv ''LISTEN_PID'', Unsetenv ''LISTEN_FDS'', Unsetenv ''LISTEN_FDNAMES'',
     NewFile systemdFirstListenFD, FileListener, CloseFile]"

definition socket_calls :: "string \<Rightarrow> Call list" where
  "socket_calls listen = [MkdirAll (Dir listen) 448, Remove listen, Listen listen, Chmod listen 384]"

lemma inherited_cases:
  assumes "inheritedSystemdListener os pid environ log = ((lis, inherited, None), log')"
  shows "if inherited then lis = Some SystemdSocket \<and> log' = log @ activation_calls \<and>
      systemdActivationFDCount pid (mget environ ''LISTEN_PID'') (mget environ ''LISTEN_FDS'') = (1, True, None)
    else log' = log \<and> fst (snd (systemdActivationFDCount pid (mget environ ''LISTEN_PID'') (mget environ ''LISTEN_FDS''))) = False"
  using assms
  by (auto simp: inheritedSystemdListener_def unsetSystemdActivationEnv_def call_def activation_calls_def Let_def
      split: prod.splits if_splits option.splits)

lemma listen_cases:
  assumes "listenForKubelet os pid environ listen log = ((lis, inherited, None), log')"
  shows "if inherited then lis = Some SystemdSocket \<and> log' = log @ activation_calls \<and>
      systemdActivationFDCount pid (mget environ ''LISTEN_PID'') (mget environ ''LISTEN_FDS'') = (1, True, None)
    else lis = Some (UnixSocket listen) \<and> log' = log @ socket_calls listen \<and>
      os (log @ take 2 (socket_calls listen)) (Listen listen) = None \<and>
      os (log @ take 3 (socket_calls listen)) (Chmod listen 384) = None \<and>
      fst (snd (systemdActivationFDCount pid (mget environ ''LISTEN_PID'') (mget environ ''LISTEN_FDS''))) = False"
proof -
  obtain l i e log1 where h: "inheritedSystemdListener os pid environ log = ((l, i, e), log1)" by (metis prod_cases3 surj_pair)
  show ?thesis
  proof (cases "i \<or> e \<noteq> None")
    case True
    then have "e = None" "i" "lis = l" "inherited" "log' = log1" using assms h by (auto simp: listenForKubelet_def)
    then show ?thesis using inherited_cases [of os pid environ log lis True log1] h by simp
  next
    case False
    then have "log1 = log" "fst (snd (systemdActivationFDCount pid (mget environ ''LISTEN_PID'') (mget environ ''LISTEN_FDS''))) = False"
      using inherited_cases [of os pid environ log l False log1] h by simp_all
    then show ?thesis using assms h False
      by (auto simp: listenForKubelet_def call_def socket_calls_def split: option.splits if_splits)
  qed
qed

text \<open>A start that fails leaves no socket of its own open that others may use.\<close>

lemma failed_socket_closed:
  assumes "listenForKubelet os pid environ listen log = ((lis, inherited, Some SocketPermissions), log')"
  shows "lis = None \<and> suffix [Chmod listen 384, CloseListener, Remove listen] log'"
  using assms
  by (auto simp: listenForKubelet_def inheritedSystemdListener_def systemdActivationFDCount_def call_def Let_def suffix_def
      split: prod.splits if_splits option.splits)

text \<open>C39: The proxy serves the kubelet only after the runtime answered its version check. With exactly one
  socket handed over by systemd to this very process it serves that one, having cleared the activation
  variables, and never touches the path of a socket. Otherwise it serves a socket of its own, on which
  nothing but its owner has permissions: created in a directory that only the owner may enter, after
  removing a stale one, with its mode set before the first call is served, and removed at the end. The
  checkpoint directory and the namespace switch it serves with are those of its flags. How
  the health server fares changes nothing. The exit status tells whether serving ended without an error.
\<close>

theorem proxy_serves_private_socket:
  assumes "cri_proxy_main os pid environ flags signal [] = (status, log)" "Serve opts \<in> set log"
  shows "os [NewClient (''unix:'' @ pfUpstream flags)] (Version (pfUpstreamTimeout flags)) = None \<and>
    (let start = [NewClient (''unix:'' @ pfUpstream flags), Version (pfUpstreamTimeout flags)];
         activated = [Unsetenv ''LISTEN_PID'', Unsetenv ''LISTEN_FDS'', Unsetenv ''LISTEN_FDNAMES'', NewFile 3, FileListener, CloseFile];
         socket = [MkdirAll (Dir (pfListen flags)) 448, Remove (pfListen flags), Listen (pfListen flags), Chmod (pfListen flags) 384];
         health = (if pfHealthAddr flags = [] then [] else [ListenHealth (pfHealthAddr flags)]);
         serve = Serve (proxy_options flags) # (if signal then (if health = [] then [] else [ShutdownHealth]) @ [GracefulStop] else []);
         close = (if status = 0 then [CloseConn] else [])
     in (systemdActivationFDCount pid (mget environ ''LISTEN_PID'') (mget environ ''LISTEN_FDS'') = (1, True, None) \<and>
           log = start @ activated @ health @ serve @ close \<and>
           (status = 0 \<longleftrightarrow> os (start @ activated @ health) (Serve (proxy_options flags)) = None)) \<or>
        (fst (snd (systemdActivationFDCount pid (mget environ ''LISTEN_PID'') (mget environ ''LISTEN_FDS''))) = False \<and>
           log = start @ socket @ health @ serve @ [Remove (pfListen flags)] @ close \<and>
           os (start @ take 3 socket) (Chmod (pfListen flags) 384) = None \<and>
           (status = 0 \<longleftrightarrow> os (start @ socket @ health) (Serve (proxy_options flags)) = None)))"
proof -
  let ?start = "[NewClient (''unix:'' @ pfUpstream flags), Version (pfUpstreamTimeout flags)]"
  have up: "os [] (NewClient (''unix:'' @ pfUpstream flags)) = None"
    "os [NewClient (''unix:'' @ pfUpstream flags)] (Version (pfUpstreamTimeout flags)) = None"
    using assms by (auto simp: cri_proxy_main_def checkUpstream_def call_def split: option.splits)
  obtain lis inherited err log3 where l: "listenForKubelet os pid environ (pfListen flags) ?start = ((lis, inherited, err), log3)"
    by (metis prod_cases3 surj_pair)
  have "err = None"
  proof (rule ccontr)
    assume "err \<noteq> None"
    then have "log = log3" using assms(1) up l by (auto simp: cri_proxy_main_def checkUpstream_def call_def split: option.splits)
    moreover have "Serve opts \<notin> set log3" using l
      by (auto simp: listenForKubelet_def inheritedSystemdListener_def unsetSystemdActivationEnv_def systemdActivationFDCount_def call_def Let_def
          split: prod.splits if_splits option.splits)
    ultimately show False using assms(2) by simp
  qed
  then have "if inherited then log3 = ?start @ activation_calls \<and>
      systemdActivationFDCount pid (mget environ ''LISTEN_PID'') (mget environ ''LISTEN_FDS'') = (1, True, None)
    else log3 = ?start @ socket_calls (pfListen flags) \<and>
      os (?start @ take 3 (socket_calls (pfListen flags))) (Chmod (pfListen flags) 384) = None \<and>
      fst (snd (systemdActivationFDCount pid (mget environ ''LISTEN_PID'') (mget environ ''LISTEN_FDS''))) = False"
    using listen_cases [of os pid environ "pfListen flags" ?start lis inherited log3] l by (auto split: if_splits)
  then show ?thesis using assms(1) up l \<open>err = None\<close>
    by (cases inherited) (auto simp: cri_proxy_main_def checkUpstream_def call_def socket_calls_def activation_calls_def
        systemdFirstListenFD_def start_health_def shut_down_def Let_def split: if_splits)
qed

definition calm :: System where "calm log c = (if c = Remove ''/run/cr-restore-proxy/cri-proxy.sock'' then Some ErrNotExist else None)"

theorem proxy_serves_private_socket_witness:
  "cri_proxy_main calm 7 [] default_proxy_flags True [] =
     (0, [NewClient ''unix:/run/containerd/containerd.sock'', Version (10 * second), MkdirAll ''/run/cr-restore-proxy'' 448,
        Remove ''/run/cr-restore-proxy/cri-proxy.sock'', Listen ''/run/cr-restore-proxy/cri-proxy.sock'',
        Chmod ''/run/cr-restore-proxy/cri-proxy.sock'' 384, ListenHealth '':8080'',
        Serve \<lparr>CheckpointDir = ''/var/lib/kubelet/checkpoints'', AllowCrossNamespace = False\<rparr>, ShutdownHealth, GracefulStop, Remove ''/run/cr-restore-proxy/cri-proxy.sock'', CloseConn]) \<and>
   calm [NewClient (''unix:'' @ pfUpstream default_proxy_flags)] (Version (pfUpstreamTimeout default_proxy_flags)) = None"
proof -
  have r: "cri_proxy_main calm 7 [] default_proxy_flags True [] =
     (0, [NewClient ''unix:/run/containerd/containerd.sock'', Version (10 * second), MkdirAll ''/run/cr-restore-proxy'' 448,
        Remove ''/run/cr-restore-proxy/cri-proxy.sock'', Listen ''/run/cr-restore-proxy/cri-proxy.sock'',
        Chmod ''/run/cr-restore-proxy/cri-proxy.sock'' 384, ListenHealth '':8080'',
        Serve \<lparr>CheckpointDir = ''/var/lib/kubelet/checkpoints'', AllowCrossNamespace = False\<rparr>, ShutdownHealth, GracefulStop, Remove ''/run/cr-restore-proxy/cri-proxy.sock'', CloseConn])"
    by code_simp
  have "Serve \<lparr>CheckpointDir = ''/var/lib/kubelet/checkpoints'', AllowCrossNamespace = False\<rparr> \<in> set (snd (cri_proxy_main calm 7 [] default_proxy_flags True []))" unfolding r by simp
  then show ?thesis using proxy_serves_private_socket [OF r, THEN conjunct1] r by (intro conjI) simp_all
qed

section \<open>The manager (cmd/main.go)\<close>

record ManagerFlags =
  mfMetricsAddr :: string
  mfSecureMetrics :: bool
  mfEnableHTTP2 :: bool
  mfRestoreCheckpointDir :: string
  mfRestoreAllowCrossNamespace :: bool
  mfProbeAddr :: string
  mfEnableLeaderElection :: bool

record MetricsOptions =
  moBindAddress :: string
  moSecureServing :: bool
  moNextProtos :: "string list option"
  moAuthenticated :: bool

datatype SetupStep =
    NewManager MetricsOptions string bool | NewClientset | SetupRetention | SetupSchedules | SetupForensics | SetupRestores string bool
  | AddHealthz | AddReadyz | StartManager

text \<open>\<open>None\<close> leaves the protocols of the TLS configuration as they are.\<close>

definition metrics_options :: "ManagerFlags \<Rightarrow> MetricsOptions" where
  "metrics_options flags =
     \<lparr>moBindAddress = mfMetricsAddr flags, moSecureServing = mfSecureMetrics flags,
      moNextProtos = (if \<not> mfEnableHTTP2 flags then Some [''http/1.1''] else None),
      moAuthenticated = mfSecureMetrics flags\<rparr>"

definition setup_steps :: "ManagerFlags \<Rightarrow> SetupStep list" where
  "setup_steps flags =
     [NewManager (metrics_options flags) (mfProbeAddr flags) (mfEnableLeaderElection flags), NewClientset, SetupRetention, SetupSchedules, SetupForensics,
      SetupRestores (mfRestoreCheckpointDir flags) (mfRestoreAllowCrossNamespace flags), AddHealthz, AddReadyz, StartManager]"

text \<open>Each step ends the program with status 1 if it fails.\<close>

fun run_steps :: "(SetupStep \<Rightarrow> OsError option) \<Rightarrow> SetupStep list \<Rightarrow> int \<times> SetupStep list" where
  "run_steps os [] = (0, [])"
| "run_steps os (s # ss) =
     (if os s \<noteq> None then (1, [s]) else case run_steps os ss of (status, done) \<Rightarrow> (status, s # done))"

definition manager_main :: "(SetupStep \<Rightarrow> OsError option) \<Rightarrow> ManagerFlags \<Rightarrow> int \<times> SetupStep list" where
  "manager_main os flags = run_steps os (setup_steps flags)"

lemma run_steps_last: "run_steps os (ss @ [s]) = (status, done) \<Longrightarrow> s \<notin> set ss \<Longrightarrow>
    s \<in> set done \<longleftrightarrow> (\<forall>x \<in> set ss. os x = None)"
  by (induction ss arbitrary: status "done") (auto split: if_splits prod.splits)

text \<open>The manager is started only with every controller and both health checks set up.\<close>

lemma manager_starts_complete:
  "StartManager \<in> set (snd (manager_main os flags)) \<longleftrightarrow> (\<forall>x \<in> set (butlast (setup_steps flags)). os x = None)"
proof -
  have s: "setup_steps flags = butlast (setup_steps flags) @ [StartManager]" by (simp add: setup_steps_def)
  have n: "StartManager \<notin> set (butlast (setup_steps flags))" by (simp add: setup_steps_def)
  show ?thesis unfolding manager_main_def
    using run_steps_last [of os "butlast (setup_steps flags)" StartManager] s n by (metis prod.collapse)
qed

end
