(* ===== verification/Checkpoint_Creator.thy ===== *)
theory Checkpoint_Creator
  imports Kube_Objects
begin

text \<open>
  \<^verbatim>\<open>internal/controller/checkpoint_creator.go\<close>: the request to the kubelet's checkpoint
  endpoint with its classification of failures and its retries, and the table of locks that
  keeps two checkpoints of one container from running at the same time.

  The HTTP client, the JSON decoder and the clock are parameters (\<open>KubeletClient\<close>). The lock
  table is a step relation over any number of threads; a lock is an address, and \<open>lock\<close> and
  the function it returns are split where other threads can run in between.
\<close>

section \<open>Definitions\<close>

subsection \<open>Decimal numbers\<close>

definition digit_char :: "nat \<Rightarrow> char" where
  "digit_char d = char_of (48 + d)"

fun dec_nat :: "nat \<Rightarrow> string" where
  "dec_nat n = (if n < 10 then [digit_char n] else dec_nat (n div 10) @ [digit_char (n mod 10)])"

declare dec_nat.simps [simp del]

definition Itoa :: "int \<Rightarrow> string" where
  "Itoa i = (if i < 0 then CHR ''-'' # dec_nat (nat (- i)) else dec_nat (nat i))"

subsection \<open>Errors\<close>

datatype CheckpointError =
  HTTPError string int string
| TransportError string
| ClientError string
| DecodeError string string
| NoItems
| ContextError string

fun error_text :: "CheckpointError \<Rightarrow> string" where
  "error_text (HTTPError target statusCode body) =
     (if TrimSpace body = [] then
        ''checkpoint failed for '' @ target @ '': status '' @ Itoa statusCode
      else ''checkpoint failed for '' @ target @ '': status '' @ Itoa statusCode @ '': '' @ TrimSpace body)"
| "error_text (TransportError msg) = msg"
| "error_text (ClientError msg) = msg"
| "error_text (DecodeError target msg) =
     ''failed to decode checkpoint response for '' @ target @ '': '' @ msg"
| "error_text NoItems = ''checkpoint response contained no items''"
| "error_text (ContextError msg) = msg"

definition isTransientCheckpointErrorText :: "string \<Rightarrow> bool" where
  "isTransientCheckpointErrorText text \<longleftrightarrow>
     Contains text ''cannot pause a paused container'' \<or>
     Contains text ''ctrd-checkpoint/status: no such file or directory''"

definition isTransientCheckpointError :: "CheckpointError \<Rightarrow> bool" where
  "isTransientCheckpointError err =
     (case err of
        HTTPError target statusCode body \<Rightarrow>
          statusCode \<ge> 500 \<and> isTransientCheckpointErrorText body
      | _ \<Rightarrow> isTransientCheckpointErrorText (error_text err))"

subsection \<open>Requests\<close>

record HttpResponse =
  StatusCode :: int
  Body :: string

text \<open>
  \<open>kcNew\<close> is \<open>rest.HTTPClientFor\<close>, \<open>kcPost\<close> builds and sends the bounded POST request,
  \<open>kcDecode\<close> decodes the \<open>items\<close> of a response and \<open>kcSelect\<close> is the \<open>select\<close> between the
  end of the context and a new timer.
\<close>

datatype Woken = ContextDone string | TimerFired

record 'w KubeletClient =
  kcNew :: "string option"
  kcPost :: "string \<Rightarrow> 'w \<Rightarrow> (string + HttpResponse) \<times> 'w"
  kcDecode :: "string \<Rightarrow> string + string list"
  kcSelect :: "duration \<Rightarrow> 'w \<Rightarrow> Woken \<times> 'w"

definition maxCheckpointAttempts :: nat where "maxCheckpointAttempts = 3"
definition maxCheckpointErrorBodyBytes :: int where "maxCheckpointErrorBodyBytes = 4096"
definition checkpointRetryDelay :: duration where "checkpointRetryDelay = second"

definition checkpointTargetKey :: "string \<Rightarrow> string \<Rightarrow> string \<Rightarrow> string \<Rightarrow> string" where
  "checkpointTargetKey node ns pod container =
     node @ ''/'' @ ns @ ''/'' @ pod @ ''/'' @ container"

text \<open>What one request comes to, from what the HTTP client returned.\<close>

definition interpret_response ::
  "(string \<Rightarrow> string + string list) \<Rightarrow> string \<Rightarrow> string + HttpResponse \<Rightarrow> CheckpointError + string" where
  "interpret_response decode target raw =
     (case raw of
        Inl err \<Rightarrow> Inl (TransportError err)
      | Inr resp \<Rightarrow>
          if StatusCode resp \<noteq> 200 then
            Inl (HTTPError target (StatusCode resp) (LimitReader (Body resp) maxCheckpointErrorBodyBytes))
          else (case decode (Body resp) of
                  Inl err \<Rightarrow> Inl (DecodeError target err)
                | Inr items \<Rightarrow> if length items = 0 then Inl NoItems else Inr (items ! 0)))"

definition createCheckpointOnce ::
  "'w KubeletClient \<Rightarrow> string \<Rightarrow> string \<Rightarrow> 'w \<Rightarrow> (CheckpointError + string) \<times> 'w" where
  "createCheckpointOnce http url target w =
     (case kcPost http url w of (raw, w1) \<Rightarrow> (interpret_response (kcDecode http) target raw, w1))"

definition sleepWithContext :: "'w KubeletClient \<Rightarrow> duration \<Rightarrow> 'w \<Rightarrow> string option \<times> 'w" where
  "sleepWithContext http delay w =
     (case kcSelect http delay w of
        (ContextDone err, w1) \<Rightarrow> (Some err, w1)
      | (TimerFired, w1) \<Rightarrow> (None, w1))"

text \<open>The attempt loop; \<open>n\<close> attempts are left after the current one.\<close>

primrec checkpoint_attempts ::
  "'w KubeletClient \<Rightarrow> string \<Rightarrow> string \<Rightarrow> nat \<Rightarrow> 'w \<Rightarrow> (CheckpointError + string) \<times> 'w" where
  "checkpoint_attempts http url target 0 w = createCheckpointOnce http url target w"
| "checkpoint_attempts http url target (Suc n) w =
     (case createCheckpointOnce http url target w of
        (Inr path, w1) \<Rightarrow> (Inr path, w1)
      | (Inl err, w1) \<Rightarrow>
          if \<not> isTransientCheckpointError err then (Inl err, w1)
          else case sleepWithContext http checkpointRetryDelay w1 of
            (Some msg, w2) \<Rightarrow> (Inl (ContextError msg), w2)
          | (None, w2) \<Rightarrow> checkpoint_attempts http url target n w2)"

text \<open>\<open>createCheckpoint\<close> while it holds the lock of its target.\<close>

definition checkpoint_url :: "string \<Rightarrow> string \<Rightarrow> string \<Rightarrow> string \<Rightarrow> string \<Rightarrow> string" where
  "checkpoint_url host ns pod container node =
     host @ ''/api/v1/nodes/'' @ node @ ''/proxy/checkpoint/'' @ ns @ ''/'' @ pod @ ''/'' @ container"

definition createCheckpoint ::
  "'w KubeletClient \<Rightarrow> string \<Rightarrow> string \<Rightarrow> string \<Rightarrow> string \<Rightarrow> string \<Rightarrow> 'w \<Rightarrow>
     (CheckpointError + string) \<times> 'w" where
  "createCheckpoint http host ns pod container node w =
     (let url = checkpoint_url host ns pod container node;
          target = checkpointTargetKey node ns pod container
      in case kcNew http of
           Some err \<Rightarrow> (Inl (ClientError err), w)
         | None \<Rightarrow> checkpoint_attempts http url target (maxCheckpointAttempts - 1) w)"

subsection \<open>The lock table\<close>

text \<open>
  A thread is idle, or it has registered for the lock at an address, holds it, or has
  unlocked it and not yet given up its reference.
\<close>

datatype LockPhase = Idle | Waiting string nat | Holding string nat | Unlocked string nat

record LockTable =
  ltLocks :: "string \<Rightarrow> nat option"
  ltRefs :: "nat \<Rightarrow> int"
  ltHolder :: "nat \<Rightarrow> nat option"
  ltNext :: nat
  ltThreads :: "nat \<Rightarrow> LockPhase"

definition newCheckpointTargetLockTable :: LockTable where
  "newCheckpointTargetLockTable =
     \<lparr>ltLocks = (\<lambda>_. None), ltRefs = (\<lambda>_. 0), ltHolder = (\<lambda>_. None), ltNext = 0, ltThreads = (\<lambda>_. Idle)\<rparr>"

text \<open>\<open>lock\<close> up to the wait: find or make the lock of the target and count a reference.\<close>

definition lt_register :: "nat \<Rightarrow> string \<Rightarrow> LockTable \<Rightarrow> LockTable" where
  "lt_register i target t =
     (case ltLocks t target of
        Some l \<Rightarrow>
          t\<lparr>ltRefs := (ltRefs t)(l := ltRefs t l + 1), ltThreads := (ltThreads t)(i := Waiting target l)\<rparr>
      | None \<Rightarrow>
          (let l = ltNext t
           in t\<lparr>ltLocks := (ltLocks t)(target \<mapsto> l), ltRefs := (ltRefs t)(l := 1),
                ltHolder := (ltHolder t)(l := None), ltNext := l + 1,
                ltThreads := (ltThreads t)(i := Waiting target l)\<rparr>))"

text \<open>The returned function after the unlock: drop the reference, and the entry with the last one.\<close>

definition lt_release :: "nat \<Rightarrow> string \<Rightarrow> nat \<Rightarrow> LockTable \<Rightarrow> LockTable" where
  "lt_release i target l t =
     (let refs = ltRefs t l - 1
      in t\<lparr>ltRefs := (ltRefs t)(l := refs),
           ltLocks := (if refs = 0 then (ltLocks t)(target := None) else ltLocks t),
           ltThreads := (ltThreads t)(i := Idle)\<rparr>)"

inductive lock_step :: "LockTable \<Rightarrow> LockTable \<Rightarrow> bool" where
  register: "ltThreads t i = Idle \<Longrightarrow> lock_step t (lt_register i target t)"
| acquire: "ltThreads t i = Waiting target l \<Longrightarrow> ltHolder t l = None \<Longrightarrow>
    lock_step t (t\<lparr>ltHolder := (ltHolder t)(l \<mapsto> i), ltThreads := (ltThreads t)(i := Holding target l)\<rparr>)"
| unlock: "ltThreads t i = Holding target l \<Longrightarrow>
    lock_step t (t\<lparr>ltHolder := (ltHolder t)(l := None), ltThreads := (ltThreads t)(i := Unlocked target l)\<rparr>)"
| release: "ltThreads t i = Unlocked target l \<Longrightarrow> lock_step t (lt_release i target l t)"

inductive lock_reachable :: "LockTable \<Rightarrow> bool" where
  initial: "lock_reachable newCheckpointTargetLockTable"
| step: "lock_reachable t \<Longrightarrow> lock_step t t' \<Longrightarrow> lock_reachable t'"

section \<open>Lemmas\<close>

subsection \<open>The attempts\<close>

text \<open>A client that records what the HTTP client returned for each request.\<close>

definition traced ::
  "'w KubeletClient \<Rightarrow> ('w \<times> (string \<times> (string + HttpResponse)) list) KubeletClient" where
  "traced http =
     \<lparr>kcNew = kcNew http,
      kcPost = (\<lambda>url (w, tr). case kcPost http url w of (raw, w1) \<Rightarrow> (raw, (w1, tr @ [(url, raw)]))),
      kcDecode = kcDecode http,
      kcSelect = (\<lambda>d (w, tr). case kcSelect http d w of (e, w1) \<Rightarrow> (e, (w1, tr)))\<rparr>"

lemma sleep_traced:
  "sleepWithContext (traced http) d (w, tr)
     = (fst (sleepWithContext http d w), (snd (sleepWithContext http d w), tr))"
  by (simp add: sleepWithContext_def traced_def split: prod.split Woken.split)

definition transient_outcome :: "CheckpointError + string \<Rightarrow> bool" where
  "transient_outcome r = (case r of Inl err \<Rightarrow> isTransientCheckpointError err | Inr _ \<Rightarrow> False)"

text \<open>
  How a run of attempts relates to the outcomes of its requests: all but the last were
  transient failures, and the answer is the outcome of the last, unless the wait after it was
  interrupted.
\<close>

definition attempts_ok :: "nat \<Rightarrow> (CheckpointError + string) list \<Rightarrow> CheckpointError + string \<Rightarrow> bool" where
  "attempts_ok n outs r \<longleftrightarrow>
     outs \<noteq> [] \<and> length outs \<le> n + 1 \<and> (\<forall>x\<in>set (butlast outs). transient_outcome x) \<and>
     (if transient_outcome (last outs) \<and> length outs \<le> n then \<exists>msg. r = Inl (ContextError msg)
      else r = last outs)"

lemma attempts_traced:
  "\<exists>outs. snd (snd (checkpoint_attempts (traced http) url target n (w, tr)))
       = tr @ map (\<lambda>raw. (url, raw)) outs \<and>
     attempts_ok n (map (interpret_response (kcDecode http) target) outs)
       (fst (checkpoint_attempts http url target n w)) \<and>
     fst (checkpoint_attempts (traced http) url target n (w, tr)) = fst (checkpoint_attempts http url target n w)"
proof (induction n arbitrary: w tr)
  case 0
  obtain raw w1 where p: "kcPost http url w = (raw, w1)" by fastforce
  then show ?case
    by (intro exI [of _ "[raw]"]) (simp add: attempts_ok_def createCheckpointOnce_def traced_def)
next
  case (Suc n)
  obtain raw w1 where p: "kcPost http url w = (raw, w1)" by fastforce
  obtain s w2 where s: "sleepWithContext http checkpointRetryDelay w1 = (s, w2)" by fastforce
  have p': "kcPost (traced http) url (w, tr) = (raw, (w1, tr @ [(url, raw)]))"
    "kcDecode (traced http) = kcDecode http"
    using p by (simp_all add: traced_def)
  let ?o = "interpret_response (kcDecode http) target raw"
  show ?case
  proof (cases "transient_outcome ?o \<and> s = None")
    case True
    then obtain e where e: "?o = Inl e" "isTransientCheckpointError e"
      by (auto simp: transient_outcome_def split: sum.splits)
    obtain outs where o: "snd (snd (checkpoint_attempts (traced http) url target n (w2, tr @ [(url, raw)])))
         = (tr @ [(url, raw)]) @ map (\<lambda>raw. (url, raw)) outs"
      "attempts_ok n (map (interpret_response (kcDecode http) target) outs)
         (fst (checkpoint_attempts http url target n w2))"
      "fst (checkpoint_attempts (traced http) url target n (w2, tr @ [(url, raw)]))
         = fst (checkpoint_attempts http url target n w2)"
      using Suc.IH [of w2 "tr @ [(url, raw)]"] by blast
    show ?thesis
      by (rule exI [of _ "raw # outs"])
        (use o e True p p' s in \<open>auto simp: createCheckpointOnce_def sleep_traced attempts_ok_def\<close>)
  next
    case False
    then show ?thesis using p p' s
      by (intro exI [of _ "[raw]"])
        (auto simp: createCheckpointOnce_def sleep_traced attempts_ok_def transient_outcome_def
          split: sum.splits option.splits)
  qed
qed

subsection \<open>The lock table\<close>

fun lock_of :: "LockPhase \<Rightarrow> (string \<times> nat) option" where
  "lock_of Idle = None"
| "lock_of (Waiting target l) = Some (target, l)"
| "lock_of (Holding target l) = Some (target, l)"
| "lock_of (Unlocked target l) = Some (target, l)"

definition users :: "LockTable \<Rightarrow> string \<Rightarrow> nat \<Rightarrow> nat set" where
  "users t target l = {i. lock_of (ltThreads t i) = Some (target, l)}"

text \<open>
  Threads refer only to current locks, a lock counts its threads and belongs to one target,
  and its holder is the thread in the critical section.
\<close>

definition lock_inv :: "LockTable \<Rightarrow> bool" where
  "lock_inv t \<longleftrightarrow>
     finite {i. ltThreads t i \<noteq> Idle} \<and>
     (\<forall>i target l. lock_of (ltThreads t i) = Some (target, l) \<longrightarrow> ltLocks t target = Some l) \<and>
     (\<forall>target l. ltLocks t target = Some l \<longrightarrow>
        l < ltNext t \<and> ltRefs t l = int (card (users t target l)) \<and> ltRefs t l > 0) \<and>
     (\<forall>target target' l. ltLocks t target = Some l \<longrightarrow> ltLocks t target' = Some l \<longrightarrow> target = target') \<and>
     (\<forall>i l. ltHolder t l = Some i \<longleftrightarrow> (\<exists>target. ltThreads t i = Holding target l))"

lemma lock_of_iff:
  "lock_of p = None \<longleftrightarrow> p = Idle"
  "lock_of p = Some (target, l) \<longleftrightarrow> p \<in> {Waiting target l, Holding target l, Unlocked target l}"
  by (cases p; auto)+

lemma lock_invD:
  assumes "lock_inv t"
  shows "finite (users t target l)"
    "lock_of (ltThreads t i) = Some (target, l) \<Longrightarrow> ltLocks t target = Some l"
    "ltLocks t target = Some l \<Longrightarrow> l < ltNext t"
    "ltLocks t target = Some l \<Longrightarrow> ltRefs t l = int (card (users t target l))"
    "ltLocks t target = Some l \<Longrightarrow> users t target l \<noteq> {}"
    "ltLocks t target = Some l \<Longrightarrow> ltLocks t target' = Some l \<Longrightarrow> target = target'"
    "ltHolder t l = Some i \<longleftrightarrow> (\<exists>target. ltThreads t i = Holding target l)"
proof -
  have "finite {i. ltThreads t i \<noteq> Idle}" using assms by (simp add: lock_inv_def)
  then show "finite (users t target l)"
    by (rule rev_finite_subset) (auto simp: users_def)
  show "ltLocks t target = Some l \<Longrightarrow> users t target l \<noteq> {}"
    using assms unfolding lock_inv_def by (metis card.empty less_irrefl of_nat_0)
qed (use assms in \<open>simp_all add: lock_inv_def\<close>)

text \<open>The invariant from its parts, for a state given by its fields.\<close>

lemma lock_invI:
  assumes "finite {i. ltThreads t i \<noteq> Idle}"
    "\<And>i target l. lock_of (ltThreads t i) = Some (target, l) \<Longrightarrow> ltLocks t target = Some l"
    "\<And>target l. ltLocks t target = Some l \<Longrightarrow> l < ltNext t"
    "\<And>target l. ltLocks t target = Some l \<Longrightarrow> ltRefs t l = int (card (users t target l))"
    "\<And>target l. ltLocks t target = Some l \<Longrightarrow> users t target l \<noteq> {}"
    "\<And>target target' l. ltLocks t target = Some l \<Longrightarrow> ltLocks t target' = Some l \<Longrightarrow> target = target'"
    "\<And>i l. ltHolder t l = Some i \<longleftrightarrow> (\<exists>target. ltThreads t i = Holding target l)"
  shows "lock_inv t"
proof -
  have "ltRefs t l > 0" if "ltLocks t target = Some l" for target l
  proof -
    have "finite (users t target l)"
      by (rule finite_subset [OF _ assms(1)]) (auto simp: users_def)
    then show ?thesis using assms(4,5) [OF that] by (simp add: card_gt_0_iff)
  qed
  then show ?thesis unfolding lock_inv_def using assms by blast
qed

lemma finite_active:
  "finite {j. f j \<noteq> Idle} \<Longrightarrow> finite {j. (f(i := p)) j \<noteq> Idle}"
  by (rule finite_subset [of _ "insert i {j. f j \<noteq> Idle}"]) auto

lemma active_finite: "lock_inv t \<Longrightarrow> finite {j. ltThreads t j \<noteq> Idle}"
  by (simp add: lock_inv_def)

lemma register_old_inv:
  assumes inv: "lock_inv t" and i: "ltThreads t i = Idle" and l: "ltLocks t target = Some l"
  shows "lock_inv (lt_register i target t)"
proof -
  define t' where "t' = lt_register i target t"
  have f: "ltLocks t' = ltLocks t" "ltHolder t' = ltHolder t" "ltNext t' = ltNext t"
    "ltThreads t' = (ltThreads t)(i := Waiting target l)" "ltRefs t' = (ltRefs t)(l := ltRefs t l + 1)"
    using l by (simp_all add: t'_def lt_register_def)
  have u: "users t' tg k = (if tg = target \<and> k = l then insert i (users t tg k) else users t tg k)" for tg k
    using i by (auto simp: users_def f)
  have ni: "i \<notin> users t target l" using i by (simp add: users_def)
  have "lock_inv t'"
  proof (rule lock_invI)
    show "finite {j. ltThreads t' j \<noteq> Idle}" unfolding f by (rule finite_active [OF active_finite [OF inv]])
    show "ltLocks t' tg = Some k" if "lock_of (ltThreads t' j) = Some (tg, k)" for j tg k
      using that l lock_invD(2) [OF inv, of j tg k] by (cases "j = i") (simp_all add: f)
    show "ltRefs t' k = int (card (users t' tg k))" if "ltLocks t' tg = Some k" for tg k
    proof (cases "k = l")
      case True
      then have "tg = target" using that l lock_invD(6) [OF inv] by (simp add: f)
      then show ?thesis using True lock_invD(4) [OF inv l] lock_invD(1) [OF inv] ni by (simp add: u f)
    next
      case False
      then show ?thesis using that lock_invD(4) [OF inv, of tg k] by (simp add: u f)
    qed
    show "ltHolder t' k = Some j \<longleftrightarrow> (\<exists>tg. ltThreads t' j = Holding tg k)" for j k
      using lock_invD(7) [OF inv, of k j] i by (cases "j = i") (simp_all add: f)
  qed (use lock_invD(3,5,6) [OF inv] in \<open>simp_all add: u f\<close>)
  then show ?thesis by (simp add: t'_def)
qed

lemma register_new_inv:
  assumes inv: "lock_inv t" and i: "ltThreads t i = Idle" and l: "ltLocks t target = None"
  shows "lock_inv (lt_register i target t)"
proof -
  define t' where "t' = lt_register i target t"
  have f: "ltLocks t' = (ltLocks t)(target \<mapsto> ltNext t)" "ltHolder t' = (ltHolder t)(ltNext t := None)"
    "ltNext t' = ltNext t + 1" "ltThreads t' = (ltThreads t)(i := Waiting target (ltNext t))"
    "ltRefs t' = (ltRefs t)(ltNext t := 1)"
    using l by (simp_all add: t'_def lt_register_def Let_def)
  have old: "tg \<noteq> target \<and> k < ltNext t" if "lock_of (ltThreads t j) = Some (tg, k)" for j tg k
    using lock_invD(2,3) [OF inv] that l by fastforce
  have u: "users t' tg k = (if tg = target \<and> k = ltNext t then {i} else users t tg k)" for tg k
    using i old by (auto simp: users_def f)
  have "lock_inv t'"
  proof (rule lock_invI)
    show "finite {j. ltThreads t' j \<noteq> Idle}" unfolding f by (rule finite_active [OF active_finite [OF inv]])
    show "ltLocks t' tg = Some k" if "lock_of (ltThreads t' j) = Some (tg, k)" for j tg k
      using that old [of j tg k] lock_invD(2) [OF inv, of j tg k] by (cases "j = i") (simp_all add: f)
    fix tg k assume a: "ltLocks t' tg = Some k"
    consider "tg = target" "k = ltNext t" | "tg \<noteq> target" "ltLocks t tg = Some k" "k < ltNext t"
      using a lock_invD(3) [OF inv] by (cases "tg = target") (auto simp: f)
    then have "k < ltNext t' \<and> ltRefs t' k = int (card (users t' tg k)) \<and> users t' tg k \<noteq> {}"
    proof cases
      case 2
      then show ?thesis using lock_invD(4,5) [OF inv 2(2)] by (simp add: u f)
    qed (simp add: u f)
    then show "k < ltNext t'" "ltRefs t' k = int (card (users t' tg k))" "users t' tg k \<noteq> {}" by auto
    show "tg = tg'" if "ltLocks t' tg' = Some k" for tg'
      using a that lock_invD(3,6) [OF inv] by (cases "tg = target"; cases "tg' = target") (fastforce simp: f)+
  next
    show "ltHolder t' k = Some j \<longleftrightarrow> (\<exists>tg. ltThreads t' j = Holding tg k)" for j k
    proof -
      have "\<nexists>tg. ltThreads t j = Holding tg (ltNext t)" using old [of j] by fastforce
      then show ?thesis using lock_invD(7) [OF inv, of k j] i by (cases "j = i"; cases "k = ltNext t") (auto simp: f)
    qed
  qed
  then show ?thesis by (simp add: t'_def)
qed

text \<open>A thread that moves on with its lock changes the holder of that lock only.\<close>

lemma move_inv:
  assumes inv: "lock_inv t" and p: "lock_of p = Some (target, l)" "lock_of (ltThreads t i) = Some (target, l)"
    and h: "\<And>k. k \<noteq> l \<Longrightarrow> h k = ltHolder t k"
      "\<And>j. h l = Some j \<longleftrightarrow> (\<exists>tg. ((ltThreads t)(i := p)) j = Holding tg l)"
  shows "lock_inv (t\<lparr>ltHolder := h, ltThreads := (ltThreads t)(i := p)\<rparr>)"
proof -
  define t' where "t' = t\<lparr>ltHolder := h, ltThreads := (ltThreads t)(i := p)\<rparr>"
  have f: "ltLocks t' = ltLocks t" "ltHolder t' = h" "ltNext t' = ltNext t"
    "ltThreads t' = (ltThreads t)(i := p)" "ltRefs t' = ltRefs t"
    by (simp_all add: t'_def)
  have u: "users t' = users t" using p by (auto simp: users_def f fun_eq_iff)
  have "lock_inv t'"
  proof (rule lock_invI)
    show "finite {j. ltThreads t' j \<noteq> Idle}" unfolding f by (rule finite_active [OF active_finite [OF inv]])
    show "ltLocks t' tg = Some k" if "lock_of (ltThreads t' j) = Some (tg, k)" for j tg k
      using that p lock_invD(2) [OF inv] by (cases "j = i") (simp_all add: f)
    show "ltHolder t' k = Some j \<longleftrightarrow> (\<exists>tg. ltThreads t' j = Holding tg k)" for j k
    proof (cases "k = l \<or> j \<noteq> i")
      case True
      then show ?thesis using h lock_invD(7) [OF inv, of k j] by (cases "k = l") (auto simp: f)
    next
      case False
      have "\<nexists>tg. p = Holding tg k" "\<nexists>tg. ltThreads t i = Holding tg k" using p False by auto
      then show ?thesis using False h(1) [of k] lock_invD(7) [OF inv, of k j] by (simp add: f)
    qed
  qed (use lock_invD(3,4,5,6) [OF inv] in \<open>simp_all add: u f\<close>)
  then show ?thesis by (simp add: t'_def)
qed

text \<open>The entry is dropped exactly by the last user.\<close>

lemma release_fields:
  assumes inv: "lock_inv t" and i: "ltThreads t i = Unlocked target l"
  shows "ltRefs t l - 1 = int (card (users t target l - {i}))"
    "ltLocks (lt_release i target l t)
       = (if users t target l = {i} then (ltLocks t)(target := None) else ltLocks t)"
proof -
  have l: "ltLocks t target = Some l" using lock_invD(2) [OF inv, of i target l] i by simp
  have iu: "i \<in> users t target l" using i by (simp add: users_def)
  show refs: "ltRefs t l - 1 = int (card (users t target l - {i}))"
    using lock_invD(4) [OF inv l] card_Suc_Diff1 [OF lock_invD(1) [OF inv] iu] by simp
  have "finite (users t target l - {i})" using lock_invD(1) [OF inv] by simp
  then have "ltRefs t l - 1 = 0 \<longleftrightarrow> users t target l - {i} = {}"
    unfolding refs of_nat_eq_0_iff by (rule card_0_eq)
  moreover have "users t target l - {i} = {} \<longleftrightarrow> users t target l = {i}" using iu by blast
  ultimately have "ltRefs t l - 1 = 0 \<longleftrightarrow> users t target l = {i}" by blast
  then show "ltLocks (lt_release i target l t)
      = (if users t target l = {i} then (ltLocks t)(target := None) else ltLocks t)"
    by (simp add: lt_release_def)
qed

lemma release_inv:
  assumes inv: "lock_inv t" and i: "ltThreads t i = Unlocked target l"
  shows "lock_inv (lt_release i target l t)"
proof -
  define t' where "t' = lt_release i target l t"
  have l: "ltLocks t target = Some l" using lock_invD(2) [OF inv, of i target l] i by simp
  have iu: "i \<in> users t target l" using i by (simp add: users_def)
  note refs = release_fields(1) [OF inv i]
  have f: "ltHolder t' = ltHolder t" "ltNext t' = ltNext t" "ltThreads t' = (ltThreads t)(i := Idle)"
    "ltRefs t' = (ltRefs t)(l := ltRefs t l - 1)"
    "ltLocks t' = (if users t target l = {i} then (ltLocks t)(target := None) else ltLocks t)"
    using release_fields(2) [OF inv i] by (simp_all add: t'_def lt_release_def)
  have u: "users t' tg k = (if tg = target \<and> k = l then users t tg k - {i} else users t tg k)" for tg k
    using i by (auto simp: users_def f)
  have k: "ltLocks t tg = Some k" if "ltLocks t' tg = Some k" for tg k
    using that by (auto simp: f split: if_splits)
  have "lock_inv t'"
  proof (rule lock_invI)
    show "finite {j. ltThreads t' j \<noteq> Idle}" unfolding f by (rule finite_active [OF active_finite [OF inv]])
    show "ltLocks t' tg = Some k" if a: "lock_of (ltThreads t' j) = Some (tg, k)" for j tg k
    proof -
      have j: "j \<noteq> i" "lock_of (ltThreads t j) = Some (tg, k)" using a by (cases "j = i"; simp add: f)+
      then have "ltLocks t tg = Some k" using lock_invD(2) [OF inv] by blast
      moreover have "tg \<noteq> target" if "users t target l = {i}"
      proof
        assume "tg = target"
        then have "j \<in> users t target l" using j calculation l by (simp add: users_def)
        with that j(1) show False by simp
      qed
      ultimately show ?thesis by (auto simp: f)
    qed
    fix tg k assume a: "ltLocks t' tg = Some k"
    note b = k [OF a]
    have "ltRefs t' k = int (card (users t' tg k)) \<and> users t' tg k \<noteq> {}"
    proof (cases "k = l")
      case True
      then have "tg = target" "users t target l \<noteq> {i}"
        using lock_invD(6) [OF inv b] l a by (auto simp: f split: if_splits)
      then show ?thesis using True refs iu by (auto simp: u f)
    next
      case False
      then show ?thesis using lock_invD(4,5) [OF inv b] by (simp add: u f)
    qed
    then show "ltRefs t' k = int (card (users t' tg k))" "users t' tg k \<noteq> {}" by auto
    show "k < ltNext t'" using lock_invD(3) [OF inv b] by (simp add: f)
    show "tg = tg'" if "ltLocks t' tg' = Some k" for tg'
      using lock_invD(6) [OF inv b k [OF that]] .
  next
    show "ltHolder t' k = Some j \<longleftrightarrow> (\<exists>tg. ltThreads t' j = Holding tg k)" for j k
      using lock_invD(7) [OF inv, of k j] i by (cases "j = i") (simp_all add: f)
  qed
  then show ?thesis by (simp add: t'_def)
qed

lemma lock_reachable_inv: "lock_reachable t \<Longrightarrow> lock_inv t"
proof (induction rule: lock_reachable.induct)
  case initial
  show ?case by (rule lock_invI) (simp_all add: newCheckpointTargetLockTable_def)
next
  case (step t t')
  note inv = step.IH
  from step.hyps(2) show ?case
  proof cases
    case (register i target)
    then show ?thesis using register_old_inv [OF inv] register_new_inv [OF inv]
      by (cases "ltLocks t target") auto
  next
    case (acquire i target l)
    show ?thesis unfolding acquire(1)
    proof (rule move_inv [OF inv])
      show "((ltHolder t)(l \<mapsto> i)) l = Some j \<longleftrightarrow>
          (\<exists>tg. ((ltThreads t)(i := Holding target l)) j = Holding tg l)" for j
        using acquire lock_invD(7) [OF inv, of l j] by auto
    qed (use acquire in simp_all)
  next
    case (unlock i target l)
    show ?thesis unfolding unlock(1)
    proof (rule move_inv [OF inv])
      have "ltHolder t l = Some i" using lock_invD(7) [OF inv] unlock by blast
      then show "((ltHolder t)(l := None)) l = Some j \<longleftrightarrow>
          (\<exists>tg. ((ltThreads t)(i := Unlocked target l)) j = Holding tg l)" for j
        using lock_invD(7) [OF inv, of l j] by auto
    qed (use unlock in simp_all)
  next
    case (release i target l)
    then show ?thesis using release_inv [OF inv] by simp
  qed
qed

text \<open>
  What the invariant gives to the threads: the holder of a target is unique, the table holds a
  lock exactly for the targets that some thread refers to, and a waiting thread whose target
  nobody holds finds its lock free.
\<close>

lemma holder_unique:
  assumes inv: "lock_inv t" and a: "ltThreads t i = Holding target l" "ltThreads t j = Holding target l'"
  shows "i = j"
proof -
  have "ltLocks t target = Some l" "ltLocks t target = Some l'"
    using lock_invD(2) [OF inv, of i target l] lock_invD(2) [OF inv, of j target l'] a by simp_all
  then have "ltHolder t l = Some i" "ltHolder t l = Some j" using lock_invD(7) [OF inv] a by auto
  then show ?thesis by simp
qed

lemma table_exact:
  "lock_inv t \<Longrightarrow> ltLocks t target \<noteq> None \<longleftrightarrow> (\<exists>i l. lock_of (ltThreads t i) = Some (target, l))"
  using lock_invD(2) [of t] lock_invD(5) [of t] unfolding users_def by blast

lemma free_for_waiting:
  assumes inv: "lock_inv t" and w: "ltThreads t i = Waiting target l" "\<nexists>j l'. ltThreads t j = Holding target l'"
  shows "ltHolder t l = None"
proof (rule ccontr)
  assume "ltHolder t l \<noteq> None"
  then obtain j tg where j: "ltThreads t j = Holding tg l" using lock_invD(7) [OF inv] by auto
  have "ltLocks t target = Some l" using lock_invD(2) [OF inv, of i target l] w(1) by simp
  moreover have "ltLocks t tg = Some l" using lock_invD(2) [OF inv, of j tg l] j by simp
  ultimately have "tg = target" using lock_invD(6) [OF inv] by blast
  with j w(2) show False by blast
qed

section \<open>Properties\<close>

text \<open>C19: A checkpoint request is sent to the container's own URL only, at most three times,
  and repeated only after a transient failure. The answer is the outcome of the last request
  (the first item of a 200 response, or its error), unless the wait for a repetition was
  interrupted; a permanent error is never retried.\<close>

theorem checkpoint_retries_transient_only:
  "\<exists>outs. snd (snd (createCheckpoint (traced http) host ns pod container node (w, [])))
      = map (\<lambda>raw. (host @ ''/api/v1/nodes/'' @ node @ ''/proxy/checkpoint/'' @ ns @ ''/'' @ pod @ ''/'' @
                    container, raw)) outs \<and>
    (let r = fst (createCheckpoint http host ns pod container node w);
         outcomes = map (interpret_response (kcDecode http) (checkpointTargetKey node ns pod container)) outs
     in if kcNew http = None then attempts_ok 2 outcomes r
        else outs = [] \<and> r = Inl (ClientError (the (kcNew http))))"
proof (cases "kcNew http")
  case None
  have "kcNew (traced http) = None" using None by (simp add: traced_def)
  then show ?thesis
    using attempts_traced [of http "host @ ''/api/v1/nodes/'' @ node @ ''/proxy/checkpoint/'' @ ns @ ''/'' @ pod @
      ''/'' @ container" "checkpointTargetKey node ns pod container" 2 w "[]"] None
    by (auto simp: createCheckpoint_def checkpoint_url_def Let_def maxCheckpointAttempts_def)
next
  case (Some e)
  then show ?thesis by (simp add: createCheckpoint_def Let_def traced_def)
qed


end
