(* ===== verification/Checkpoint_Requests.thy ===== *)
theory Checkpoint_Requests
  imports Checkpoint_Creator
begin

text \<open>
  \<open>createCheckpoint\<close> of \<^verbatim>\<open>internal/controller/checkpoint_creator.go\<close> called by any number of
  goroutines at once: the triggers of every schedule and the forensic chains share one lock
  table. A call is a thread of the lock table of \<open>Checkpoint_Creator\<close> with its arguments and
  the place it has reached; it is split wherever other calls can run in between: before and
  after every request, during the wait for a repetition, and around the lock.

  What the client, the kubelet and the context do is recorded as events. A finished call is
  compared with \<open>createCheckpoint\<close> of \<open>Checkpoint_Creator\<close>, run alone on a client that plays
  back the events of the call.
\<close>

section \<open>Definitions\<close>

record CheckpointCall =
  ckNamespace :: string
  ckPod :: string
  ckContainer :: string
  ckNode :: string

definition call_target :: "CheckpointCall \<Rightarrow> string" where
  "call_target c = checkpointTargetKey (ckNode c) (ckNamespace c) (ckPod c) (ckContainer c)"

definition call_url :: "string \<Rightarrow> CheckpointCall \<Rightarrow> string" where
  "call_url host c = checkpoint_url host (ckNamespace c) (ckPod c) (ckContainer c) (ckNode c)"

datatype CallEvent =
  NewClient "string option"
| Sent string
| Answered "string + HttpResponse"
| Slept Woken

text \<open>
  Where a call stands while it holds its lock: it makes its client, is about to send its
  \<open>k\<close>-th request, waits for the answer to it, waits to repeat it, or returns.
\<close>

datatype CallPhase =
  Preparing
| Sending nat
| InFlight nat
| Backoff nat
| Returning "CheckpointError + string"

text \<open>The body of the attempt loop after the answer to attempt \<open>k\<close>.\<close>

definition after_attempt :: "nat \<Rightarrow> CheckpointError + string \<Rightarrow> CallPhase" where
  "after_attempt k out =
     (case out of
        Inr path \<Rightarrow> Returning (Inr path)
      | Inl err \<Rightarrow>
          if \<not> isTransientCheckpointError err \<or> k = maxCheckpointAttempts then Returning (Inl err)
          else Backoff k)"

fun advance ::
  "string \<Rightarrow> (string \<Rightarrow> string + string list) \<Rightarrow> CheckpointCall \<Rightarrow> CallPhase \<Rightarrow> CallEvent \<Rightarrow> CallPhase option"
where
  "advance host decode c Preparing (NewClient e) =
     Some (case e of Some err \<Rightarrow> Returning (Inl (ClientError err)) | None \<Rightarrow> Sending 1)"
| "advance host decode c (Sending k) (Sent url) = (if url = call_url host c then Some (InFlight k) else None)"
| "advance host decode c (InFlight k) (Answered raw) =
     Some (after_attempt k (interpret_response decode (call_target c) raw))"
| "advance host decode c (Backoff k) (Slept woken) =
     Some (case woken of ContextDone err \<Rightarrow> Returning (Inl (ContextError err)) | TimerFired \<Rightarrow> Sending (k + 1))"
| "advance host decode c _ _ = None"

text \<open>
  The calls of a process. The trace lists, with the thread and its target, the events of the
  calls (\<open>Inl\<close>) and what they return (\<open>Inr\<close>).
\<close>

type_synonym traced_event = "nat \<times> string \<times> (CallEvent + (CheckpointError + string))"

record Creator =
  crLocks :: LockTable
  crCall :: "nat \<Rightarrow> CheckpointCall"
  crPhase :: "nat \<Rightarrow> CallPhase"
  crTrace :: "traced_event list"

text \<open>A process before its first call.\<close>

definition no_calls :: Creator where
  "no_calls =
     \<lparr>crLocks = newCheckpointTargetLockTable, crCall = (\<lambda>_. \<lparr>ckNamespace = [], ckPod = [], ckContainer = [], ckNode = []\<rparr>),
      crPhase = (\<lambda>_. Preparing), crTrace = []\<rparr>"

text \<open>A new call registers for the lock of its target.\<close>

definition begin_call :: "nat \<Rightarrow> CheckpointCall \<Rightarrow> Creator \<Rightarrow> Creator" where
  "begin_call i c s =
     s\<lparr>crLocks := lt_register i (call_target c) (crLocks s),
       crCall := (crCall s)(i := c), crPhase := (crPhase s)(i := Preparing)\<rparr>"

text \<open>A call goes on: it gets its lock, does its work, and gives the lock back in two steps.\<close>

inductive call_step ::
  "string \<Rightarrow> (string \<Rightarrow> string + string list) \<Rightarrow> Creator \<Rightarrow> Creator \<Rightarrow> bool"
  for host decode where
  enter: "ltThreads (crLocks s) i = Waiting target l \<Longrightarrow> ltHolder (crLocks s) l = None \<Longrightarrow>
    call_step host decode s
      (s\<lparr>crLocks := (crLocks s)\<lparr>ltHolder := (ltHolder (crLocks s))(l \<mapsto> i),
                                ltThreads := (ltThreads (crLocks s))(i := Holding target l)\<rparr>\<rparr>)"
| work: "ltThreads (crLocks s) i = Holding target l \<Longrightarrow>
    advance host decode (crCall s i) (crPhase s i) ev = Some phase \<Longrightarrow>
    call_step host decode s
      (s\<lparr>crPhase := (crPhase s)(i := phase), crTrace := crTrace s @ [(i, target, Inl ev)]\<rparr>)"
| unlock: "ltThreads (crLocks s) i = Holding target l \<Longrightarrow> crPhase s i = Returning r \<Longrightarrow>
    call_step host decode s
      (s\<lparr>crLocks := (crLocks s)\<lparr>ltHolder := (ltHolder (crLocks s))(l := None),
                                ltThreads := (ltThreads (crLocks s))(i := Unlocked target l)\<rparr>,
         crTrace := crTrace s @ [(i, target, Inr r)]\<rparr>)"
| leave: "ltThreads (crLocks s) i = Unlocked target l \<Longrightarrow>
    call_step host decode s (s\<lparr>crLocks := lt_release i target l (crLocks s)\<rparr>)"

text \<open>The runs of a process, with the number of calls begun and of steps they have taken.\<close>

inductive creator_run ::
  "string \<Rightarrow> (string \<Rightarrow> string + string list) \<Rightarrow> nat \<Rightarrow> nat \<Rightarrow> Creator \<Rightarrow> bool"
  for host decode where
  start: "creator_run host decode 0 0 no_calls"
| begins: "creator_run host decode calls steps s \<Longrightarrow> ltThreads (crLocks s) i = Idle \<Longrightarrow>
    creator_run host decode (calls + 1) steps (begin_call i c s)"
| goes_on: "creator_run host decode calls steps s \<Longrightarrow> call_step host decode s s' \<Longrightarrow>
    creator_run host decode calls (steps + 1) s'"

section \<open>Lemmas\<close>

subsection \<open>One call\<close>

text \<open>The client that plays back the events of a call; it stops at an event it was not asked for.\<close>

definition playback ::
  "(string \<Rightarrow> string + string list) \<Rightarrow> string option \<Rightarrow> CallEvent list KubeletClient" where
  "playback decode new =
     \<lparr>kcNew = new,
      kcPost = (\<lambda>url evs. case evs of
          Sent u # Answered raw # evs' \<Rightarrow> if u = url then (raw, evs') else (Inl [], evs)
        | _ \<Rightarrow> (Inl [], evs)),
      kcDecode = decode,
      kcSelect = (\<lambda>d evs. case evs of Slept woken # evs' \<Rightarrow> (woken, evs') | _ \<Rightarrow> (TimerFired, evs))\<rparr>"

text \<open>The call run alone consumes exactly these events and returns \<open>r\<close>.\<close>

fun alone ::
  "string \<Rightarrow> (string \<Rightarrow> string + string list) \<Rightarrow> CheckpointCall \<Rightarrow> CallEvent list \<Rightarrow> CheckpointError + string \<Rightarrow> bool"
where
  "alone host decode c (NewClient new # evs) r =
     (createCheckpoint (playback decode new) host (ckNamespace c) (ckPod c) (ckContainer c) (ckNode c) evs = (r, []))"
| "alone host decode c _ r = False"

primrec advances ::
  "string \<Rightarrow> (string \<Rightarrow> string + string list) \<Rightarrow> CheckpointCall \<Rightarrow> CallPhase \<Rightarrow> CallEvent list \<Rightarrow> CallPhase option"
where
  "advances host decode c ph [] = Some ph"
| "advances host decode c ph (ev # evs) =
     (case advance host decode c ph ev of None \<Rightarrow> None | Some ph' \<Rightarrow> advances host decode c ph' evs)"

lemma advances_snoc:
  "advances host decode c ph (evs @ [ev]) =
     (case advances host decode c ph evs of None \<Rightarrow> None | Some ph' \<Rightarrow> advance host decode c ph' ev)"
  by (induction evs arbitrary: ph) (auto split: option.splits)

lemma advance_elims:
  "advance host decode c (Returning r) ev = None"
  "advance host decode c Preparing ev = Some ph \<Longrightarrow> \<exists>e. ev = NewClient e"
  "advance host decode c (Sending k) ev = Some ph \<Longrightarrow> ev = Sent (call_url host c) \<and> ph = InFlight k"
  "advance host decode c (InFlight k) ev = Some ph \<Longrightarrow>
     \<exists>raw. ev = Answered raw \<and> ph = after_attempt k (interpret_response decode (call_target c) raw)"
  "advance host decode c (Backoff k) ev = Some ph \<Longrightarrow> \<exists>woken. ev = Slept woken"
  by (cases ev; auto split: if_splits)+

lemma advances_Returning:
  "advances host decode c (Returning r) evs = Some ph \<Longrightarrow> evs = [] \<and> ph = Returning r"
  by (cases evs) (auto simp: advance_elims(1))

lemma advances_Sending:
  assumes "advances host decode c (Sending k) evs = Some (Returning r)"
  obtains raw rest where "evs = Sent (call_url host c) # Answered raw # rest"
    "advances host decode c (after_attempt k (interpret_response decode (call_target c) raw)) rest = Some (Returning r)"
proof -
  obtain e1 evs1 where e1: "evs = e1 # evs1" "advance host decode c (Sending k) e1 \<noteq> None"
    using assms by (cases evs) (auto split: option.splits)
  then have f1: "e1 = Sent (call_url host c)" "advances host decode c (InFlight k) evs1 = Some (Returning r)"
    using assms advance_elims(3) [of host decode c k e1] by auto
  obtain e2 evs2 where e2: "evs1 = e2 # evs2" "advance host decode c (InFlight k) e2 \<noteq> None"
    using f1(2) by (cases evs1) (auto split: option.splits)
  then obtain raw where "e2 = Answered raw" using advance_elims(4) [of host decode c k e2] by auto
  then show ?thesis using that e1(1) e2(1) f1 by simp
qed

lemma advances_Backoff:
  assumes "advances host decode c (Backoff k) evs = Some (Returning r)"
  obtains woken rest where "evs = Slept woken # rest"
    "case woken of ContextDone err \<Rightarrow> r = Inl (ContextError err) \<and> rest = []
       | TimerFired \<Rightarrow> advances host decode c (Sending (k + 1)) rest = Some (Returning r)"
proof -
  obtain e1 evs1 where e1: "evs = e1 # evs1" "advance host decode c (Backoff k) e1 \<noteq> None"
    using assms by (cases evs) (auto split: option.splits)
  then obtain woken where "e1 = Slept woken" using advance_elims(5) [of host decode c k e1] by auto
  then show ?thesis using that assms e1(1) by (auto dest: advances_Returning split: Woken.splits)
qed

lemma playback_once:
  "createCheckpointOnce (playback decode new) url target (Sent url # Answered raw # rest)
     = (interpret_response decode target raw, rest)"
  by (simp add: createCheckpointOnce_def playback_def)

lemma playback_sleep:
  "sleepWithContext (playback decode new) d (Slept woken # rest)
     = (case woken of ContextDone err \<Rightarrow> Some err | TimerFired \<Rightarrow> None, rest)"
  by (simp add: sleepWithContext_def playback_def split: Woken.split)

lemma advances_attempts:
  assumes "advances host decode c (Sending k) evs = Some (Returning r)" "k + n = maxCheckpointAttempts"
  shows "checkpoint_attempts (playback decode None) (call_url host c) (call_target c) n evs = (r, [])"
  using assms
proof (induction n arbitrary: k evs)
  case (0 k)
  then obtain raw rest where "evs = Sent (call_url host c) # Answered raw # rest"
    "advances host decode c (after_attempt k (interpret_response decode (call_target c) raw)) rest = Some (Returning r)"
    using advances_Sending by blast
  then show ?case using 0(2)
    by (auto simp: playback_once after_attempt_def dest!: advances_Returning split: sum.splits)
next
  case (Suc n k)
  obtain raw rest where e: "evs = Sent (call_url host c) # Answered raw # rest"
    "advances host decode c (after_attempt k (interpret_response decode (call_target c) raw)) rest = Some (Returning r)"
    using Suc.prems(1) advances_Sending by blast
  let ?out = "interpret_response decode (call_target c) raw"
  show ?case
  proof (cases "transient_outcome ?out")
    case False
    then show ?thesis using e
      by (auto simp: playback_once after_attempt_def transient_outcome_def dest!: advances_Returning split: sum.splits)
  next
    case True
    then obtain err where err: "?out = Inl err" "isTransientCheckpointError err"
      by (auto simp: transient_outcome_def split: sum.splits)
    have "advances host decode c (Backoff k) rest = Some (Returning r)"
      using e(2) err Suc.prems(2) by (simp add: after_attempt_def)
    then obtain woken rest' where w: "rest = Slept woken # rest'"
      "case woken of ContextDone err \<Rightarrow> r = Inl (ContextError err) \<and> rest' = []
         | TimerFired \<Rightarrow> advances host decode c (Sending (k + 1)) rest' = Some (Returning r)"
      by (rule advances_Backoff)
    then show ?thesis using e(1) err Suc.IH [of "k + 1" rest'] Suc.prems(2)
      by (simp add: playback_once playback_sleep split: Woken.splits)
  qed
qed

text \<open>A call that has come to its end behaves as \<open>createCheckpoint\<close> run alone.\<close>

lemma advances_alone:
  assumes "advances host decode c Preparing evs = Some (Returning r)"
  shows "alone host decode c evs r"
proof -
  obtain e evs' where e: "evs = NewClient e # evs'"
    using assms advance_elims(2) [of host decode c] by (cases evs) (auto split: option.splits)
  show ?thesis
  proof (cases e)
    case None
    then have "advances host decode c (Sending 1) evs' = Some (Returning r)" using assms e by simp
    from advances_attempts [OF this, of "maxCheckpointAttempts - 1"] show ?thesis
      using None e by (simp add: createCheckpoint_def call_url_def call_target_def maxCheckpointAttempts_def playback_def)
  next
    case (Some err)
    then show ?thesis using assms e by (auto simp: createCheckpoint_def playback_def dest: advances_Returning)
  qed
qed

text \<open>The attempt number stays within its bound.\<close>

fun phase_ok :: "CallPhase \<Rightarrow> bool" where
  "phase_ok (Sending k) \<longleftrightarrow> k \<le> maxCheckpointAttempts"
| "phase_ok (InFlight k) \<longleftrightarrow> k \<le> maxCheckpointAttempts"
| "phase_ok (Backoff k) \<longleftrightarrow> k < maxCheckpointAttempts"
| "phase_ok _ \<longleftrightarrow> True"

lemma advance_ok: "phase_ok ph \<Longrightarrow> advance host decode c ph ev = Some ph' \<Longrightarrow> phase_ok ph'"
  by (cases ph; cases ev)
    (auto simp: after_attempt_def maxCheckpointAttempts_def split: if_splits option.splits sum.splits Woken.splits)

lemma advances_ok: "phase_ok ph \<Longrightarrow> advances host decode c ph evs = Some ph' \<Longrightarrow> phase_ok ph'"
  by (induction evs arbitrary: ph) (auto split: option.splits dest: advance_ok)

text \<open>How many steps a call has before it at most.\<close>

fun phase_work :: "CallPhase \<Rightarrow> nat" where
  "phase_work Preparing = 11"
| "phase_work (Sending k) = 3 * (maxCheckpointAttempts - k) + 4"
| "phase_work (InFlight k) = 3 * (maxCheckpointAttempts - k) + 3"
| "phase_work (Backoff k) = 3 * (maxCheckpointAttempts - k) + 2"
| "phase_work (Returning r) = 2"

fun thread_work :: "LockPhase \<Rightarrow> CallPhase \<Rightarrow> nat" where
  "thread_work Idle ph = 0"
| "thread_work (Waiting target l) ph = 12"
| "thread_work (Holding target l) ph = phase_work ph"
| "thread_work (Unlocked target l) ph = 1"

lemma advance_work:
  "phase_ok ph \<Longrightarrow> advance host decode c ph ev = Some ph' \<Longrightarrow> phase_work ph' < phase_work ph"
  by (cases ph; cases ev)
    (auto simp: after_attempt_def maxCheckpointAttempts_def split: if_splits option.splits sum.splits Woken.splits)

text \<open>A call that holds its lock can go on until it returns.\<close>

lemma advance_possible:
  "(\<exists>ev ph'. advance host decode c ph ev = Some ph') \<or> (\<exists>r. ph = Returning r)"
proof (cases ph)
  case Preparing
  then show ?thesis by (intro disjI1 exI [of _ "NewClient None"]) simp
next
  case (Sending k)
  then show ?thesis by (intro disjI1 exI [of _ "Sent (call_url host c)"]) simp
next
  case (InFlight k)
  then show ?thesis by (intro disjI1 exI [of _ "Answered (Inl [])"]) simp
next
  case (Backoff k)
  then show ?thesis by (intro disjI1 exI [of _ "Slept TimerFired"]) simp
qed simp

text \<open>Calls with names that contain no slash share a URL only if they share a target.\<close>

definition plain_call :: "CheckpointCall \<Rightarrow> bool" where
  "plain_call c \<longleftrightarrow> list_all (\<lambda>n. CHR ''/'' \<notin> set n) [ckNode c, ckNamespace c, ckPod c, ckContainer c]"

lemma append_slash_eq:
  "CHR ''/'' \<notin> set x \<Longrightarrow> CHR ''/'' \<notin> set y \<Longrightarrow>
     x @ CHR ''/'' # u = y @ CHR ''/'' # v \<longleftrightarrow> x = y \<and> u = v"
  by (auto simp: append_eq_append_conv2 Cons_eq_append_conv append_eq_Cons_conv)

lemma same_url_same_target:
  assumes "plain_call c" "plain_call d" "call_url host c = call_url host d"
  shows "call_target c = call_target d"
  using assms append_slash_eq
  by (simp add: plain_call_def call_url_def checkpoint_url_def call_target_def checkpointTargetKey_def)

subsection \<open>All calls\<close>

definition of_target :: "string \<Rightarrow> traced_event list \<Rightarrow> traced_event list" where
  "of_target target tr = filter (\<lambda>e. fst (snd e) = target) tr"

text \<open>A finished call: its thread, its arguments, its events and what it returned.\<close>

type_synonym finished_call = "nat \<times> CheckpointCall \<times> CallEvent list \<times> (CheckpointError + string)"

definition call_events :: "nat \<Rightarrow> string \<Rightarrow> CallEvent list \<Rightarrow> traced_event list" where
  "call_events i target evs = map (\<lambda>ev. (i, target, Inl ev)) evs"

fun call_record :: "string \<Rightarrow> finished_call \<Rightarrow> traced_event list" where
  "call_record target (i, c, evs, r) = call_events i target evs @ [(i, target, Inr r)]"

fun ran_alone :: "string \<Rightarrow> (string \<Rightarrow> string + string list) \<Rightarrow> string \<Rightarrow> finished_call \<Rightarrow> bool" where
  "ran_alone host decode target (i, c, evs, r) \<longleftrightarrow> call_target c = target \<and> alone host decode c evs r"

text \<open>The events of the call that holds the target, if there is one.\<close>

definition unfinished ::
  "string \<Rightarrow> (string \<Rightarrow> string + string list) \<Rightarrow> string \<Rightarrow> Creator \<Rightarrow> traced_event list \<Rightarrow> bool" where
  "unfinished host decode target s cur \<longleftrightarrow>
     (\<forall>i l. ltThreads (crLocks s) i = Holding target l \<longrightarrow>
        (\<exists>evs. cur = call_events i target evs \<and>
           advances host decode (crCall s i) Preparing evs = Some (crPhase s i))) \<and>
     ((\<nexists>i l. ltThreads (crLocks s) i = Holding target l) \<longrightarrow> cur = [])"

definition serialized ::
  "string \<Rightarrow> (string \<Rightarrow> string + string list) \<Rightarrow> string \<Rightarrow> Creator \<Rightarrow> bool" where
  "serialized host decode target s \<longleftrightarrow>
     (\<exists>finished cur. of_target target (crTrace s) = concat (map (call_record target) finished) @ cur \<and>
        list_all (ran_alone host decode target) finished \<and> unfinished host decode target s cur)"

definition creator_inv :: "string \<Rightarrow> (string \<Rightarrow> string + string list) \<Rightarrow> Creator \<Rightarrow> bool" where
  "creator_inv host decode s \<longleftrightarrow>
     lock_reachable (crLocks s) \<and>
     (\<forall>i target l. ltThreads (crLocks s) i \<in> {Waiting target l, Holding target l} \<longrightarrow>
        call_target (crCall s i) = target) \<and>
     (\<forall>i target l. ltThreads (crLocks s) i = Waiting target l \<longrightarrow> crPhase s i = Preparing) \<and>
     (\<forall>target. serialized host decode target s)"

lemma creator_invD:
  assumes "creator_inv host decode s"
  shows "lock_reachable (crLocks s)" "lock_inv (crLocks s)"
    "ltThreads (crLocks s) i = Waiting target l \<Longrightarrow> call_target (crCall s i) = target"
    "ltThreads (crLocks s) i = Holding target l \<Longrightarrow> call_target (crCall s i) = target"
    "ltThreads (crLocks s) i = Waiting target l \<Longrightarrow> crPhase s i = Preparing"
    "serialized host decode target s"
  using assms lock_reachable_inv by (auto simp: creator_inv_def)

text \<open>Whether a target is serialized depends on its own events and its holder only.\<close>

lemma serialized_frame:
  assumes "serialized host decode target s" "of_target target (crTrace s') = of_target target (crTrace s)"
    and "\<And>i l. ltThreads (crLocks s') i = Holding target l \<longleftrightarrow> ltThreads (crLocks s) i = Holding target l"
    and "\<And>i l. ltThreads (crLocks s) i = Holding target l \<Longrightarrow> crCall s' i = crCall s i \<and> crPhase s' i = crPhase s i"
  shows "serialized host decode target s'"
proof -
  have "unfinished host decode target s' cur" if "unfinished host decode target s cur" for cur
    using that assms(3,4) unfolding unfinished_def by simp
  then show ?thesis using assms(1,2) unfolding serialized_def by metis
qed

lemma of_target_snoc:
  "of_target target (tr @ [(i, tg, x)]) = of_target target tr @ (if tg = target then [(i, tg, x)] else [])"
  by (simp add: of_target_def)

lemma call_events_simps:
  "call_events i target [] = []"
  "call_events i target (evs @ [ev]) = call_events i target evs @ [(i, target, Inl ev)]"
  by (simp_all add: call_events_def)

text \<open>The one who holds a target has made its latest events.\<close>

lemma serialized_holder:
  assumes "serialized host decode target s" "ltThreads (crLocks s) i = Holding target l"
  obtains finished evs where
    "of_target target (crTrace s) = concat (map (call_record target) finished) @ call_events i target evs"
    "list_all (ran_alone host decode target) finished"
    "advances host decode (crCall s i) Preparing evs = Some (crPhase s i)"
proof -
  obtain finished cur where f: "of_target target (crTrace s) = concat (map (call_record target) finished) @ cur"
    "list_all (ran_alone host decode target) finished" "unfinished host decode target s cur"
    using assms(1) unfolding serialized_def by (elim exE conjE)
  obtain evs where "cur = call_events i target evs"
    "advances host decode (crCall s i) Preparing evs = Some (crPhase s i)"
    using f(3) assms(2) unfolding unfinished_def by blast
  then show ?thesis using that f(1,2) by simp
qed

lemma holder_phase_ok:
  assumes "creator_inv host decode s" "ltThreads (crLocks s) i = Holding target l"
  shows "phase_ok (crPhase s i)"
  by (rule serialized_holder [OF creator_invD(6) [OF assms(1)] assms(2)], rule advances_ok [of Preparing]) simp_all

lemma serialized_enter:
  assumes inv: "creator_inv host decode s"
    and w: "ltThreads (crLocks s) i = Waiting target l" "ltHolder (crLocks s) l = None"
    and s': "crTrace s' = crTrace s" "crCall s' = crCall s" "crPhase s' = crPhase s"
      "ltThreads (crLocks s') = (ltThreads (crLocks s))(i := Holding target l)"
  shows "serialized host decode tg s'"
proof (cases "tg = target")
  case True
  note li = creator_invD(2) [OF inv]
  have none: "ltThreads (crLocks s) j \<noteq> Holding target k" for j k
  proof
    assume j: "ltThreads (crLocks s) j = Holding target k"
    have "ltLocks (crLocks s) target = Some l" "ltLocks (crLocks s) target = Some k"
      using lock_invD(2) [OF li, of i target l] lock_invD(2) [OF li, of j target k] w(1) j by simp_all
    then show False using lock_invD(7) [OF li, of k j] j w(2) by auto
  qed
  then obtain finished where f: "of_target target (crTrace s) = concat (map (call_record target) finished)"
    "list_all (ran_alone host decode target) finished"
    using creator_invD(6) [OF inv, of target] unfolding serialized_def unfinished_def by auto
  have "unfinished host decode target s' []"
    unfolding unfinished_def using none creator_invD(5) [OF inv w(1)]
    by (auto simp: s' call_events_simps(1) intro: exI [of _ "[]"])
  with f True show ?thesis unfolding serialized_def s'(1) by (intro exI [of _ finished] exI [of _ "[]"]) simp
next
  case False
  show ?thesis
    by (rule serialized_frame [OF creator_invD(6) [OF inv, of tg]]) (use False w s' in auto)
qed

lemma serialized_work:
  assumes inv: "creator_inv host decode s" and h: "ltThreads (crLocks s) i = Holding target l"
    and a: "advance host decode (crCall s i) (crPhase s i) ev = Some phase"
  shows "serialized host decode tg (s\<lparr>crPhase := (crPhase s)(i := phase), crTrace := crTrace s @ [(i, target, Inl ev)]\<rparr>)"
    (is "serialized host decode tg ?s'")
proof (cases "tg = target")
  case True
  obtain finished evs where f:
    "of_target target (crTrace s) = concat (map (call_record target) finished) @ call_events i target evs"
    "list_all (ran_alone host decode target) finished"
    "advances host decode (crCall s i) Preparing evs = Some (crPhase s i)"
    using serialized_holder [OF creator_invD(6) [OF inv] h] .
  have "unfinished host decode target ?s' (call_events i target (evs @ [ev]))"
    unfolding unfinished_def
  proof (intro conjI allI impI)
    fix j k assume "ltThreads (crLocks ?s') j = Holding target k"
    then have "j = i" using holder_unique [OF creator_invD(2) [OF inv] h, of j k] by simp
    then show "\<exists>evs'. call_events i target (evs @ [ev]) = call_events j target evs' \<and>
        advances host decode (crCall ?s' j) Preparing evs' = Some (crPhase ?s' j)"
      using f(3) a by (intro exI [of _ "evs @ [ev]"]) (simp add: advances_snoc)
  qed (use h in auto)
  with f(1,2) True show ?thesis unfolding serialized_def
    by (intro exI [of _ finished] exI [of _ "call_events i target (evs @ [ev])"])
      (simp add: of_target_snoc call_events_simps)
next
  case False
  show ?thesis
    by (rule serialized_frame [OF creator_invD(6) [OF inv, of tg]]) (use False h in \<open>auto simp: of_target_snoc\<close>)
qed

lemma serialized_unlock:
  assumes inv: "creator_inv host decode s" and h: "ltThreads (crLocks s) i = Holding target l"
    and r: "crPhase s i = Returning r"
    and s': "crTrace s' = crTrace s @ [(i, target, Inr r)]" "crCall s' = crCall s" "crPhase s' = crPhase s"
      "ltThreads (crLocks s') = (ltThreads (crLocks s))(i := Unlocked target l)"
  shows "serialized host decode tg s'"
proof (cases "tg = target")
  case True
  obtain finished evs where f:
    "of_target target (crTrace s) = concat (map (call_record target) finished) @ call_events i target evs"
    "list_all (ran_alone host decode target) finished"
    "advances host decode (crCall s i) Preparing evs = Some (crPhase s i)"
    using serialized_holder [OF creator_invD(6) [OF inv] h] .
  have "ran_alone host decode target (i, crCall s i, evs, r)"
    using creator_invD(4) [OF inv h] advances_alone f(3) r by simp
  moreover have "unfinished host decode target s' []"
  proof -
    have "ltThreads (crLocks s') j \<noteq> Holding target k" for j k
      using holder_unique [OF creator_invD(2) [OF inv] h, of j k] by (cases "j = i") (auto simp: s')
    then show ?thesis unfolding unfinished_def by simp
  qed
  ultimately show ?thesis using f(1,2) True unfolding serialized_def s'(1)
    by (intro exI [of _ "finished @ [(i, crCall s i, evs, r)]"] exI [of _ "[]"]) (simp add: of_target_snoc)
next
  case False
  show ?thesis
    by (rule serialized_frame [OF creator_invD(6) [OF inv, of tg]]) (use False h s' in \<open>auto simp: of_target_snoc\<close>)
qed

lemma call_step_locks:
  "call_step host decode s s' \<Longrightarrow> lock_step (crLocks s) (crLocks s') \<or> crLocks s' = crLocks s"
  by (erule call_step.cases) (auto intro: lock_step.intros)

lemma call_step_inv:
  assumes inv: "creator_inv host decode s" and st: "call_step host decode s s'"
  shows "creator_inv host decode s'"
proof -
  have "serialized host decode tg s'" for tg
    using st
  proof cases
    case (enter i target l)
    show ?thesis by (rule serialized_enter [OF inv enter(2,3)]) (simp_all add: enter(1))
  next
    case (work i target l ev phase)
    show ?thesis unfolding work(1) by (rule serialized_work [OF inv work(2,3)])
  next
    case (unlock i target l r)
    show ?thesis by (rule serialized_unlock [OF inv unlock(2,3)]) (simp_all add: unlock(1))
  next
    case (leave i target l)
    show ?thesis
      by (rule serialized_frame [OF creator_invD(6) [OF inv, of tg]])
        (use leave in \<open>auto simp: lt_release_def Let_def\<close>)
  qed
  moreover have "lock_reachable (crLocks s')"
    using call_step_locks [OF st] creator_invD(1) [OF inv] by (auto intro: lock_reachable.step)
  moreover have "call_target (crCall s' i) = target"
    if "ltThreads (crLocks s') i \<in> {Waiting target l, Holding target l}" for i target l
    using st that creator_invD(3,4) [OF inv]
    by cases (auto simp: lt_release_def Let_def split: if_splits)
  moreover have "crPhase s' i = Preparing" if "ltThreads (crLocks s') i = Waiting target l" for i target l
    using st that creator_invD(5) [OF inv]
    by cases (auto simp: lt_release_def Let_def split: if_splits)
  ultimately show ?thesis unfolding creator_inv_def by blast
qed

lemma register_threads:
  "\<exists>l. ltThreads (lt_register i target t) = (ltThreads t)(i := Waiting target l)"
  by (auto simp: lt_register_def Let_def split: option.splits)

lemma begin_call_inv:
  assumes inv: "creator_inv host decode s" and i: "ltThreads (crLocks s) i = Idle"
  shows "creator_inv host decode (begin_call i c s)"
proof -
  obtain l where t: "ltThreads (crLocks (begin_call i c s)) = (ltThreads (crLocks s))(i := Waiting (call_target c) l)"
    using register_threads [of i "call_target c" "crLocks s"] by (auto simp: begin_call_def)
  have b: "crCall (begin_call i c s) = (crCall s)(i := c)" "crPhase (begin_call i c s) = (crPhase s)(i := Preparing)"
    by (simp_all add: begin_call_def)
  have "serialized host decode tg (begin_call i c s)" for tg
    by (rule serialized_frame [OF creator_invD(6) [OF inv, of tg]]) (use t i in \<open>auto simp: begin_call_def\<close>)
  moreover have "lock_reachable (crLocks (begin_call i c s))"
    using lock_reachable.step [OF creator_invD(1) [OF inv] lock_step.register [OF i]] by (simp add: begin_call_def)
  moreover have "call_target (crCall (begin_call i c s) j) = target"
    if "ltThreads (crLocks (begin_call i c s)) j \<in> {Waiting target k, Holding target k}" for j target k
    using that creator_invD(3,4) [OF inv] by (cases "j = i") (auto simp: t b)
  moreover have "crPhase (begin_call i c s) j = Preparing"
    if "ltThreads (crLocks (begin_call i c s)) j = Waiting target k" for j target k
    using that creator_invD(5) [OF inv] by (cases "j = i") (auto simp: t b)
  ultimately show ?thesis unfolding creator_inv_def by blast
qed

lemma creator_run_inv: "creator_run host decode calls steps s \<Longrightarrow> creator_inv host decode s"
proof (induction rule: creator_run.induct)
  case start
  show ?case
    by (auto simp: creator_inv_def serialized_def unfinished_def no_calls_def of_target_def
      newCheckpointTargetLockTable_def intro: lock_reachable.initial [unfolded newCheckpointTargetLockTable_def]
      exI [of _ "[]"])
qed (simp_all add: call_step_inv begin_call_inv)

subsection \<open>Progress\<close>

definition remaining :: "Creator \<Rightarrow> nat \<Rightarrow> nat" where
  "remaining s i = thread_work (ltThreads (crLocks s) i) (crPhase s i)"

definition total_work :: "(nat \<Rightarrow> nat) \<Rightarrow> nat" where
  "total_work f = sum f {i. f i \<noteq> 0}"

text \<open>The steps that the calls under way can still take.\<close>

definition work_left :: "Creator \<Rightarrow> nat" where
  "work_left s = total_work (remaining s)"

lemma total_work_update:
  assumes "finite {j. f j \<noteq> 0}"
  shows "total_work (f(i := x)) + f i = total_work f + x"
proof -
  let ?A = "insert i {j. f j \<noteq> 0}"
  have "total_work f = sum f ?A" "total_work (f(i := x)) = sum (f(i := x)) ?A"
    unfolding total_work_def by (rule sum.mono_neutral_left; use assms in auto)+
  moreover have "sum f (?A - {i}) = sum (f(i := x)) (?A - {i})" by (rule sum.cong) auto
  moreover have "sum f ?A = f i + sum f (?A - {i})" "sum (f(i := x)) ?A = (f(i := x)) i + sum (f(i := x)) (?A - {i})"
    by (rule sum.remove; use assms in simp)+
  ultimately show ?thesis by simp
qed

lemma remaining_finite:
  assumes "creator_inv host decode s"
  shows "finite {i. remaining s i \<noteq> 0}"
proof -
  have "{i. remaining s i \<noteq> 0} \<subseteq> {i. ltThreads (crLocks s) i \<noteq> Idle}" by (auto simp: remaining_def)
  then show ?thesis using active_finite [OF creator_invD(2) [OF assms]] by (rule finite_subset)
qed

lemma call_step_work:
  assumes inv: "creator_inv host decode s" and st: "call_step host decode s s'"
  shows "work_left s' < work_left s"
proof -
  have "\<exists>i x. remaining s' = (remaining s)(i := x) \<and> x < remaining s i"
    using st
  proof cases
    case (enter i target l)
    then show ?thesis using creator_invD(5) [OF inv enter(2)]
      by (intro exI [of _ i] exI [of _ 11]) (auto simp: remaining_def fun_eq_iff)
  next
    case (work i target l ev phase)
    then show ?thesis using advance_work [OF holder_phase_ok [OF inv work(2)] work(3)]
      by (intro exI [of _ i] exI [of _ "phase_work phase"]) (auto simp: remaining_def fun_eq_iff)
  next
    case (unlock i target l r)
    then show ?thesis by (intro exI [of _ i] exI [of _ 1]) (auto simp: remaining_def fun_eq_iff)
  next
    case (leave i target l)
    then show ?thesis
      by (intro exI [of _ i] exI [of _ 0]) (auto simp: remaining_def lt_release_def Let_def fun_eq_iff)
  qed
  then obtain i x where "remaining s' = (remaining s)(i := x)" "x < remaining s i" by blast
  then show ?thesis using total_work_update [OF remaining_finite [OF inv], of i x] by (simp add: work_left_def)
qed

lemma begin_call_work:
  assumes inv: "creator_inv host decode s" and i: "ltThreads (crLocks s) i = Idle"
  shows "work_left (begin_call i c s) = work_left s + 12"
proof -
  obtain l where "ltThreads (lt_register i (call_target c) (crLocks s)) = (ltThreads (crLocks s))(i := Waiting (call_target c) l)"
    using register_threads by blast
  then have "remaining (begin_call i c s) = (remaining s)(i := 12)"
    by (auto simp: remaining_def begin_call_def fun_eq_iff)
  then show ?thesis
    using total_work_update [OF remaining_finite [OF inv], of i 12] i
    by (simp add: work_left_def remaining_def [of s i])
qed

lemma creator_run_work: "creator_run host decode calls steps s \<Longrightarrow> steps + work_left s \<le> 12 * calls"
proof (induction rule: creator_run.induct)
  case start
  show ?case
    by (simp add: work_left_def total_work_def remaining_def no_calls_def newCheckpointTargetLockTable_def)
next
  case (begins calls steps s i c)
  then show ?case using begin_call_work [OF creator_run_inv] by fastforce
next
  case (goes_on calls steps s s')
  then show ?case using call_step_work [OF creator_run_inv] by fastforce
qed

lemma call_step_possible:
  assumes inv: "creator_inv host decode s" and a: "ltThreads (crLocks s) i \<noteq> Idle"
  shows "\<exists>s'. call_step host decode s s'"
proof (cases "\<exists>j target l. ltThreads (crLocks s) j = Holding target l")
  case True
  then obtain j target l where h: "ltThreads (crLocks s) j = Holding target l" by blast
  show ?thesis
    using advance_possible [of host decode "crCall s j" "crPhase s j"] call_step.work [OF h] call_step.unlock [OF h]
    by blast
next
  case False
  show ?thesis
  proof (cases "ltThreads (crLocks s) i")
    case (Waiting target l)
    then show ?thesis using call_step.enter [OF Waiting] free_for_waiting [OF creator_invD(2) [OF inv] Waiting] False
      by blast
  next
    case (Unlocked target l)
    then show ?thesis using call_step.leave by blast
  qed (use a False in auto)
qed

section \<open>Properties\<close>

definition in_flight :: "Creator \<Rightarrow> nat \<Rightarrow> bool" where
  "in_flight s i =
     (case (ltThreads (crLocks s) i, crPhase s i) of (Holding _ _, InFlight _) \<Rightarrow> True | _ \<Rightarrow> False)"

text \<open>C18: However the calls of \<open>createCheckpoint\<close> interleave, what happens to one container is
  a sequence of complete calls, each of which did exactly what \<open>createCheckpoint\<close> run alone does
  with the same answers, followed by the events of the one call that holds the container's lock,
  if there is one. No two requests to the same URL are ever in flight together (names without
  a slash). A process that has begun a number of calls takes at most twelve steps for each of
  them, and while a call is unfinished some call can take a step: no call is lost in the lock
  table, whose entries are gone once all calls have returned.\<close>

theorem checkpoint_calls_serialized:
  assumes "creator_run host decode calls steps s"
  shows "(\<exists>finished cur.
       of_target target (crTrace s) = concat (map (call_record target) finished) @ cur \<and>
       list_all (ran_alone host decode target) finished \<and> unfinished host decode target s cur) \<and>
    (\<forall>i j. in_flight s i \<and> in_flight s j \<and> plain_call (crCall s i) \<and> plain_call (crCall s j) \<and>
       call_url host (crCall s i) = call_url host (crCall s j) \<longrightarrow> i = j) \<and>
    steps + work_left s \<le> 12 * calls \<and>
    (if \<forall>i. ltThreads (crLocks s) i = Idle then ltLocks (crLocks s) target = None
     else \<exists>s'. call_step host decode s s' \<and> work_left s' < work_left s)"
proof -
  note inv = creator_run_inv [OF assms]
  note li = creator_invD(2) [OF inv]
  have "i = j" if a: "in_flight s i" "in_flight s j" "plain_call (crCall s i)" "plain_call (crCall s j)"
    "call_url host (crCall s i) = call_url host (crCall s j)" for i j
  proof -
    obtain t l t' l' where h: "ltThreads (crLocks s) i = Holding t l" "ltThreads (crLocks s) j = Holding t' l'"
      using a(1,2) by (auto simp: in_flight_def split: LockPhase.splits)
    then have "t = t'" using creator_invD(4) [OF inv] same_url_same_target [OF a(3-5)] by metis
    then show ?thesis using holder_unique [OF li] h by blast
  qed
  moreover have "if \<forall>i. ltThreads (crLocks s) i = Idle then ltLocks (crLocks s) target = None
     else \<exists>s'. call_step host decode s s' \<and> work_left s' < work_left s"
    (is ?p)
  proof (cases "\<forall>i. ltThreads (crLocks s) i = Idle")
    case True
    then show ?thesis using table_exact [OF li, of target] by simp
  next
    case False
    then show ?thesis using call_step_possible [OF inv] call_step_work [OF inv] by (simp only: if_False) blast
  qed
  ultimately show ?thesis
    using creator_invD(6) [OF inv, of target] creator_run_work [OF assms] unfolding serialized_def by blast
qed

text \<open>Two calls for one container: the first has sent its request, the second waits.\<close>

definition ex_call :: CheckpointCall where
  "ex_call = \<lparr>ckNamespace = ''ns'', ckPod = ''p'', ckContainer = ''c'', ckNode = ''n''\<rparr>"

definition ex_decode :: "string \<Rightarrow> string + string list" where
  "ex_decode body = Inr [body]"

definition ex_creator :: Creator where
  "ex_creator = begin_call 1 ex_call (begin_call 0 ex_call no_calls)"

definition ex_entered :: Creator where
  "ex_entered = ex_creator\<lparr>crLocks := (crLocks ex_creator)\<lparr>ltHolder := (ltHolder (crLocks ex_creator))(0 \<mapsto> 0),
     ltThreads := (ltThreads (crLocks ex_creator))(0 := Holding ''n/ns/p/c'' 0)\<rparr>\<rparr>"

definition ex_at :: "CallPhase \<Rightarrow> traced_event list \<Rightarrow> Creator" where
  "ex_at ph tr = ex_entered\<lparr>crPhase := (crPhase ex_entered)(0 := ph), crTrace := tr\<rparr>"

definition ex_sent :: Creator where
  "ex_sent = ex_at (InFlight 1)
     [(0, ''n/ns/p/c'', Inl (NewClient None)), (0, ''n/ns/p/c'', Inl (Sent (call_url ''h'' ex_call)))]"

lemma ex_fields:
  "ltThreads (crLocks ex_creator) = (\<lambda>_. Idle)(0 := Waiting ''n/ns/p/c'' 0, 1 := Waiting ''n/ns/p/c'' 0)"
  "ltHolder (crLocks ex_creator) 0 = None" "crPhase ex_creator = (\<lambda>_. Preparing)" "crTrace ex_creator = []"
  "crCall ex_creator 0 = ex_call"
  by (simp_all add: ex_creator_def begin_call_def no_calls_def newCheckpointTargetLockTable_def
    lt_register_def ex_call_def call_target_def checkpointTargetKey_def Let_def fun_eq_iff)

lemma ex_at_fields:
  "ltThreads (crLocks (ex_at ph tr)) = (\<lambda>_. Idle)(0 := Holding ''n/ns/p/c'' 0, 1 := Waiting ''n/ns/p/c'' 0)"
  "crPhase (ex_at ph tr) = (\<lambda>_. Preparing)(0 := ph)" "crTrace (ex_at ph tr) = tr"
  "crCall (ex_at ph tr) 0 = ex_call"
  by (simp_all add: ex_at_def ex_entered_def ex_fields fun_eq_iff)

lemma ex_work:
  assumes "creator_run ''h'' ex_decode n k (ex_at ph tr)" "advance ''h'' ex_decode ex_call ph ev = Some ph'"
  shows "creator_run ''h'' ex_decode n (k + 1) (ex_at ph' (tr @ [(0, ''n/ns/p/c'', Inl ev)]))"
proof -
  have "(ex_at ph tr)\<lparr>crPhase := (crPhase (ex_at ph tr))(0 := ph'),
      crTrace := crTrace (ex_at ph tr) @ [(0, ''n/ns/p/c'', Inl ev)]\<rparr> = ex_at ph' (tr @ [(0, ''n/ns/p/c'', Inl ev)])"
    by (simp add: ex_at_def)
  then show ?thesis
    using creator_run.goes_on [OF assms(1) call_step.work [of _ 0 "''n/ns/p/c''" 0 _ _ ev ph']] assms(2)
    by (simp add: ex_at_fields)
qed

lemma ex_calls_run: "creator_run ''h'' ex_decode 2 3 ex_sent"
proof -
  have "creator_run ''h'' ex_decode (0 + 1) 0 (begin_call 0 ex_call no_calls)"
    by (rule creator_run.begins [OF creator_run.start])
      (simp add: no_calls_def newCheckpointTargetLockTable_def)
  then have "creator_run ''h'' ex_decode (0 + 1 + 1) 0 ex_creator"
    unfolding ex_creator_def
    by (rule creator_run.begins)
      (simp add: begin_call_def no_calls_def newCheckpointTargetLockTable_def lt_register_def Let_def)
  then have "creator_run ''h'' ex_decode (0 + 1 + 1) (0 + 1) ex_entered"
    unfolding ex_entered_def by (rule creator_run.goes_on) (rule call_step.enter; simp add: ex_fields)
  moreover have "ex_entered = ex_at Preparing []"
    by (rule Creator.equality) (simp_all add: ex_at_def ex_entered_def ex_fields fun_eq_iff)
  ultimately have "creator_run ''h'' ex_decode 2 1 (ex_at Preparing [])" by (simp add: numeral_2_eq_2)
  from ex_work [OF ex_work [OF this, of "NewClient None" "Sending 1"], of "Sent (call_url ''h'' ex_call)" "InFlight 1"]
  show ?thesis by (simp add: ex_sent_def numeral_3_eq_3)
qed

theorem checkpoint_calls_serialized_witness:
  "in_flight ex_sent 0 \<and> \<not> in_flight ex_sent 1 \<and> 3 + work_left ex_sent \<le> 24 \<and>
     (\<exists>s'. call_step ''h'' ex_decode ex_sent s' \<and> work_left s' < work_left ex_sent)"
proof -
  note t = checkpoint_calls_serialized [OF ex_calls_run, of "''n/ns/p/c''", THEN conjunct2, THEN conjunct2]
  have "ltThreads (crLocks ex_sent) 0 \<noteq> Idle" by (simp add: ex_sent_def ex_at_fields)
  then have "\<not> (\<forall>i. ltThreads (crLocks ex_sent) i = Idle)" by blast
  then have "3 + work_left ex_sent \<le> 12 * 2"
    "\<exists>s'. call_step ''h'' ex_decode ex_sent s' \<and> work_left s' < work_left ex_sent"
    using t by (simp_all only: if_False)
  then show ?thesis by (simp add: in_flight_def) (simp add: ex_sent_def ex_at_fields)
qed

end
