(* ===== verification/Go_Heap.thy ===== *)
theory Go_Heap
  imports Main
begin

text \<open>
  Values with pointers and slices in an explicit memory, and the statements that generated deep-copy
  functions are made of. A value is read at its Go type, a finite tree; what it means is its unfolding
  (\<open>view\<close>), and the memory it can reach is \<open>reach\<close>. The contract of a deep copy is the locale
  \<open>deep_copy\<close>: an equal value in memory of its own, with everything that existed before untouched.
\<close>

section \<open>Memory\<close>

datatype ty = TWord | TStruct "(string \<times> ty) list" | TPtr ty | TSlice ty

text \<open>Numbers, booleans and strings are scalars; they have no identity.\<close>

datatype go = Scalar string | Struct "(string \<times> go) list" | Ptr "nat option" | Slice "nat option"

text \<open>A cell holds the elements of an array; a variable is an array of one element.\<close>

record Heap =
  cell :: "nat \<Rightarrow> go list"
  lim :: nat

definition alloc :: "go list \<Rightarrow> Heap \<Rightarrow> nat \<times> Heap" where
  "alloc vs h = (lim h, h\<lparr>cell := (cell h)(lim h := vs), lim := Suc (lim h)\<rparr>)"

definition store :: "nat \<Rightarrow> go list \<Rightarrow> Heap \<Rightarrow> Heap" where
  "store a vs h = h\<lparr>cell := (cell h)(a := vs)\<rparr>"

fun typed :: "Heap \<Rightarrow> ty \<Rightarrow> go \<Rightarrow> bool" and typed_fields :: "Heap \<Rightarrow> (string \<times> ty) list \<Rightarrow> (string \<times> go) list \<Rightarrow> bool" where
  "typed h TWord v = (case v of Scalar s \<Rightarrow> True | _ \<Rightarrow> False)"
| "typed h (TStruct fs) v = (case v of Struct vs \<Rightarrow> typed_fields h fs vs | _ \<Rightarrow> False)"
| "typed h (TPtr t) v =
     (case v of
        Ptr None \<Rightarrow> True
      | Ptr (Some a) \<Rightarrow> a < lim h \<and> length (cell h a) = 1 \<and> (\<forall>x \<in> set (cell h a). typed h t x)
      | _ \<Rightarrow> False)"
| "typed h (TSlice t) v =
     (case v of
        Slice None \<Rightarrow> True
      | Slice (Some a) \<Rightarrow> a < lim h \<and> (\<forall>x \<in> set (cell h a). typed h t x)
      | _ \<Rightarrow> False)"
| "typed_fields h [] vs = (vs = [])"
| "typed_fields h ((f, t) # fs) vs = (case vs of [] \<Rightarrow> False | (g, v) # ws \<Rightarrow> g = f \<and> typed h t v \<and> typed_fields h fs ws)"

datatype tree = Leaf string | Node "(string \<times> tree) list" | Nil | Items "tree list"

fun view :: "Heap \<Rightarrow> ty \<Rightarrow> go \<Rightarrow> tree" and view_fields :: "Heap \<Rightarrow> (string \<times> ty) list \<Rightarrow> (string \<times> go) list \<Rightarrow> (string \<times> tree) list" where
  "view h TWord v = (case v of Scalar s \<Rightarrow> Leaf s | _ \<Rightarrow> Nil)"
| "view h (TStruct fs) v = (case v of Struct vs \<Rightarrow> Node (view_fields h fs vs) | _ \<Rightarrow> Nil)"
| "view h (TPtr t) v = (case v of Ptr (Some a) \<Rightarrow> Items (map (view h t) (cell h a)) | _ \<Rightarrow> Nil)"
| "view h (TSlice t) v = (case v of Slice (Some a) \<Rightarrow> Items (map (view h t) (cell h a)) | _ \<Rightarrow> Nil)"
| "view_fields h [] vs = []"
| "view_fields h ((f, t) # fs) vs = (case vs of [] \<Rightarrow> [] | (g, v) # ws \<Rightarrow> (g, view h t v) # view_fields h fs ws)"

fun reach :: "Heap \<Rightarrow> ty \<Rightarrow> go \<Rightarrow> nat set" and reach_fields :: "Heap \<Rightarrow> (string \<times> ty) list \<Rightarrow> (string \<times> go) list \<Rightarrow> nat set" where
  "reach h TWord v = {}"
| "reach h (TStruct fs) v = (case v of Struct vs \<Rightarrow> reach_fields h fs vs | _ \<Rightarrow> {})"
| "reach h (TPtr t) v = (case v of Ptr (Some a) \<Rightarrow> insert a (\<Union>x \<in> set (cell h a). reach h t x) | _ \<Rightarrow> {})"
| "reach h (TSlice t) v = (case v of Slice (Some a) \<Rightarrow> insert a (\<Union>x \<in> set (cell h a). reach h t x) | _ \<Rightarrow> {})"
| "reach_fields h [] vs = {}"
| "reach_fields h ((f, t) # fs) vs = (case vs of [] \<Rightarrow> {} | (g, v) # ws \<Rightarrow> reach h t v \<union> reach_fields h fs ws)"

text \<open>The pointers and slices in a type; a type without them is flat.\<close>

fun pointers :: "ty \<Rightarrow> nat" and pointers_fields :: "(string \<times> ty) list \<Rightarrow> nat" where
  "pointers TWord = 0"
| "pointers (TStruct fs) = pointers_fields fs"
| "pointers (TPtr t) = Suc (pointers t)"
| "pointers (TSlice t) = Suc (pointers t)"
| "pointers_fields [] = 0"
| "pointers_fields ((f, t) # fs) = pointers t + pointers_fields fs"

abbreviation flat :: "ty \<Rightarrow> bool" where "flat t \<equiv> pointers t = 0"

section \<open>The statements of deep copies\<close>

type_synonym copier = "go \<Rightarrow> Heap \<Rightarrow> go \<times> Heap"

text \<open>\<^verbatim>\<open>out.F = in.F\<close>.\<close>

definition assign :: copier where
  "assign v h = (v, h)"

text \<open>\<^verbatim>\<open>if in.F != nil { *out = new(T); **out = **in }\<close>.\<close>

definition new_value :: copier where
  "new_value v h = (case v of Ptr (Some a) \<Rightarrow> (case alloc (cell h a) h of (b, h1) \<Rightarrow> (Ptr (Some b), h1)) | _ \<Rightarrow> (v, h))"

text \<open>\<^verbatim>\<open>if in.F != nil { *out = new(T); (*in).DeepCopyInto(*out) }\<close>.\<close>

definition new_into :: "copier \<Rightarrow> copier" where
  "new_into c v h =
     (case v of
        Ptr (Some a) \<Rightarrow>
          (case alloc [Scalar []] h of
             (b, h1) \<Rightarrow> (case c (hd (cell h a)) h1 of (x, h2) \<Rightarrow> (Ptr (Some b), store b [x] h2)))
      | _ \<Rightarrow> (v, h))"

text \<open>\<^verbatim>\<open>if in.F != nil { x := (*in).DeepCopy(); *out = &x }\<close>.\<close>

definition address_of_copy :: "copier \<Rightarrow> copier" where
  "address_of_copy c v h =
     (case v of
        Ptr (Some a) \<Rightarrow> (case c (hd (cell h a)) h of (x, h1) \<Rightarrow> (case alloc [x] h1 of (b, h2) \<Rightarrow> (Ptr (Some b), h2)))
      | _ \<Rightarrow> (v, h))"

text \<open>\<^verbatim>\<open>if in.F != nil { *out = make([]T, len(*in)); copy(*out, *in) }\<close>.\<close>

definition make_copy :: copier where
  "make_copy v h = (case v of Slice (Some a) \<Rightarrow> (case alloc (cell h a) h of (b, h1) \<Rightarrow> (Slice (Some b), h1)) | _ \<Rightarrow> (v, h))"

text \<open>\<^verbatim>\<open>if in.F != nil { *out = make([]T, len(*in)); for i := range *in { (*in)[i].DeepCopyInto(&(*out)[i]) } }\<close>.\<close>

fun fill :: "copier \<Rightarrow> nat \<Rightarrow> nat \<Rightarrow> go list \<Rightarrow> Heap \<Rightarrow> Heap" where
  "fill c b i [] h = h"
| "fill c b i (v # vs) h = (case c v h of (x, h1) \<Rightarrow> fill c b (Suc i) vs (store b ((cell h1 b)[i := x]) h1))"

definition make_each :: "copier \<Rightarrow> copier" where
  "make_each c v h =
     (case v of
        Slice (Some a) \<Rightarrow>
          (case alloc (replicate (length (cell h a)) (Scalar [])) h of
             (b, h1) \<Rightarrow> (Slice (Some b), fill c b 0 (cell h a) h1))
      | _ \<Rightarrow> (v, h))"

text \<open>\<^verbatim>\<open>*out = *in\<close>, then one statement per field that needs it.\<close>

fun field :: "string \<Rightarrow> (string \<times> go) list \<Rightarrow> go" where
  "field f [] = Scalar []"
| "field f ((g, v) # vs) = (if g = f then v else field f vs)"

fun set_field :: "string \<Rightarrow> go \<Rightarrow> (string \<times> go) list \<Rightarrow> (string \<times> go) list" where
  "set_field f x [] = []"
| "set_field f x ((g, v) # vs) = (if g = f then (g, x) # vs else (g, v) # set_field f x vs)"

fun copy_fields :: "(string \<times> copier) list \<Rightarrow> (string \<times> go) list \<Rightarrow> (string \<times> go) list \<Rightarrow> Heap \<Rightarrow> (string \<times> go) list \<times> Heap" where
  "copy_fields [] src out h = (out, h)"
| "copy_fields ((f, c) # cs) src out h =
     (case c (field f src) h of (x, h1) \<Rightarrow> copy_fields cs src (set_field f x out) h1)"

definition struct_into :: "(string \<times> copier) list \<Rightarrow> copier" where
  "struct_into cs v h =
     (case v of Struct vs \<Rightarrow> (case copy_fields cs vs vs h of (out, h1) \<Rightarrow> (Struct out, h1)) | _ \<Rightarrow> (v, h))"

section \<open>Frames\<close>

lemma frame:
  assumes "lim h \<le> lim h'"
  shows "typed h t v \<Longrightarrow> \<forall>a \<in> reach h t v. cell h' a = cell h a \<Longrightarrow>
      typed h' t v \<and> view h' t v = view h t v \<and> reach h' t v = reach h t v"
    "typed_fields h fs vs \<Longrightarrow> \<forall>a \<in> reach_fields h fs vs. cell h' a = cell h a \<Longrightarrow>
      typed_fields h' fs vs \<and> view_fields h' fs vs = view_fields h fs vs \<and> reach_fields h' fs vs = reach_fields h fs vs"
proof (induction t and fs arbitrary: v and vs rule: pointers_pointers_fields.induct)
  case (3 t)
  show ?case
  proof (cases "\<exists>a. v = Ptr (Some a)")
    case True
    then obtain a where v: "v = Ptr (Some a)" by blast
    have c: "cell h' a = cell h a" using 3 v by simp
    have x: "typed h' t x \<and> view h' t x = view h t x \<and> reach h' t x = reach h t x" if "x \<in> set (cell h a)" for x
      using 3(1) [of x] 3(2,3) v that by auto
    show ?thesis using 3(2) v c x assms by simp
  next
    case False
    then show ?thesis using 3(2) by (cases v) (auto split: option.splits)
  qed
next
  case (4 t)
  show ?case
  proof (cases "\<exists>a. v = Slice (Some a)")
    case True
    then obtain a where v: "v = Slice (Some a)" by blast
    have c: "cell h' a = cell h a" using 4 v by simp
    have x: "typed h' t x \<and> view h' t x = view h t x \<and> reach h' t x = reach h t x" if "x \<in> set (cell h a)" for x
      using 4(1) [of x] 4(2,3) v that by auto
    show ?thesis using 4(2) v c x assms by simp
  next
    case False
    then show ?thesis using 4(2) by (cases v) (auto split: option.splits)
  qed
next
  case (6 f t fs)
  then show ?case by (cases vs) auto
qed (auto split: go.splits)

lemma reach_bound:
  "typed h t v \<Longrightarrow> a \<in> reach h t v \<Longrightarrow> a < lim h"
  "typed_fields h fs vs \<Longrightarrow> a \<in> reach_fields h fs vs \<Longrightarrow> a < lim h"
  by (induction h t v and h fs vs rule: typed_typed_fields.induct) (auto split: go.splits option.splits list.splits)

lemma flat_reach: "flat t \<Longrightarrow> reach h t v = {}" "pointers_fields fs = 0 \<Longrightarrow> reach_fields h fs vs = {}"
  by (induction h t v and h fs vs rule: reach_reach_fields.induct) (auto split: go.splits list.splits)

text \<open>What existed before is as it was.\<close>

definition kept :: "Heap \<Rightarrow> Heap \<Rightarrow> bool" where
  "kept h h' \<longleftrightarrow> lim h \<le> lim h' \<and> (\<forall>a < lim h. cell h' a = cell h a)"

lemma kept_refl [simp]: "kept h h"
  by (simp add: kept_def)

lemma kept_trans: "kept h h1 \<Longrightarrow> kept h1 h2 \<Longrightarrow> kept h h2"
  by (simp add: kept_def)

lemma kept_alloc:
  assumes "alloc vs h = (b, h1)"
  shows "kept h h1" "b = lim h" "lim h1 = Suc (lim h)" "cell h1 b = vs"
  using assms by (auto simp: alloc_def kept_def)

lemma kept_store: "kept h h1 \<Longrightarrow> lim h \<le> b \<Longrightarrow> kept h (store b vs h1)"
  by (simp add: kept_def store_def)

lemma kept_frame:
  "typed h t v \<Longrightarrow> kept h h' \<Longrightarrow> typed h' t v \<and> view h' t v = view h t v \<and> reach h' t v = reach h t v"
  using frame(1) [of h h' t v] reach_bound(1) [of h t v] by (simp add: kept_def)

lemma store_frame:
  "typed h t v \<Longrightarrow> b \<notin> reach h t v \<Longrightarrow>
     typed (store b vs h) t v \<and> view (store b vs h) t v = view h t v \<and> reach (store b vs h) t v = reach h t v"
  by (rule frame(1)) (auto simp: store_def)

section \<open>The contract\<close>

locale deep_copy =
  fixes t :: ty and c :: copier
  assumes copied: "typed h t v \<Longrightarrow> c v h = (out, h') \<Longrightarrow>
    kept h h' \<and> typed h' t out \<and> view h' t out = view h t v \<and> reach h' t out \<subseteq> {lim h ..< lim h'}"
begin

text \<open>The copy shares no memory with the original, and writing through it does not show there.\<close>

lemma separate:
  assumes "typed h t v" "c v h = (out, h')"
  shows "reach h' t out \<inter> reach h' t v = {}" "view h' t v = view h t v"
    "a \<in> reach h' t out \<Longrightarrow> view (store a vs h') t v = view h t v"
proof -
  note k = copied [OF assms]
  note f = kept_frame [OF assms(1), of h']
  have old: "reach h' t v \<subseteq> {..< lim h}" using f k reach_bound(1) [OF assms(1)] by auto
  then show d: "reach h' t out \<inter> reach h' t v = {}" using k by fastforce
  show "view h' t v = view h t v" using f k by simp
  assume "a \<in> reach h' t out"
  then have "a \<notin> reach h' t v" using d by blast
  then show "view (store a vs h') t v = view h t v" using store_frame [of h' t v a vs] f k by simp
qed

end

lemma assign_copies: "flat t \<Longrightarrow> deep_copy t assign"
  by unfold_locales (simp add: assign_def flat_reach(1))

text \<open>A new variable or array that holds copies of the elements of the old one.\<close>

lemma fresh_cell:
  assumes old: "\<forall>x \<in> set (cell h a). typed h t x"
    and new: "kept h h'" "length xs = length (cell h a)" "b < lim h'" "lim h \<le> b" "cell h' b = xs"
      "\<And>i. i < length xs \<Longrightarrow> typed h' t (xs ! i) \<and> view h' t (xs ! i) = view h t (cell h a ! i) \<and>
         reach h' t (xs ! i) \<subseteq> {lim h ..< lim h'}"
  shows "(\<forall>x \<in> set xs. typed h' t x) \<and> map (view h' t) (cell h' b) = map (view h t) (cell h a) \<and>
    insert b (\<Union>x \<in> set (cell h' b). reach h' t x) \<subseteq> {lim h ..< lim h'}"
  using assms by (auto simp: in_set_conv_nth list_eq_iff_nth_eq subset_iff)

lemma flat_cell:
  assumes "flat t" "\<forall>x \<in> set (cell h a). typed h t x" "alloc (cell h a) h = (b, h1)"
  shows "kept h h1" "b < lim h1" "lim h \<le> b" "cell h1 b = cell h a" "\<forall>x \<in> set (cell h a). typed h1 t x"
    "\<forall>x \<in> set (cell h a). view h1 t x = view h t x" "\<forall>x \<in> set (cell h a). reach h1 t x = {}"
  using kept_alloc [OF assms(3)] assms(2) kept_frame [of h t _ h1] flat_reach(1) [OF assms(1)] by simp_all

lemma new_value_copies:
  assumes "flat t"
  shows "deep_copy (TPtr t) new_value"
proof
  fix h v out h'
  assume v: "typed h (TPtr t) v" and r: "new_value v h = (out, h')"
  show "kept h h' \<and> typed h' (TPtr t) out \<and> view h' (TPtr t) out = view h (TPtr t) v \<and> reach h' (TPtr t) out \<subseteq> {lim h ..< lim h'}"
  proof (cases "\<exists>a. v = Ptr (Some a)")
    case True
    then obtain a where a: "v = Ptr (Some a)" by blast
    obtain b h1 where al: "alloc (cell h a) h = (b, h1)" by fastforce
    have "\<forall>x \<in> set (cell h a). typed h t x" using v a by simp
    note f = flat_cell [OF assms this al]
    have "out = Ptr (Some b)" "h' = h1" using r a al by (simp_all add: new_value_def)
    then show ?thesis using f v a by simp
  qed (use v r in \<open>auto simp: new_value_def split: go.splits option.splits\<close>)
qed

lemma make_copy_copies:
  assumes "flat t"
  shows "deep_copy (TSlice t) make_copy"
proof
  fix h v out h'
  assume v: "typed h (TSlice t) v" and r: "make_copy v h = (out, h')"
  show "kept h h' \<and> typed h' (TSlice t) out \<and> view h' (TSlice t) out = view h (TSlice t) v \<and> reach h' (TSlice t) out \<subseteq> {lim h ..< lim h'}"
  proof (cases "\<exists>a. v = Slice (Some a)")
    case True
    then obtain a where a: "v = Slice (Some a)" by blast
    obtain b h1 where al: "alloc (cell h a) h = (b, h1)" by fastforce
    have "\<forall>x \<in> set (cell h a). typed h t x" using v a by simp
    note f = flat_cell [OF assms this al]
    have "out = Slice (Some b)" "h' = h1" using r a al by (simp_all add: make_copy_def)
    then show ?thesis using f v a by simp
  qed (use v r in \<open>auto simp: make_copy_def split: go.splits option.splits\<close>)
qed

lemma new_into_copies:
  assumes "deep_copy t c"
  shows "deep_copy (TPtr t) (new_into c)"
proof
  fix h v out h'
  assume v: "typed h (TPtr t) v" and r: "new_into c v h = (out, h')"
  show "kept h h' \<and> typed h' (TPtr t) out \<and> view h' (TPtr t) out = view h (TPtr t) v \<and> reach h' (TPtr t) out \<subseteq> {lim h ..< lim h'}"
  proof (cases "\<exists>a. v = Ptr (Some a)")
    case True
    then obtain a where a: "v = Ptr (Some a)" by blast
    then obtain x where x: "cell h a = [x]" "typed h t x" using v by (auto simp: length_Suc_conv)
    obtain b h1 where al: "alloc [Scalar []] h = (b, h1)" by fastforce
    note k1 = kept_alloc [OF al]
    obtain y h2 where y: "c x h1 = (y, h2)" by fastforce
    have x1: "typed h1 t x" "view h1 t x = view h t x" using kept_frame [OF x(2) k1(1)] by simp_all
    note k2 = deep_copy.copied [OF assms x1(1) y]
    have out: "out = Ptr (Some b)" "h' = store b [y] h2" using r a al y x(1) by (simp_all add: new_into_def)
    have r2: "reach h2 t y \<subseteq> {lim h1 ..< lim h2}" and t2: "typed h2 t y" and v2: "view h2 t y = view h1 t x" and kk2: "kept h1 h2"
      using k2 by simp_all
    have "b \<notin> reach h2 t y" using r2 k1(2,3) by (auto simp: subset_iff)
    note s = store_frame [OF t2 this, of "[y]", folded out(2)]
    have kk: "kept h h'" unfolding out(2) by (rule kept_store [OF kept_trans [OF k1(1) kk2]]) (simp add: k1(2))
    have l: "lim h' = lim h2" "cell h' b = [y]" by (simp_all add: out(2) store_def)
    have b: "b < lim h2" using k1(2,3) kk2 by (simp add: kept_def)
    have "reach h' (TPtr t) out = insert b (reach h2 t y)" by (simp add: out(1) l(2) s)
    then have "reach h' (TPtr t) out \<subseteq> {lim h ..< lim h'}" using r2 b k1(2,3) by (auto simp: l(1))
    moreover have "typed h' (TPtr t) out" by (simp add: out(1) l s b)
    moreover have "view h' (TPtr t) out = view h (TPtr t) v" by (simp add: out(1) a l(2) x(1) s v2 x1(2))
    ultimately show ?thesis using kk by blast
  qed (use v r in \<open>auto simp: new_into_def split: go.splits option.splits\<close>)
qed

lemma address_of_copy_copies:
  assumes "deep_copy t c"
  shows "deep_copy (TPtr t) (address_of_copy c)"
proof
  fix h v out h'
  assume v: "typed h (TPtr t) v" and r: "address_of_copy c v h = (out, h')"
  show "kept h h' \<and> typed h' (TPtr t) out \<and> view h' (TPtr t) out = view h (TPtr t) v \<and> reach h' (TPtr t) out \<subseteq> {lim h ..< lim h'}"
  proof (cases "\<exists>a. v = Ptr (Some a)")
    case True
    then obtain a where a: "v = Ptr (Some a)" by blast
    then obtain x where x: "cell h a = [x]" "typed h t x" using v by (auto simp: length_Suc_conv)
    obtain y h1 where y: "c x h = (y, h1)" by fastforce
    note k1 = deep_copy.copied [OF assms x(2) y]
    obtain b h2 where al: "alloc [y] h1 = (b, h2)" by fastforce
    note k2 = kept_alloc [OF al]
    have s: "typed h2 t y" "view h2 t y = view h1 t y" "reach h2 t y = reach h1 t y"
      using kept_frame [of h1 t y h2] k1 k2 by simp_all
    have out: "out = Ptr (Some b)" "h' = h2" using r a al y x(1) by (simp_all add: address_of_copy_def)
    have "kept h h2" using k1 k2 kept_trans by blast
    moreover have "lim h \<le> lim h1" using k1 by (simp add: kept_def)
    ultimately show ?thesis using s k1 k2 x(1) unfolding out a by auto
  qed (use v r in \<open>auto simp: address_of_copy_def split: go.splits option.splits\<close>)
qed

text \<open>An element that was copied into the array at \<open>b\<close>: it means the same and does not reach back.\<close>

definition copy_of :: "ty \<Rightarrow> Heap \<Rightarrow> nat \<Rightarrow> Heap \<Rightarrow> go \<Rightarrow> go \<Rightarrow> bool" where
  "copy_of t h0 b h x v \<longleftrightarrow> typed h t x \<and> view h t x = view h0 t v \<and> reach h t x \<subseteq> {Suc b ..< lim h}"

lemma copy_of_kept: "copy_of t h0 b h x v \<Longrightarrow> kept h h' \<Longrightarrow> copy_of t h0 b h' x v"
  unfolding copy_of_def using kept_frame [of h t x h'] by (auto simp: kept_def subset_iff)

lemma copy_of_store: "copy_of t h0 b h x v \<Longrightarrow> copy_of t h0 b (store b vs h) x v"
proof -
  assume x: "copy_of t h0 b h x v"
  then have "b \<notin> reach h t x" by (auto simp: copy_of_def subset_iff)
  then show ?thesis using x store_frame [of h t x b vs] by (simp add: copy_of_def) (simp add: store_def)
qed

lemma fill_copies:
  assumes c: "deep_copy t c"
  shows "kept h0 h \<Longrightarrow> lim h0 \<le> b \<Longrightarrow> b < lim h \<Longrightarrow> \<forall>v \<in> set vs. typed h0 t v \<Longrightarrow>
    length (cell h b) = length pre + length vs \<Longrightarrow> \<forall>j < length pre. copy_of t h0 b h (cell h b ! j) (pre ! j) \<Longrightarrow>
    kept h0 (fill c b (length pre) vs h) \<and> b < lim (fill c b (length pre) vs h) \<and>
    list_all2 (copy_of t h0 b (fill c b (length pre) vs h)) (cell (fill c b (length pre) vs h) b) (pre @ vs)"
proof (induction vs arbitrary: pre h)
  case Nil
  then show ?case by (simp add: list_all2_conv_all_nth)
next
  case (Cons v vs)
  obtain x h1 where x: "c v h = (x, h1)" by fastforce
  have v: "typed h t v" "view h t v = view h0 t v" using kept_frame [of h0 t v, OF _ Cons.prems(1)] Cons.prems(4) by simp_all
  have k: "kept h h1" "typed h1 t x" "view h1 t x = view h t v" "reach h1 t x \<subseteq> {lim h ..< lim h1}"
    using deep_copy.copied [OF c v(1) x] by simp_all
  have b: "cell h1 b = cell h b" "b < lim h1" using k(1) Cons.prems(3) by (auto simp: kept_def)
  let ?h = "store b ((cell h1 b)[length pre := x]) h1"
  have "copy_of t h0 b h1 x v" using k v(2) Cons.prems(3) by (auto simp: copy_of_def subset_iff)
  then have new: "copy_of t h0 b ?h x v" by (rule copy_of_store)
  have old: "copy_of t h0 b ?h (cell h b ! j) (pre ! j)" if "j < length pre" for j
    using Cons.prems(6) that copy_of_store [OF copy_of_kept [OF _ k(1)]] by blast
  have "\<forall>j < length (pre @ [v]). copy_of t h0 b ?h (cell ?h b ! j) ((pre @ [v]) ! j)"
  proof (intro allI impI)
    fix j assume "j < length (pre @ [v])"
    then show "copy_of t h0 b ?h (cell ?h b ! j) ((pre @ [v]) ! j)"
      using old [of j] new Cons.prems(5) b(1) by (cases "j = length pre") (auto simp: store_def nth_append)
  qed
  moreover have "kept h0 ?h" using kept_store [OF kept_trans [OF Cons.prems(1) k(1)] Cons.prems(2)] by simp
  moreover have "b < lim ?h" "length (cell ?h b) = length (pre @ [v]) + length vs"
    using b Cons.prems(5) by (simp_all add: store_def)
  ultimately have "kept h0 (fill c b (length (pre @ [v])) vs ?h) \<and> b < lim (fill c b (length (pre @ [v])) vs ?h) \<and>
    list_all2 (copy_of t h0 b (fill c b (length (pre @ [v])) vs ?h)) (cell (fill c b (length (pre @ [v])) vs ?h) b) ((pre @ [v]) @ vs)"
    using Cons.prems(2,4) by (intro Cons.IH) simp_all
  then show ?case by (simp add: x)
qed

lemma make_each_copies:
  assumes "deep_copy t c"
  shows "deep_copy (TSlice t) (make_each c)"
proof
  fix h v out h'
  assume v: "typed h (TSlice t) v" and r: "make_each c v h = (out, h')"
  show "kept h h' \<and> typed h' (TSlice t) out \<and> view h' (TSlice t) out = view h (TSlice t) v \<and> reach h' (TSlice t) out \<subseteq> {lim h ..< lim h'}"
  proof (cases "\<exists>a. v = Slice (Some a)")
    case True
    then obtain a where a: "v = Slice (Some a)" by blast
    let ?vs = "cell h a"
    obtain b h1 where al: "alloc (replicate (length ?vs) (Scalar [])) h = (b, h1)" by fastforce
    note k1 = kept_alloc [OF al]
    have out: "out = Slice (Some b)" "h' = fill c b 0 ?vs h1" using r a al by (simp_all add: make_each_def)
    have vs: "\<forall>x \<in> set ?vs. typed h t x" using v a by simp
    have f: "kept h h'" "b < lim h'" "list_all2 (copy_of t h b h') (cell h' b) ?vs"
      using fill_copies [OF assms k1(1), of b ?vs "[]"] k1(2-4) vs by (simp_all add: out(2))
    have "typed h' (TSlice t) out" using f(2,3) by (auto simp: out(1) copy_of_def list_all2_conv_all_nth in_set_conv_nth)
    moreover have "view h' (TSlice t) out = view h (TSlice t) v"
      using f(3) by (auto simp: out(1) a copy_of_def list_all2_conv_all_nth list_eq_iff_nth_eq)
    moreover have "reach h' (TSlice t) out \<subseteq> {lim h ..< lim h'}"
    proof -
      have "reach h' t x \<subseteq> {Suc b ..< lim h'}" if "x \<in> set (cell h' b)" for x
        using f(3) that by (auto simp: copy_of_def list_all2_conv_all_nth in_set_conv_nth subset_iff)
      then show ?thesis using f(2) k1(2) by (fastforce simp: out(1))
    qed
    ultimately show ?thesis using f(1) by blast
  qed (use v r in \<open>auto simp: make_each_def split: go.splits option.splits\<close>)
qed

subsection \<open>Structs\<close>

lemma typed_fields_iff:
  "distinct (map fst fs) \<Longrightarrow>
     typed_fields h fs vs \<longleftrightarrow> map fst vs = map fst fs \<and> (\<forall>(f, t) \<in> set fs. typed h t (field f vs))"
proof (induction fs arbitrary: vs)
  case (Cons x fs)
  obtain f t where x: "x = (f, t)" by fastforce
  show ?case
  proof (cases vs)
    case (Cons y ws)
    obtain g v where y: "y = (g, v)" by fastforce
    have "field f' vs = field f' ws" if "f' \<in> fst ` set fs" "g = f" for f'
      using that Cons.prems x Cons y by auto
    then show ?thesis using Cons.IH [of ws] Cons.prems x Cons y by (cases "g = f") (auto simp: case_prod_beta)
  qed (simp add: x)
qed simp

lemma view_fields_eq:
  "distinct (map fst fs) \<Longrightarrow> map fst vs = map fst fs \<Longrightarrow>
     view_fields h fs vs = map (\<lambda>(f, t). (f, view h t (field f vs))) fs"
proof (induction fs arbitrary: vs)
  case (Cons x fs)
  obtain f t where x: "x = (f, t)" by fastforce
  obtain v ws where vs: "vs = (f, v) # ws" using Cons.prems(2) x by (cases vs) auto
  have "field f' vs = field f' ws" if "f' \<in> fst ` set fs" for f'
    using that Cons.prems(1) x vs by auto
  then show ?case using Cons.IH [of ws] Cons.prems x vs by (auto simp: case_prod_beta)
qed simp

lemma reach_fields_eq:
  "distinct (map fst fs) \<Longrightarrow> map fst vs = map fst fs \<Longrightarrow>
     reach_fields h fs vs = (\<Union>(f, t) \<in> set fs. reach h t (field f vs))"
proof (induction fs arbitrary: vs)
  case (Cons x fs)
  obtain f t where x: "x = (f, t)" by fastforce
  obtain v ws where vs: "vs = (f, v) # ws" using Cons.prems(2) x by (cases vs) auto
  have "field f' vs = field f' ws" if "f' \<in> fst ` set fs" for f'
    using that Cons.prems(1) x vs by auto
  then show ?case using Cons.IH [of ws] Cons.prems x vs by (auto simp: case_prod_beta)
qed simp

lemma set_field_names [simp]: "map fst (set_field f x vs) = map fst vs"
  by (induction vs) auto

lemma field_set_same: "f \<in> set (map fst vs) \<Longrightarrow> field f (set_field f x vs) = x"
  by (induction vs) force+

lemma field_set_other: "g \<noteq> f \<Longrightarrow> field g (set_field f x vs) = field g vs"
  by (induction vs) auto

text \<open>After the statements for the fields \<open>D\<close>: those are copies, the others still the original values.\<close>

definition halfway :: "(string \<times> ty) list \<Rightarrow> Heap \<Rightarrow> (string \<times> go) list \<Rightarrow> string set \<Rightarrow> (string \<times> go) list \<Rightarrow> Heap \<Rightarrow> bool" where
  "halfway fs h0 vs D out h \<longleftrightarrow> kept h0 h \<and> map fst out = map fst fs \<and>
     (\<forall>f t. (f, t) \<in> set fs \<longrightarrow>
       (if f \<in> D then typed h t (field f out) \<and> view h t (field f out) = view h0 t (field f vs) \<and>
          reach h t (field f out) \<subseteq> {lim h0 ..< lim h}
        else field f out = field f vs))"

lemma copy_fields_halfway:
  assumes fs: "distinct (map fst fs)" "typed_fields h0 fs vs"
  shows "halfway fs h0 vs D out h \<Longrightarrow> \<forall>(f, c) \<in> set cs. f \<in> fst ` set fs \<and> (\<forall>t. (f, t) \<in> set fs \<longrightarrow> deep_copy t c) \<Longrightarrow>
    copy_fields cs vs out h = (out', h') \<Longrightarrow> halfway fs h0 vs (D \<union> fst ` set cs) out' h'"
proof (induction cs arbitrary: D out h)
  case (Cons x cs)
  obtain f c where x: "x = (f, c)" by fastforce
  obtain t where t: "(f, t) \<in> set fs" "deep_copy t c" using Cons.prems(2) x by force
  obtain y h1 where y: "c (field f vs) h = (y, h1)" by fastforce
  have k0: "kept h0 h" using Cons.prems(1) by (simp add: halfway_def)
  have v0: "typed h0 t (field f vs)" using typed_fields_iff [OF fs(1)] fs(2) t(1) by auto
  have v: "typed h t (field f vs)" "view h t (field f vs) = view h0 t (field f vs)" using kept_frame [OF v0 k0] by simp_all
  have k: "kept h h1" "typed h1 t y" "view h1 t y = view h t (field f vs)" "reach h1 t y \<subseteq> {lim h ..< lim h1}"
    using deep_copy.copied [OF t(2) v(1) y] by simp_all
  have lims: "lim h0 \<le> lim h" "lim h \<le> lim h1" using k0 k(1) by (auto simp: kept_def)
  have names: "map fst out = map fst fs" using Cons.prems(1) by (simp add: halfway_def)
  have "f \<in> set (map fst out)" unfolding names using t(1) by force
  then have new: "field g (set_field f y out) = (if g = f then y else field g out)" for g
    using field_set_same field_set_other by simp
  have "if g \<in> insert f D then typed h1 u (field g (set_field f y out)) \<and>
        view h1 u (field g (set_field f y out)) = view h0 u (field g vs) \<and> reach h1 u (field g (set_field f y out)) \<subseteq> {lim h0 ..< lim h1}
      else field g (set_field f y out) = field g vs" if g: "(g, u) \<in> set fs" for g u
  proof (cases "g = f")
    case True
    then have "u = t" using g t(1) fs(1) by (auto dest: eq_key_imp_eq_value)
    then show ?thesis using True new k v(2) lims by (auto simp: subset_iff)
  next
    case False
    have o: "if g \<in> D then typed h u (field g out) \<and> view h u (field g out) = view h0 u (field g vs) \<and>
        reach h u (field g out) \<subseteq> {lim h0 ..< lim h} else field g out = field g vs"
      using Cons.prems(1) g unfolding halfway_def by blast
    show ?thesis
    proof (cases "g \<in> D")
      case True
      then have "typed h u (field g out)" using o by simp
      from kept_frame [OF this k(1)] show ?thesis using o True False new lims by (auto simp: subset_iff)
    next
      case gD: False
      then show ?thesis using o False new by simp
    qed
  qed
  then have "halfway fs h0 vs (insert f D) (set_field f y out) h1"
    unfolding halfway_def using kept_trans [OF k0 k(1)] names by simp
  then have "halfway fs h0 vs (insert f D \<union> fst ` set cs) out' h'"
    using Cons.IH [of "insert f D" "set_field f y out" h1] Cons.prems(2,3) x y by simp
  then show ?case by (simp add: x)
qed simp

lemma struct_into_copies:
  assumes fs: "distinct (map fst fs)"
    and cs: "\<forall>(f, c) \<in> set cs. f \<in> fst ` set fs \<and> (\<forall>t. (f, t) \<in> set fs \<longrightarrow> deep_copy t c)"
    and rest: "\<forall>(f, t) \<in> set fs. f \<in> fst ` set cs \<or> flat t"
  shows "deep_copy (TStruct fs) (struct_into cs)"
proof
  fix h v out h'
  assume v: "typed h (TStruct fs) v" and r: "struct_into cs v h = (out, h')"
  obtain vs where vs: "v = Struct vs" "typed_fields h fs vs" using v by (cases v) auto
  have vt: "map fst vs = map fst fs" "\<And>f t. (f, t) \<in> set fs \<Longrightarrow> typed h t (field f vs)"
    using typed_fields_iff [OF fs] vs(2) by auto
  obtain ws where ws: "out = Struct ws" "copy_fields cs vs vs h = (ws, h')"
    using r vs by (auto simp: struct_into_def split: prod.splits)
  have "halfway fs h vs {} vs h" using vt by (auto simp: halfway_def)
  from copy_fields_halfway [OF fs vs(2) this cs ws(2)] have w: "halfway fs h vs (fst ` set cs) ws h'" by simp
  have k: "kept h h'" and n: "map fst ws = map fst fs" using w by (simp_all add: halfway_def)
  have all: "typed h' t (field f ws)" "view h' t (field f ws) = view h t (field f vs)" "reach h' t (field f ws) \<subseteq> {lim h ..< lim h'}"
    if f: "(f, t) \<in> set fs" for f t
  proof -
    have "typed h' t (field f ws) \<and> view h' t (field f ws) = view h t (field f vs) \<and> reach h' t (field f ws) \<subseteq> {lim h ..< lim h'}"
    proof (cases "f \<in> fst ` set cs")
      case True
      then show ?thesis using w f unfolding halfway_def by metis
    next
      case False
      then have "field f ws = field f vs" "flat t" using w f rest unfolding halfway_def by fastforce+
      then show ?thesis using kept_frame [OF vt(2) [OF f] k] flat_reach(1) by simp
    qed
    then show "typed h' t (field f ws)" "view h' t (field f ws) = view h t (field f vs)" "reach h' t (field f ws) \<subseteq> {lim h ..< lim h'}"
      by simp_all
  qed
  have "typed h' (TStruct fs) out" using all(1) n typed_fields_iff [OF fs] by (auto simp: ws(1))
  moreover have "view h' (TStruct fs) out = view h (TStruct fs) v"
    using all(2) view_fields_eq [OF fs n, of h'] view_fields_eq [OF fs vt(1), of h] by (auto simp: ws(1) vs(1))
  moreover have "reach h' (TStruct fs) out \<subseteq> {lim h ..< lim h'}"
    using all(3) reach_fields_eq [OF fs n, of h'] by (fastforce simp: ws(1))
  ultimately show "kept h h' \<and> typed h' (TStruct fs) out \<and> view h' (TStruct fs) out = view h (TStruct fs) v \<and>
      reach h' (TStruct fs) out \<subseteq> {lim h ..< lim h'}"
    using k by blast
qed

end
