(* ===== verification/Deep_Copy.thy ===== *)
theory Deep_Copy
  imports Go_Heap
begin

text \<open>
  \<^verbatim>\<open>api/v1/zz_generated.deepcopy.go\<close>: the deep-copy functions of the API types, over the memory of
  \<open>Go_Heap\<close>. Each type is given with its Go fields (\<^verbatim>\<open>api/v1/*_types.go\<close>), each \<open>DeepCopyInto\<close> with the
  statements of its body, in order. The API machinery's own types and their copy functions are a
  parameter (\<open>Vendor\<close>), with the contract of a deep copy as its law.
\<close>

section \<open>Definitions\<close>

record Vendor =
  tObjectMeta :: ty
  tListMeta :: ty
  tLabelSelector :: ty
  tCondition :: ty
  tPodTemplateSpec :: ty
  tQuantity :: ty
  tTime :: ty
  cObjectMeta :: copier
  cListMeta :: copier
  cLabelSelector :: copier
  cCondition :: copier
  cPodTemplateSpec :: copier
  cQuantity :: copier
  cTime :: copier
  cTimePtr :: copier

definition TypeMeta_type :: ty where
  "TypeMeta_type = TStruct [(''Kind'', TWord), (''APIVersion'', TWord)]"

text \<open>\<open>DeepCopyObject\<close>: the copy as a \<^verbatim>\<open>runtime.Object\<close>, or nil.\<close>

definition object_of :: "copier \<Rightarrow> copier" where
  "object_of c v h = (case c v h of (x, h1) \<Rightarrow> if x \<noteq> Ptr None then (x, h1) else (Ptr None, h1))"

definition ResourcePercentThreshold_type :: "ty" where
  "ResourcePercentThreshold_type =
     TStruct [(''Upper'', TPtr TWord), (''Lower'', TPtr TWord)]"

definition ResourcePercentThreshold_DeepCopyInto :: "copier" where
  "ResourcePercentThreshold_DeepCopyInto =
     struct_into [(''Upper'', new_value), (''Lower'', new_value)]"

definition ResourcePercentThreshold_DeepCopy :: "copier" where
  "ResourcePercentThreshold_DeepCopy = new_into ResourcePercentThreshold_DeepCopyInto"

definition ResourceThresholdSpec_type :: "ty" where
  "ResourceThresholdSpec_type =
     TStruct [(''CPUPercent'', TPtr ResourcePercentThreshold_type),
             (''MemoryPercent'', TPtr ResourcePercentThreshold_type), (''PollIntervalSeconds'', TPtr TWord)]"

definition ResourceThresholdSpec_DeepCopyInto :: "copier" where
  "ResourceThresholdSpec_DeepCopyInto =
     struct_into [(''CPUPercent'', new_into ResourcePercentThreshold_DeepCopyInto),
                 (''MemoryPercent'', new_into ResourcePercentThreshold_DeepCopyInto),
                 (''PollIntervalSeconds'', new_value)]"

definition ResourceThresholdSpec_DeepCopy :: "copier" where
  "ResourceThresholdSpec_DeepCopy = new_into ResourceThresholdSpec_DeepCopyInto"

definition TriggersSpec_type :: "ty" where
  "TriggersSpec_type =
     TStruct [(''Interval'', TPtr TWord), (''ResourceThreshold'', TPtr ResourceThresholdSpec_type),
             (''OnKubernetesEvents'', TSlice TWord), (''OnAnnotation'', TWord)]"

definition TriggersSpec_DeepCopyInto :: "copier" where
  "TriggersSpec_DeepCopyInto =
     struct_into [(''Interval'', new_value), (''ResourceThreshold'', new_into ResourceThresholdSpec_DeepCopyInto),
                 (''OnKubernetesEvents'', make_copy)]"

definition TriggersSpec_DeepCopy :: "copier" where
  "TriggersSpec_DeepCopy = new_into TriggersSpec_DeepCopyInto"

definition CheckpointScheduleSpec_type :: "Vendor \<Rightarrow> ty" where
  "CheckpointScheduleSpec_type V =
     TStruct [(''Namespace'', TWord), (''Selector'', tLabelSelector V), (''ContainerNames'', TSlice TWord),
             (''Triggers'', TriggersSpec_type)]"

definition CheckpointScheduleSpec_DeepCopyInto :: "Vendor \<Rightarrow> copier" where
  "CheckpointScheduleSpec_DeepCopyInto V =
     struct_into [(''Selector'', cLabelSelector V), (''ContainerNames'', make_copy),
                 (''Triggers'', TriggersSpec_DeepCopyInto)]"

definition CheckpointScheduleSpec_DeepCopy :: "Vendor \<Rightarrow> copier" where
  "CheckpointScheduleSpec_DeepCopy V = new_into (CheckpointScheduleSpec_DeepCopyInto V)"

definition CheckpointScheduleStatus_type :: "Vendor \<Rightarrow> ty" where
  "CheckpointScheduleStatus_type V =
     TStruct [(''Conditions'', TSlice (tCondition V)), (''LastCheckpointTime'', TPtr (tTime V)),
             (''CheckpointsCreated'', TWord)]"

definition CheckpointScheduleStatus_DeepCopyInto :: "Vendor \<Rightarrow> copier" where
  "CheckpointScheduleStatus_DeepCopyInto V =
     struct_into [(''Conditions'', make_each (cCondition V)), (''LastCheckpointTime'', cTimePtr V)]"

definition CheckpointScheduleStatus_DeepCopy :: "Vendor \<Rightarrow> copier" where
  "CheckpointScheduleStatus_DeepCopy V = new_into (CheckpointScheduleStatus_DeepCopyInto V)"

definition CheckpointSchedule_type :: "Vendor \<Rightarrow> ty" where
  "CheckpointSchedule_type V =
     TStruct [(''TypeMeta'', TypeMeta_type), (''ObjectMeta'', tObjectMeta V),
             (''Spec'', CheckpointScheduleSpec_type V), (''Status'', CheckpointScheduleStatus_type V)]"

definition CheckpointSchedule_DeepCopyInto :: "Vendor \<Rightarrow> copier" where
  "CheckpointSchedule_DeepCopyInto V =
     struct_into [(''TypeMeta'', assign), (''ObjectMeta'', cObjectMeta V),
                 (''Spec'', CheckpointScheduleSpec_DeepCopyInto V),
                 (''Status'', CheckpointScheduleStatus_DeepCopyInto V)]"

definition CheckpointSchedule_DeepCopy :: "Vendor \<Rightarrow> copier" where
  "CheckpointSchedule_DeepCopy V = new_into (CheckpointSchedule_DeepCopyInto V)"

definition CheckpointSchedule_DeepCopyObject :: "Vendor \<Rightarrow> copier" where
  "CheckpointSchedule_DeepCopyObject V = object_of (CheckpointSchedule_DeepCopy V)"

definition CheckpointScheduleList_type :: "Vendor \<Rightarrow> ty" where
  "CheckpointScheduleList_type V =
     TStruct [(''TypeMeta'', TypeMeta_type), (''ListMeta'', tListMeta V),
             (''Items'', TSlice (CheckpointSchedule_type V))]"

definition CheckpointScheduleList_DeepCopyInto :: "Vendor \<Rightarrow> copier" where
  "CheckpointScheduleList_DeepCopyInto V =
     struct_into [(''TypeMeta'', assign), (''ListMeta'', cListMeta V),
                 (''Items'', make_each (CheckpointSchedule_DeepCopyInto V))]"

definition CheckpointScheduleList_DeepCopy :: "Vendor \<Rightarrow> copier" where
  "CheckpointScheduleList_DeepCopy V = new_into (CheckpointScheduleList_DeepCopyInto V)"

definition CheckpointScheduleList_DeepCopyObject :: "Vendor \<Rightarrow> copier" where
  "CheckpointScheduleList_DeepCopyObject V = object_of (CheckpointScheduleList_DeepCopy V)"

definition GlobalPolicySpec_type :: "Vendor \<Rightarrow> ty" where
  "GlobalPolicySpec_type V =
     TStruct [(''RetainOrphan'', TPtr TWord), (''MaxCheckpointsPerNamespaces'', TPtr TWord),
             (''MaxCheckpointsPerPod'', TPtr TWord), (''MaxCheckpointsPerContainer'', TPtr TWord),
             (''MaxCheckpointSize'', TPtr (tQuantity V)), (''MaxTotalSizePerNamespace'', TPtr (tQuantity V)),
             (''MaxTotalSizePerPod'', TPtr (tQuantity V)), (''MaxTotalSizePerContainer'', TPtr (tQuantity V))]"

definition GlobalPolicySpec_DeepCopyInto :: "Vendor \<Rightarrow> copier" where
  "GlobalPolicySpec_DeepCopyInto V =
     struct_into [(''RetainOrphan'', new_value), (''MaxCheckpointsPerNamespaces'', new_value),
                 (''MaxCheckpointsPerPod'', new_value), (''MaxCheckpointsPerContainer'', new_value),
                 (''MaxCheckpointSize'', address_of_copy (cQuantity V)),
                 (''MaxTotalSizePerNamespace'', address_of_copy (cQuantity V)),
                 (''MaxTotalSizePerPod'', address_of_copy (cQuantity V)),
                 (''MaxTotalSizePerContainer'', address_of_copy (cQuantity V))]"

definition GlobalPolicySpec_DeepCopy :: "Vendor \<Rightarrow> copier" where
  "GlobalPolicySpec_DeepCopy V = new_into (GlobalPolicySpec_DeepCopyInto V)"

definition ContainerPolicySpec_type :: "Vendor \<Rightarrow> ty" where
  "ContainerPolicySpec_type V =
     TStruct [(''Namespace'', TWord), (''Pod'', TWord), (''Container'', TWord), (''RetainOrphan'', TPtr TWord),
             (''MaxCheckpoints'', TPtr TWord), (''MaxCheckpointSize'', TPtr (tQuantity V)),
             (''MaxTotalSize'', TPtr (tQuantity V))]"

definition ContainerPolicySpec_DeepCopyInto :: "Vendor \<Rightarrow> copier" where
  "ContainerPolicySpec_DeepCopyInto V =
     struct_into [(''RetainOrphan'', new_value), (''MaxCheckpoints'', new_value),
                 (''MaxCheckpointSize'', address_of_copy (cQuantity V)),
                 (''MaxTotalSize'', address_of_copy (cQuantity V))]"

definition ContainerPolicySpec_DeepCopy :: "Vendor \<Rightarrow> copier" where
  "ContainerPolicySpec_DeepCopy V = new_into (ContainerPolicySpec_DeepCopyInto V)"

definition PodPolicySpec_type :: "Vendor \<Rightarrow> ty" where
  "PodPolicySpec_type V =
     TStruct [(''Namespace'', TWord), (''Pod'', TWord), (''RetainOrphan'', TPtr TWord),
             (''MaxCheckpoints'', TPtr TWord), (''MaxCheckpointSize'', TPtr (tQuantity V)),
             (''MaxTotalSize'', TPtr (tQuantity V))]"

definition PodPolicySpec_DeepCopyInto :: "Vendor \<Rightarrow> copier" where
  "PodPolicySpec_DeepCopyInto V =
     struct_into [(''RetainOrphan'', new_value), (''MaxCheckpoints'', new_value),
                 (''MaxCheckpointSize'', address_of_copy (cQuantity V)),
                 (''MaxTotalSize'', address_of_copy (cQuantity V))]"

definition PodPolicySpec_DeepCopy :: "Vendor \<Rightarrow> copier" where
  "PodPolicySpec_DeepCopy V = new_into (PodPolicySpec_DeepCopyInto V)"

definition NamespacePolicySpec_type :: "Vendor \<Rightarrow> ty" where
  "NamespacePolicySpec_type V =
     TStruct [(''Namespace'', TWord), (''RetainOrphan'', TPtr TWord), (''MaxCheckpoints'', TPtr TWord),
             (''MaxCheckpointSize'', TPtr (tQuantity V)), (''MaxTotalSize'', TPtr (tQuantity V))]"

definition NamespacePolicySpec_DeepCopyInto :: "Vendor \<Rightarrow> copier" where
  "NamespacePolicySpec_DeepCopyInto V =
     struct_into [(''RetainOrphan'', new_value), (''MaxCheckpoints'', new_value),
                 (''MaxCheckpointSize'', address_of_copy (cQuantity V)),
                 (''MaxTotalSize'', address_of_copy (cQuantity V))]"

definition NamespacePolicySpec_DeepCopy :: "Vendor \<Rightarrow> copier" where
  "NamespacePolicySpec_DeepCopy V = new_into (NamespacePolicySpec_DeepCopyInto V)"

definition CheckpointRestoreOperatorSpec_type :: "Vendor \<Rightarrow> ty" where
  "CheckpointRestoreOperatorSpec_type V =
     TStruct [(''CheckpointDirectory'', TWord), (''ApplyPoliciesImmediately'', TWord),
             (''GlobalPolicies'', GlobalPolicySpec_type V),
             (''ContainerPolicies'', TSlice (ContainerPolicySpec_type V)),
             (''PodPolicies'', TSlice (PodPolicySpec_type V)),
             (''NamespacePolicies'', TSlice (NamespacePolicySpec_type V))]"

definition CheckpointRestoreOperatorSpec_DeepCopyInto :: "Vendor \<Rightarrow> copier" where
  "CheckpointRestoreOperatorSpec_DeepCopyInto V =
     struct_into [(''GlobalPolicies'', GlobalPolicySpec_DeepCopyInto V),
                 (''ContainerPolicies'', make_each (ContainerPolicySpec_DeepCopyInto V)),
                 (''PodPolicies'', make_each (PodPolicySpec_DeepCopyInto V)),
                 (''NamespacePolicies'', make_each (NamespacePolicySpec_DeepCopyInto V))]"

definition CheckpointRestoreOperatorSpec_DeepCopy :: "Vendor \<Rightarrow> copier" where
  "CheckpointRestoreOperatorSpec_DeepCopy V = new_into (CheckpointRestoreOperatorSpec_DeepCopyInto V)"

definition CheckpointRestoreOperatorStatus_type :: ty where
  "CheckpointRestoreOperatorStatus_type = TStruct []"

definition CheckpointRestoreOperatorStatus_DeepCopyInto :: copier where
  "CheckpointRestoreOperatorStatus_DeepCopyInto = struct_into []"

definition CheckpointRestoreOperatorStatus_DeepCopy :: "copier" where
  "CheckpointRestoreOperatorStatus_DeepCopy = new_into CheckpointRestoreOperatorStatus_DeepCopyInto"

definition CheckpointRestoreOperator_type :: "Vendor \<Rightarrow> ty" where
  "CheckpointRestoreOperator_type V =
     TStruct [(''TypeMeta'', TypeMeta_type), (''ObjectMeta'', tObjectMeta V),
             (''Spec'', CheckpointRestoreOperatorSpec_type V), (''Status'', CheckpointRestoreOperatorStatus_type)]"

definition CheckpointRestoreOperator_DeepCopyInto :: "Vendor \<Rightarrow> copier" where
  "CheckpointRestoreOperator_DeepCopyInto V =
     struct_into [(''TypeMeta'', assign), (''ObjectMeta'', cObjectMeta V),
                 (''Spec'', CheckpointRestoreOperatorSpec_DeepCopyInto V), (''Status'', assign)]"

definition CheckpointRestoreOperator_DeepCopy :: "Vendor \<Rightarrow> copier" where
  "CheckpointRestoreOperator_DeepCopy V = new_into (CheckpointRestoreOperator_DeepCopyInto V)"

definition CheckpointRestoreOperator_DeepCopyObject :: "Vendor \<Rightarrow> copier" where
  "CheckpointRestoreOperator_DeepCopyObject V = object_of (CheckpointRestoreOperator_DeepCopy V)"

definition CheckpointRestoreOperatorList_type :: "Vendor \<Rightarrow> ty" where
  "CheckpointRestoreOperatorList_type V =
     TStruct [(''TypeMeta'', TypeMeta_type), (''ListMeta'', tListMeta V),
             (''Items'', TSlice (CheckpointRestoreOperator_type V))]"

definition CheckpointRestoreOperatorList_DeepCopyInto :: "Vendor \<Rightarrow> copier" where
  "CheckpointRestoreOperatorList_DeepCopyInto V =
     struct_into [(''TypeMeta'', assign), (''ListMeta'', cListMeta V),
                 (''Items'', make_each (CheckpointRestoreOperator_DeepCopyInto V))]"

definition CheckpointRestoreOperatorList_DeepCopy :: "Vendor \<Rightarrow> copier" where
  "CheckpointRestoreOperatorList_DeepCopy V = new_into (CheckpointRestoreOperatorList_DeepCopyInto V)"

definition CheckpointRestoreOperatorList_DeepCopyObject :: "Vendor \<Rightarrow> copier" where
  "CheckpointRestoreOperatorList_DeepCopyObject V = object_of (CheckpointRestoreOperatorList_DeepCopy V)"

definition CaptureSpec_type :: "ty" where
  "CaptureSpec_type =
     TStruct [(''Interval'', TPtr TWord), (''MaxSnapshots'', TPtr TWord), (''MaxDuration'', TPtr TWord)]"

definition CaptureSpec_DeepCopyInto :: "copier" where
  "CaptureSpec_DeepCopyInto =
     struct_into [(''Interval'', new_value), (''MaxSnapshots'', new_value), (''MaxDuration'', new_value)]"

definition CaptureSpec_DeepCopy :: "copier" where
  "CaptureSpec_DeepCopy = new_into CaptureSpec_DeepCopyInto"

definition IntegritySpec_type :: "ty" where
  "IntegritySpec_type =
     TStruct [(''HashAlgorithm'', TWord)]"

definition IntegritySpec_DeepCopyInto :: copier where
  "IntegritySpec_DeepCopyInto = struct_into []"

definition IntegritySpec_DeepCopy :: "copier" where
  "IntegritySpec_DeepCopy = new_into IntegritySpec_DeepCopyInto"

definition SnapshotChainRecord_type :: "Vendor \<Rightarrow> ty" where
  "SnapshotChainRecord_type V =
     TStruct [(''Index'', TWord), (''PodName'', TWord), (''ContainerName'', TWord), (''CheckpointPath'', TWord),
             (''SnapshotTime'', tTime V), (''SHA256Hash'', TWord), (''PreviousSHA256Hash'', TWord)]"

definition SnapshotChainRecord_DeepCopyInto :: "Vendor \<Rightarrow> copier" where
  "SnapshotChainRecord_DeepCopyInto V =
     struct_into [(''SnapshotTime'', cTime V)]"

definition SnapshotChainRecord_DeepCopy :: "Vendor \<Rightarrow> copier" where
  "SnapshotChainRecord_DeepCopy V = new_into (SnapshotChainRecord_DeepCopyInto V)"

definition ForensicSnapshotChainSpec_type :: "Vendor \<Rightarrow> ty" where
  "ForensicSnapshotChainSpec_type V =
     TStruct [(''Namespace'', TWord), (''Selector'', tLabelSelector V), (''ContainerNames'', TSlice TWord),
             (''Capture'', CaptureSpec_type), (''Integrity'', IntegritySpec_type), (''PostSnapshotAction'', TWord)]"

definition ForensicSnapshotChainSpec_DeepCopyInto :: "Vendor \<Rightarrow> copier" where
  "ForensicSnapshotChainSpec_DeepCopyInto V =
     struct_into [(''Selector'', cLabelSelector V), (''ContainerNames'', make_copy),
                 (''Capture'', CaptureSpec_DeepCopyInto), (''Integrity'', assign)]"

definition ForensicSnapshotChainSpec_DeepCopy :: "Vendor \<Rightarrow> copier" where
  "ForensicSnapshotChainSpec_DeepCopy V = new_into (ForensicSnapshotChainSpec_DeepCopyInto V)"

definition ForensicSnapshotChainStatus_type :: "Vendor \<Rightarrow> ty" where
  "ForensicSnapshotChainStatus_type V =
     TStruct [(''Conditions'', TSlice (tCondition V)), (''Phase'', TWord), (''SnapshotCount'', TWord),
             (''AttemptCount'', TWord), (''FailureCount'', TWord), (''StartTime'', TPtr (tTime V)),
             (''LastSnapshotTime'', TPtr (tTime V)), (''CompletionTime'', TPtr (tTime V)),
             (''ErrorMessage'', TWord), (''ObservedGeneration'', TWord),
             (''SnapshotChainRecords'', TSlice (SnapshotChainRecord_type V))]"

definition ForensicSnapshotChainStatus_DeepCopyInto :: "Vendor \<Rightarrow> copier" where
  "ForensicSnapshotChainStatus_DeepCopyInto V =
     struct_into [(''Conditions'', make_each (cCondition V)), (''StartTime'', cTimePtr V),
                 (''LastSnapshotTime'', cTimePtr V), (''CompletionTime'', cTimePtr V),
                 (''SnapshotChainRecords'', make_each (SnapshotChainRecord_DeepCopyInto V))]"

definition ForensicSnapshotChainStatus_DeepCopy :: "Vendor \<Rightarrow> copier" where
  "ForensicSnapshotChainStatus_DeepCopy V = new_into (ForensicSnapshotChainStatus_DeepCopyInto V)"

definition ForensicSnapshotChain_type :: "Vendor \<Rightarrow> ty" where
  "ForensicSnapshotChain_type V =
     TStruct [(''TypeMeta'', TypeMeta_type), (''ObjectMeta'', tObjectMeta V),
             (''Spec'', ForensicSnapshotChainSpec_type V), (''Status'', ForensicSnapshotChainStatus_type V)]"

definition ForensicSnapshotChain_DeepCopyInto :: "Vendor \<Rightarrow> copier" where
  "ForensicSnapshotChain_DeepCopyInto V =
     struct_into [(''TypeMeta'', assign), (''ObjectMeta'', cObjectMeta V),
                 (''Spec'', ForensicSnapshotChainSpec_DeepCopyInto V),
                 (''Status'', ForensicSnapshotChainStatus_DeepCopyInto V)]"

definition ForensicSnapshotChain_DeepCopy :: "Vendor \<Rightarrow> copier" where
  "ForensicSnapshotChain_DeepCopy V = new_into (ForensicSnapshotChain_DeepCopyInto V)"

definition ForensicSnapshotChain_DeepCopyObject :: "Vendor \<Rightarrow> copier" where
  "ForensicSnapshotChain_DeepCopyObject V = object_of (ForensicSnapshotChain_DeepCopy V)"

definition ForensicSnapshotChainList_type :: "Vendor \<Rightarrow> ty" where
  "ForensicSnapshotChainList_type V =
     TStruct [(''TypeMeta'', TypeMeta_type), (''ListMeta'', tListMeta V),
             (''Items'', TSlice (ForensicSnapshotChain_type V))]"

definition ForensicSnapshotChainList_DeepCopyInto :: "Vendor \<Rightarrow> copier" where
  "ForensicSnapshotChainList_DeepCopyInto V =
     struct_into [(''TypeMeta'', assign), (''ListMeta'', cListMeta V),
                 (''Items'', make_each (ForensicSnapshotChain_DeepCopyInto V))]"

definition ForensicSnapshotChainList_DeepCopy :: "Vendor \<Rightarrow> copier" where
  "ForensicSnapshotChainList_DeepCopy V = new_into (ForensicSnapshotChainList_DeepCopyInto V)"

definition ForensicSnapshotChainList_DeepCopyObject :: "Vendor \<Rightarrow> copier" where
  "ForensicSnapshotChainList_DeepCopyObject V = object_of (ForensicSnapshotChainList_DeepCopy V)"

definition ContainerCheckpoint_type :: "ty" where
  "ContainerCheckpoint_type =
     TStruct [(''Container'', TWord), (''Path'', TWord)]"

definition ContainerCheckpoint_DeepCopyInto :: copier where
  "ContainerCheckpoint_DeepCopyInto = struct_into []"

definition ContainerCheckpoint_DeepCopy :: "copier" where
  "ContainerCheckpoint_DeepCopy = new_into ContainerCheckpoint_DeepCopyInto"

definition PodRestoreSpec_type :: "Vendor \<Rightarrow> ty" where
  "PodRestoreSpec_type V =
     TStruct [(''TargetNode'', TWord), (''Checkpoints'', TSlice ContainerCheckpoint_type),
             (''Template'', tPodTemplateSpec V)]"

definition PodRestoreSpec_DeepCopyInto :: "Vendor \<Rightarrow> copier" where
  "PodRestoreSpec_DeepCopyInto V =
     struct_into [(''Checkpoints'', make_copy), (''Template'', cPodTemplateSpec V)]"

definition PodRestoreSpec_DeepCopy :: "Vendor \<Rightarrow> copier" where
  "PodRestoreSpec_DeepCopy V = new_into (PodRestoreSpec_DeepCopyInto V)"

definition PodRestoreStatus_type :: "Vendor \<Rightarrow> ty" where
  "PodRestoreStatus_type V =
     TStruct [(''Conditions'', TSlice (tCondition V)), (''PodName'', TWord), (''ObservedGeneration'', TWord)]"

definition PodRestoreStatus_DeepCopyInto :: "Vendor \<Rightarrow> copier" where
  "PodRestoreStatus_DeepCopyInto V =
     struct_into [(''Conditions'', make_each (cCondition V))]"

definition PodRestoreStatus_DeepCopy :: "Vendor \<Rightarrow> copier" where
  "PodRestoreStatus_DeepCopy V = new_into (PodRestoreStatus_DeepCopyInto V)"

definition PodRestore_type :: "Vendor \<Rightarrow> ty" where
  "PodRestore_type V =
     TStruct [(''TypeMeta'', TypeMeta_type), (''ObjectMeta'', tObjectMeta V), (''Spec'', PodRestoreSpec_type V),
             (''Status'', PodRestoreStatus_type V)]"

definition PodRestore_DeepCopyInto :: "Vendor \<Rightarrow> copier" where
  "PodRestore_DeepCopyInto V =
     struct_into [(''TypeMeta'', assign), (''ObjectMeta'', cObjectMeta V), (''Spec'', PodRestoreSpec_DeepCopyInto V),
                 (''Status'', PodRestoreStatus_DeepCopyInto V)]"

definition PodRestore_DeepCopy :: "Vendor \<Rightarrow> copier" where
  "PodRestore_DeepCopy V = new_into (PodRestore_DeepCopyInto V)"

definition PodRestore_DeepCopyObject :: "Vendor \<Rightarrow> copier" where
  "PodRestore_DeepCopyObject V = object_of (PodRestore_DeepCopy V)"

definition PodRestoreList_type :: "Vendor \<Rightarrow> ty" where
  "PodRestoreList_type V =
     TStruct [(''TypeMeta'', TypeMeta_type), (''ListMeta'', tListMeta V), (''Items'', TSlice (PodRestore_type V))]"

definition PodRestoreList_DeepCopyInto :: "Vendor \<Rightarrow> copier" where
  "PodRestoreList_DeepCopyInto V =
     struct_into [(''TypeMeta'', assign), (''ListMeta'', cListMeta V),
                 (''Items'', make_each (PodRestore_DeepCopyInto V))]"

definition PodRestoreList_DeepCopy :: "Vendor \<Rightarrow> copier" where
  "PodRestoreList_DeepCopy V = new_into (PodRestoreList_DeepCopyInto V)"

definition PodRestoreList_DeepCopyObject :: "Vendor \<Rightarrow> copier" where
  "PodRestoreList_DeepCopyObject V = object_of (PodRestoreList_DeepCopy V)"

text \<open>All of them, with the types they copy.\<close>

definition generated :: "Vendor \<Rightarrow> (string \<times> ty \<times> copier) list" where
  "generated V =
     [(''ResourcePercentThreshold.DeepCopyInto'', ResourcePercentThreshold_type, ResourcePercentThreshold_DeepCopyInto),
      (''ResourcePercentThreshold.DeepCopy'', TPtr ResourcePercentThreshold_type, ResourcePercentThreshold_DeepCopy),
      (''ResourceThresholdSpec.DeepCopyInto'', ResourceThresholdSpec_type, ResourceThresholdSpec_DeepCopyInto),
      (''ResourceThresholdSpec.DeepCopy'', TPtr ResourceThresholdSpec_type, ResourceThresholdSpec_DeepCopy),
      (''TriggersSpec.DeepCopyInto'', TriggersSpec_type, TriggersSpec_DeepCopyInto),
      (''TriggersSpec.DeepCopy'', TPtr TriggersSpec_type, TriggersSpec_DeepCopy),
      (''CheckpointScheduleSpec.DeepCopyInto'', CheckpointScheduleSpec_type V, CheckpointScheduleSpec_DeepCopyInto V),
      (''CheckpointScheduleSpec.DeepCopy'', TPtr (CheckpointScheduleSpec_type V), CheckpointScheduleSpec_DeepCopy V),
      (''CheckpointScheduleStatus.DeepCopyInto'', CheckpointScheduleStatus_type V, CheckpointScheduleStatus_DeepCopyInto V),
      (''CheckpointScheduleStatus.DeepCopy'', TPtr (CheckpointScheduleStatus_type V), CheckpointScheduleStatus_DeepCopy V),
      (''CheckpointSchedule.DeepCopyInto'', CheckpointSchedule_type V, CheckpointSchedule_DeepCopyInto V),
      (''CheckpointSchedule.DeepCopy'', TPtr (CheckpointSchedule_type V), CheckpointSchedule_DeepCopy V),
      (''CheckpointSchedule.DeepCopyObject'', TPtr (CheckpointSchedule_type V), CheckpointSchedule_DeepCopyObject V),
      (''CheckpointScheduleList.DeepCopyInto'', CheckpointScheduleList_type V, CheckpointScheduleList_DeepCopyInto V),
      (''CheckpointScheduleList.DeepCopy'', TPtr (CheckpointScheduleList_type V), CheckpointScheduleList_DeepCopy V),
      (''CheckpointScheduleList.DeepCopyObject'', TPtr (CheckpointScheduleList_type V), CheckpointScheduleList_DeepCopyObject V),
      (''GlobalPolicySpec.DeepCopyInto'', GlobalPolicySpec_type V, GlobalPolicySpec_DeepCopyInto V),
      (''GlobalPolicySpec.DeepCopy'', TPtr (GlobalPolicySpec_type V), GlobalPolicySpec_DeepCopy V),
      (''ContainerPolicySpec.DeepCopyInto'', ContainerPolicySpec_type V, ContainerPolicySpec_DeepCopyInto V),
      (''ContainerPolicySpec.DeepCopy'', TPtr (ContainerPolicySpec_type V), ContainerPolicySpec_DeepCopy V),
      (''PodPolicySpec.DeepCopyInto'', PodPolicySpec_type V, PodPolicySpec_DeepCopyInto V),
      (''PodPolicySpec.DeepCopy'', TPtr (PodPolicySpec_type V), PodPolicySpec_DeepCopy V),
      (''NamespacePolicySpec.DeepCopyInto'', NamespacePolicySpec_type V, NamespacePolicySpec_DeepCopyInto V),
      (''NamespacePolicySpec.DeepCopy'', TPtr (NamespacePolicySpec_type V), NamespacePolicySpec_DeepCopy V),
      (''CheckpointRestoreOperatorSpec.DeepCopyInto'', CheckpointRestoreOperatorSpec_type V, CheckpointRestoreOperatorSpec_DeepCopyInto V),
      (''CheckpointRestoreOperatorSpec.DeepCopy'', TPtr (CheckpointRestoreOperatorSpec_type V), CheckpointRestoreOperatorSpec_DeepCopy V),
      (''CheckpointRestoreOperatorStatus.DeepCopyInto'', CheckpointRestoreOperatorStatus_type, CheckpointRestoreOperatorStatus_DeepCopyInto),
      (''CheckpointRestoreOperatorStatus.DeepCopy'', TPtr CheckpointRestoreOperatorStatus_type, CheckpointRestoreOperatorStatus_DeepCopy),
      (''CheckpointRestoreOperator.DeepCopyInto'', CheckpointRestoreOperator_type V, CheckpointRestoreOperator_DeepCopyInto V),
      (''CheckpointRestoreOperator.DeepCopy'', TPtr (CheckpointRestoreOperator_type V), CheckpointRestoreOperator_DeepCopy V),
      (''CheckpointRestoreOperator.DeepCopyObject'', TPtr (CheckpointRestoreOperator_type V), CheckpointRestoreOperator_DeepCopyObject V),
      (''CheckpointRestoreOperatorList.DeepCopyInto'', CheckpointRestoreOperatorList_type V, CheckpointRestoreOperatorList_DeepCopyInto V),
      (''CheckpointRestoreOperatorList.DeepCopy'', TPtr (CheckpointRestoreOperatorList_type V), CheckpointRestoreOperatorList_DeepCopy V),
      (''CheckpointRestoreOperatorList.DeepCopyObject'', TPtr (CheckpointRestoreOperatorList_type V), CheckpointRestoreOperatorList_DeepCopyObject V),
      (''CaptureSpec.DeepCopyInto'', CaptureSpec_type, CaptureSpec_DeepCopyInto),
      (''CaptureSpec.DeepCopy'', TPtr CaptureSpec_type, CaptureSpec_DeepCopy),
      (''IntegritySpec.DeepCopyInto'', IntegritySpec_type, IntegritySpec_DeepCopyInto),
      (''IntegritySpec.DeepCopy'', TPtr IntegritySpec_type, IntegritySpec_DeepCopy),
      (''SnapshotChainRecord.DeepCopyInto'', SnapshotChainRecord_type V, SnapshotChainRecord_DeepCopyInto V),
      (''SnapshotChainRecord.DeepCopy'', TPtr (SnapshotChainRecord_type V), SnapshotChainRecord_DeepCopy V),
      (''ForensicSnapshotChainSpec.DeepCopyInto'', ForensicSnapshotChainSpec_type V, ForensicSnapshotChainSpec_DeepCopyInto V),
      (''ForensicSnapshotChainSpec.DeepCopy'', TPtr (ForensicSnapshotChainSpec_type V), ForensicSnapshotChainSpec_DeepCopy V),
      (''ForensicSnapshotChainStatus.DeepCopyInto'', ForensicSnapshotChainStatus_type V, ForensicSnapshotChainStatus_DeepCopyInto V),
      (''ForensicSnapshotChainStatus.DeepCopy'', TPtr (ForensicSnapshotChainStatus_type V), ForensicSnapshotChainStatus_DeepCopy V),
      (''ForensicSnapshotChain.DeepCopyInto'', ForensicSnapshotChain_type V, ForensicSnapshotChain_DeepCopyInto V),
      (''ForensicSnapshotChain.DeepCopy'', TPtr (ForensicSnapshotChain_type V), ForensicSnapshotChain_DeepCopy V),
      (''ForensicSnapshotChain.DeepCopyObject'', TPtr (ForensicSnapshotChain_type V), ForensicSnapshotChain_DeepCopyObject V),
      (''ForensicSnapshotChainList.DeepCopyInto'', ForensicSnapshotChainList_type V, ForensicSnapshotChainList_DeepCopyInto V),
      (''ForensicSnapshotChainList.DeepCopy'', TPtr (ForensicSnapshotChainList_type V), ForensicSnapshotChainList_DeepCopy V),
      (''ForensicSnapshotChainList.DeepCopyObject'', TPtr (ForensicSnapshotChainList_type V), ForensicSnapshotChainList_DeepCopyObject V),
      (''ContainerCheckpoint.DeepCopyInto'', ContainerCheckpoint_type, ContainerCheckpoint_DeepCopyInto),
      (''ContainerCheckpoint.DeepCopy'', TPtr ContainerCheckpoint_type, ContainerCheckpoint_DeepCopy),
      (''PodRestoreSpec.DeepCopyInto'', PodRestoreSpec_type V, PodRestoreSpec_DeepCopyInto V),
      (''PodRestoreSpec.DeepCopy'', TPtr (PodRestoreSpec_type V), PodRestoreSpec_DeepCopy V),
      (''PodRestoreStatus.DeepCopyInto'', PodRestoreStatus_type V, PodRestoreStatus_DeepCopyInto V),
      (''PodRestoreStatus.DeepCopy'', TPtr (PodRestoreStatus_type V), PodRestoreStatus_DeepCopy V),
      (''PodRestore.DeepCopyInto'', PodRestore_type V, PodRestore_DeepCopyInto V),
      (''PodRestore.DeepCopy'', TPtr (PodRestore_type V), PodRestore_DeepCopy V),
      (''PodRestore.DeepCopyObject'', TPtr (PodRestore_type V), PodRestore_DeepCopyObject V),
      (''PodRestoreList.DeepCopyInto'', PodRestoreList_type V, PodRestoreList_DeepCopyInto V),
      (''PodRestoreList.DeepCopy'', TPtr (PodRestoreList_type V), PodRestoreList_DeepCopy V),
      (''PodRestoreList.DeepCopyObject'', TPtr (PodRestoreList_type V), PodRestoreList_DeepCopyObject V)]"

section \<open>Every generated function is a deep copy\<close>

named_theorems copies \<open>functions that meet the contract of a deep copy\<close>

declare assign_copies [copies] new_value_copies [copies] make_copy_copies [copies] new_into_copies [copies]
  address_of_copy_copies [copies] make_each_copies [copies]

lemma object_of_eq: "object_of c = c"
  by (auto simp: object_of_def fun_eq_iff split: prod.split)

lemmas flat_types = TypeMeta_type_def CheckpointRestoreOperatorStatus_type_def IntegritySpec_type_def ContainerCheckpoint_type_def

locale vendor =
  fixes V :: Vendor
  assumes vendor_copies [copies]: "deep_copy (tObjectMeta V) (cObjectMeta V)" "deep_copy (tListMeta V) (cListMeta V)"
    "deep_copy (tLabelSelector V) (cLabelSelector V)" "deep_copy (tCondition V) (cCondition V)"
    "deep_copy (tPodTemplateSpec V) (cPodTemplateSpec V)" "deep_copy (tQuantity V) (cQuantity V)"
    "deep_copy (tTime V) (cTime V)" "deep_copy (TPtr (tTime V)) (cTimePtr V)"
begin

lemma ResourcePercentThreshold_copies: "deep_copy ResourcePercentThreshold_type ResourcePercentThreshold_DeepCopyInto"
  unfolding ResourcePercentThreshold_type_def ResourcePercentThreshold_DeepCopyInto_def
  by (rule struct_into_copies) (auto simp: flat_types intro: copies)

declare ResourcePercentThreshold_copies [copies]

lemma ResourceThresholdSpec_copies: "deep_copy ResourceThresholdSpec_type ResourceThresholdSpec_DeepCopyInto"
  unfolding ResourceThresholdSpec_type_def ResourceThresholdSpec_DeepCopyInto_def
  by (rule struct_into_copies) (auto simp: flat_types intro: copies)

declare ResourceThresholdSpec_copies [copies]

lemma TriggersSpec_copies: "deep_copy TriggersSpec_type TriggersSpec_DeepCopyInto"
  unfolding TriggersSpec_type_def TriggersSpec_DeepCopyInto_def
  by (rule struct_into_copies) (auto simp: flat_types intro: copies)

declare TriggersSpec_copies [copies]

lemma CheckpointScheduleSpec_copies: "deep_copy (CheckpointScheduleSpec_type V) (CheckpointScheduleSpec_DeepCopyInto V)"
  unfolding CheckpointScheduleSpec_type_def CheckpointScheduleSpec_DeepCopyInto_def
  by (rule struct_into_copies) (auto simp: flat_types intro: copies)

declare CheckpointScheduleSpec_copies [copies]

lemma CheckpointScheduleStatus_copies: "deep_copy (CheckpointScheduleStatus_type V) (CheckpointScheduleStatus_DeepCopyInto V)"
  unfolding CheckpointScheduleStatus_type_def CheckpointScheduleStatus_DeepCopyInto_def
  by (rule struct_into_copies) (auto simp: flat_types intro: copies)

declare CheckpointScheduleStatus_copies [copies]

lemma CheckpointSchedule_copies: "deep_copy (CheckpointSchedule_type V) (CheckpointSchedule_DeepCopyInto V)"
  unfolding CheckpointSchedule_type_def CheckpointSchedule_DeepCopyInto_def
  by (rule struct_into_copies) (auto simp: flat_types intro: copies)

declare CheckpointSchedule_copies [copies]

lemma CheckpointScheduleList_copies: "deep_copy (CheckpointScheduleList_type V) (CheckpointScheduleList_DeepCopyInto V)"
  unfolding CheckpointScheduleList_type_def CheckpointScheduleList_DeepCopyInto_def
  by (rule struct_into_copies) (auto simp: flat_types intro: copies)

declare CheckpointScheduleList_copies [copies]

lemma GlobalPolicySpec_copies: "deep_copy (GlobalPolicySpec_type V) (GlobalPolicySpec_DeepCopyInto V)"
  unfolding GlobalPolicySpec_type_def GlobalPolicySpec_DeepCopyInto_def
  by (rule struct_into_copies) (auto simp: flat_types intro: copies)

declare GlobalPolicySpec_copies [copies]

lemma ContainerPolicySpec_copies: "deep_copy (ContainerPolicySpec_type V) (ContainerPolicySpec_DeepCopyInto V)"
  unfolding ContainerPolicySpec_type_def ContainerPolicySpec_DeepCopyInto_def
  by (rule struct_into_copies) (auto simp: flat_types intro: copies)

declare ContainerPolicySpec_copies [copies]

lemma PodPolicySpec_copies: "deep_copy (PodPolicySpec_type V) (PodPolicySpec_DeepCopyInto V)"
  unfolding PodPolicySpec_type_def PodPolicySpec_DeepCopyInto_def
  by (rule struct_into_copies) (auto simp: flat_types intro: copies)

declare PodPolicySpec_copies [copies]

lemma NamespacePolicySpec_copies: "deep_copy (NamespacePolicySpec_type V) (NamespacePolicySpec_DeepCopyInto V)"
  unfolding NamespacePolicySpec_type_def NamespacePolicySpec_DeepCopyInto_def
  by (rule struct_into_copies) (auto simp: flat_types intro: copies)

declare NamespacePolicySpec_copies [copies]

lemma CheckpointRestoreOperatorSpec_copies: "deep_copy (CheckpointRestoreOperatorSpec_type V) (CheckpointRestoreOperatorSpec_DeepCopyInto V)"
  unfolding CheckpointRestoreOperatorSpec_type_def CheckpointRestoreOperatorSpec_DeepCopyInto_def
  by (rule struct_into_copies) (auto simp: flat_types intro: copies)

declare CheckpointRestoreOperatorSpec_copies [copies]

lemma CheckpointRestoreOperatorStatus_copies: "deep_copy CheckpointRestoreOperatorStatus_type CheckpointRestoreOperatorStatus_DeepCopyInto"
  unfolding CheckpointRestoreOperatorStatus_type_def CheckpointRestoreOperatorStatus_DeepCopyInto_def
  by (rule struct_into_copies) (auto simp: flat_types intro: copies)

declare CheckpointRestoreOperatorStatus_copies [copies]

lemma CheckpointRestoreOperator_copies: "deep_copy (CheckpointRestoreOperator_type V) (CheckpointRestoreOperator_DeepCopyInto V)"
  unfolding CheckpointRestoreOperator_type_def CheckpointRestoreOperator_DeepCopyInto_def
  by (rule struct_into_copies) (auto simp: flat_types intro: copies)

declare CheckpointRestoreOperator_copies [copies]

lemma CheckpointRestoreOperatorList_copies: "deep_copy (CheckpointRestoreOperatorList_type V) (CheckpointRestoreOperatorList_DeepCopyInto V)"
  unfolding CheckpointRestoreOperatorList_type_def CheckpointRestoreOperatorList_DeepCopyInto_def
  by (rule struct_into_copies) (auto simp: flat_types intro: copies)

declare CheckpointRestoreOperatorList_copies [copies]

lemma CaptureSpec_copies: "deep_copy CaptureSpec_type CaptureSpec_DeepCopyInto"
  unfolding CaptureSpec_type_def CaptureSpec_DeepCopyInto_def
  by (rule struct_into_copies) (auto simp: flat_types intro: copies)

declare CaptureSpec_copies [copies]

lemma IntegritySpec_copies: "deep_copy IntegritySpec_type IntegritySpec_DeepCopyInto"
  unfolding IntegritySpec_type_def IntegritySpec_DeepCopyInto_def
  by (rule struct_into_copies) (auto simp: flat_types intro: copies)

declare IntegritySpec_copies [copies]

lemma SnapshotChainRecord_copies: "deep_copy (SnapshotChainRecord_type V) (SnapshotChainRecord_DeepCopyInto V)"
  unfolding SnapshotChainRecord_type_def SnapshotChainRecord_DeepCopyInto_def
  by (rule struct_into_copies) (auto simp: flat_types intro: copies)

declare SnapshotChainRecord_copies [copies]

lemma ForensicSnapshotChainSpec_copies: "deep_copy (ForensicSnapshotChainSpec_type V) (ForensicSnapshotChainSpec_DeepCopyInto V)"
  unfolding ForensicSnapshotChainSpec_type_def ForensicSnapshotChainSpec_DeepCopyInto_def
  by (rule struct_into_copies) (auto simp: flat_types intro: copies)

declare ForensicSnapshotChainSpec_copies [copies]

lemma ForensicSnapshotChainStatus_copies: "deep_copy (ForensicSnapshotChainStatus_type V) (ForensicSnapshotChainStatus_DeepCopyInto V)"
  unfolding ForensicSnapshotChainStatus_type_def ForensicSnapshotChainStatus_DeepCopyInto_def
  by (rule struct_into_copies) (auto simp: flat_types intro: copies)

declare ForensicSnapshotChainStatus_copies [copies]

lemma ForensicSnapshotChain_copies: "deep_copy (ForensicSnapshotChain_type V) (ForensicSnapshotChain_DeepCopyInto V)"
  unfolding ForensicSnapshotChain_type_def ForensicSnapshotChain_DeepCopyInto_def
  by (rule struct_into_copies) (auto simp: flat_types intro: copies)

declare ForensicSnapshotChain_copies [copies]

lemma ForensicSnapshotChainList_copies: "deep_copy (ForensicSnapshotChainList_type V) (ForensicSnapshotChainList_DeepCopyInto V)"
  unfolding ForensicSnapshotChainList_type_def ForensicSnapshotChainList_DeepCopyInto_def
  by (rule struct_into_copies) (auto simp: flat_types intro: copies)

declare ForensicSnapshotChainList_copies [copies]

lemma ContainerCheckpoint_copies: "deep_copy ContainerCheckpoint_type ContainerCheckpoint_DeepCopyInto"
  unfolding ContainerCheckpoint_type_def ContainerCheckpoint_DeepCopyInto_def
  by (rule struct_into_copies) (auto simp: flat_types intro: copies)

declare ContainerCheckpoint_copies [copies]

lemma PodRestoreSpec_copies: "deep_copy (PodRestoreSpec_type V) (PodRestoreSpec_DeepCopyInto V)"
  unfolding PodRestoreSpec_type_def PodRestoreSpec_DeepCopyInto_def
  by (rule struct_into_copies) (auto simp: flat_types intro: copies)

declare PodRestoreSpec_copies [copies]

lemma PodRestoreStatus_copies: "deep_copy (PodRestoreStatus_type V) (PodRestoreStatus_DeepCopyInto V)"
  unfolding PodRestoreStatus_type_def PodRestoreStatus_DeepCopyInto_def
  by (rule struct_into_copies) (auto simp: flat_types intro: copies)

declare PodRestoreStatus_copies [copies]

lemma PodRestore_copies: "deep_copy (PodRestore_type V) (PodRestore_DeepCopyInto V)"
  unfolding PodRestore_type_def PodRestore_DeepCopyInto_def
  by (rule struct_into_copies) (auto simp: flat_types intro: copies)

declare PodRestore_copies [copies]

lemma PodRestoreList_copies: "deep_copy (PodRestoreList_type V) (PodRestoreList_DeepCopyInto V)"
  unfolding PodRestoreList_type_def PodRestoreList_DeepCopyInto_def
  by (rule struct_into_copies) (auto simp: flat_types intro: copies)

declare PodRestoreList_copies [copies]

lemma generated_list: "list_all (\<lambda>(n, t, c). deep_copy t c) (generated V)"
  unfolding generated_def list.pred_inject case_prod_conv
    CheckpointSchedule_DeepCopyObject_def CheckpointScheduleList_DeepCopyObject_def
    CheckpointRestoreOperator_DeepCopyObject_def CheckpointRestoreOperatorList_DeepCopyObject_def
    ForensicSnapshotChain_DeepCopyObject_def ForensicSnapshotChainList_DeepCopyObject_def PodRestore_DeepCopyObject_def
    PodRestoreList_DeepCopyObject_def object_of_eq
    ResourcePercentThreshold_DeepCopy_def ResourceThresholdSpec_DeepCopy_def TriggersSpec_DeepCopy_def
    CheckpointScheduleSpec_DeepCopy_def CheckpointScheduleStatus_DeepCopy_def CheckpointSchedule_DeepCopy_def
    CheckpointScheduleList_DeepCopy_def GlobalPolicySpec_DeepCopy_def ContainerPolicySpec_DeepCopy_def
    PodPolicySpec_DeepCopy_def NamespacePolicySpec_DeepCopy_def CheckpointRestoreOperatorSpec_DeepCopy_def
    CheckpointRestoreOperatorStatus_DeepCopy_def CheckpointRestoreOperator_DeepCopy_def
    CheckpointRestoreOperatorList_DeepCopy_def CaptureSpec_DeepCopy_def IntegritySpec_DeepCopy_def
    SnapshotChainRecord_DeepCopy_def ForensicSnapshotChainSpec_DeepCopy_def ForensicSnapshotChainStatus_DeepCopy_def
    ForensicSnapshotChain_DeepCopy_def ForensicSnapshotChainList_DeepCopy_def ContainerCheckpoint_DeepCopy_def
    PodRestoreSpec_DeepCopy_def PodRestoreStatus_DeepCopy_def PodRestore_DeepCopy_def PodRestoreList_DeepCopy_def
  by (intro conjI copies) simp_all

lemma generated_copies: "(n, t, c) \<in> set (generated V) \<Longrightarrow> deep_copy t c"
  using generated_list by (auto simp: list_all_iff)

end

text \<open>The copies of the four resources, which the client takes before it patches them.\<close>

sublocale vendor \<subseteq> restore: deep_copy "PodRestore_type V" "PodRestore_DeepCopyInto V"
  by (rule PodRestore_copies)

sublocale vendor \<subseteq> schedule: deep_copy "CheckpointSchedule_type V" "CheckpointSchedule_DeepCopyInto V"
  by (rule CheckpointSchedule_copies)

sublocale vendor \<subseteq> chain: deep_copy "ForensicSnapshotChain_type V" "ForensicSnapshotChain_DeepCopyInto V"
  by (rule ForensicSnapshotChain_copies)

sublocale vendor \<subseteq> operator: deep_copy "CheckpointRestoreOperator_type V" "CheckpointRestoreOperator_DeepCopyInto V"
  by (rule CheckpointRestoreOperator_copies)

section \<open>The scheme (api/v1/groupversion_info.go)\<close>

definition addKnownTypes :: "string list" where
  "addKnownTypes = [''CheckpointRestoreOperator'', ''CheckpointRestoreOperatorList'', ''CheckpointSchedule'', ''CheckpointScheduleList'',
     ''ForensicSnapshotChain'', ''ForensicSnapshotChainList'', ''PodRestore'', ''PodRestoreList'']"

text \<open>Every registered type is a \<^verbatim>\<open>runtime.Object\<close>: the client can copy it.\<close>

lemma known_types_are_objects: "t \<in> set addKnownTypes \<Longrightarrow> t @ ''.DeepCopyObject'' \<in> fst ` set (generated V)"
  unfolding generated_def addKnownTypes_def by auto

section \<open>A vendor\<close>

text \<open>
  The types of the API machinery with a few of their fields, and their copy functions. A time is
  copied by assignment.
\<close>

definition some_vendor :: Vendor where
  "some_vendor =
     \<lparr>tObjectMeta = TStruct [(''Name'', TWord), (''DeletionTimestamp'', TPtr TWord), (''Finalizers'', TSlice TWord)],
      tListMeta = TStruct [(''ResourceVersion'', TWord), (''RemainingItemCount'', TPtr TWord)],
      tLabelSelector = TStruct [(''MatchExpressions'', TSlice (TStruct [(''Key'', TWord), (''Values'', TSlice TWord)]))],
      tCondition = TStruct [(''Type'', TWord), (''Status'', TWord), (''LastTransitionTime'', TWord)],
      tPodTemplateSpec = TStruct [(''Containers'', TSlice (TStruct [(''Name'', TWord), (''Image'', TWord)]))],
      tQuantity = TWord, tTime = TWord,
      cObjectMeta = struct_into [(''DeletionTimestamp'', new_value), (''Finalizers'', make_copy)],
      cListMeta = struct_into [(''RemainingItemCount'', new_value)],
      cLabelSelector = struct_into [(''MatchExpressions'', make_each (struct_into [(''Values'', make_copy)]))],
      cCondition = struct_into [(''LastTransitionTime'', assign)],
      cPodTemplateSpec = struct_into [(''Containers'', make_copy)],
      cQuantity = assign, cTime = assign, cTimePtr = new_into assign\<rparr>"

interpretation some: vendor some_vendor
proof (rule vendor.intro)
  show "deep_copy (tObjectMeta some_vendor) (cObjectMeta some_vendor)" "deep_copy (tListMeta some_vendor) (cListMeta some_vendor)"
    "deep_copy (tCondition some_vendor) (cCondition some_vendor)" "deep_copy (tPodTemplateSpec some_vendor) (cPodTemplateSpec some_vendor)"
    "deep_copy (tQuantity some_vendor) (cQuantity some_vendor)" "deep_copy (tTime some_vendor) (cTime some_vendor)"
    unfolding some_vendor_def Vendor.simps
    by ((rule struct_into_copies; auto intro: copies) | auto intro: copies)+
  show "deep_copy (TPtr (tTime some_vendor)) (cTimePtr some_vendor)"
    by (simp add: some_vendor_def new_into_copies assign_copies)
  have "deep_copy (TStruct [(''Key'', TWord), (''Values'', TSlice TWord)]) (struct_into [(''Values'', make_copy)])"
    by (rule struct_into_copies) (auto intro: copies)
  then show "deep_copy (tLabelSelector some_vendor) (cLabelSelector some_vendor)"
    unfolding some_vendor_def Vendor.simps by (intro struct_into_copies) (auto intro: copies)
qed

section \<open>Property\<close>

text \<open>C40: Every generated copy of a well-typed API value is well typed, means the same as the original and shares no
  memory with it: whatever is written through a pointer or slice of the copy, the original reads as before.\<close>

theorem copies_are_deep:
  assumes "vendor V" "(n, t, c) \<in> set (generated V)" "typed h t v" "c v h = (out, h')"
  shows "typed h' t out \<and> view h' t out = view h t v \<and> reach h' t out \<inter> reach h' t v = {} \<and>
    view h' t v = view h t v \<and> (\<forall>a \<in> reach h' t out. view (store a vs h') t v = view h t v)"
proof -
  have c: "deep_copy t c" by (rule vendor.generated_copies [OF assms(1,2)])
  show ?thesis using deep_copy.copied [OF c assms(3,4)] deep_copy.separate [OF c assms(3,4)] by blast
qed

definition some_triggers :: go where
  "some_triggers = Struct [(''Interval'', Ptr (Some 0)), (''ResourceThreshold'', Ptr None), (''OnKubernetesEvents'', Slice (Some 1)),
     (''OnAnnotation'', Scalar ''true'')]"

definition some_memory :: Heap where
  "some_memory = \<lparr>cell = (\<lambda>a. if a = 0 then [Scalar ''1h''] else [Scalar ''NodeDrain'', Scalar ''Preemption'']), lim = 2\<rparr>"

theorem copies_are_deep_witness:
  "fst (TriggersSpec_DeepCopyInto some_triggers some_memory) =
     Struct [(''Interval'', Ptr (Some 2)), (''ResourceThreshold'', Ptr None), (''OnKubernetesEvents'', Slice (Some 3)),
       (''OnAnnotation'', Scalar ''true'')] \<and>
   reach (snd (TriggersSpec_DeepCopyInto some_triggers some_memory)) TriggersSpec_type (fst (TriggersSpec_DeepCopyInto some_triggers some_memory)) \<inter>
   reach (snd (TriggersSpec_DeepCopyInto some_triggers some_memory)) TriggersSpec_type some_triggers = {}"
proof
  show "fst (TriggersSpec_DeepCopyInto some_triggers some_memory) =
     Struct [(''Interval'', Ptr (Some 2)), (''ResourceThreshold'', Ptr None), (''OnKubernetesEvents'', Slice (Some 3)),
       (''OnAnnotation'', Scalar ''true'')]"
    by (simp add: TriggersSpec_DeepCopyInto_def struct_into_def new_value_def new_into_def make_copy_def alloc_def some_triggers_def some_memory_def)
  have "(''TriggersSpec.DeepCopyInto'', TriggersSpec_type, TriggersSpec_DeepCopyInto) \<in> set (generated some_vendor)"
    unfolding generated_def by simp
  moreover have "typed some_memory TriggersSpec_type some_triggers"
    by (simp add: TriggersSpec_type_def some_triggers_def some_memory_def)
  ultimately show "reach (snd (TriggersSpec_DeepCopyInto some_triggers some_memory)) TriggersSpec_type (fst (TriggersSpec_DeepCopyInto some_triggers some_memory)) \<inter>
    reach (snd (TriggersSpec_DeepCopyInto some_triggers some_memory)) TriggersSpec_type some_triggers = {}"
    using copies_are_deep [OF some.vendor_axioms _ _ prod.collapse [symmetric]] by blast
qed

end
