(* ===== verification/Retention_Policies.thy ===== *)
theory Retention_Policies
  imports Kube_Objects
begin

text \<open>
  The retention policies of \<^verbatim>\<open>api/v1/checkpointrestoreoperator_types.go\<close> and the policy
  state of \<^verbatim>\<open>internal/controller/checkpointrestoreoperator_controller.go\<close>: the package
  variables (\<open>PolicyState\<close>), how a reconcile installs a spec into them, the snapshot the
  collector works from, and the lookup of the policy that governs a checkpoint.
  The operations run under \<^verbatim>\<open>policyMutex\<close>, so each is one step on the state. Slices that
  are nil and slices that are empty are both \<open>[]\<close>; a nil pointer is \<open>None\<close>.
\<close>

section \<open>API types\<close>

record GlobalPolicySpec =
  gRetainOrphan :: "bool option"
  gMaxCheckpointsPerNamespaces :: "int option"
  gMaxCheckpointsPerPod :: "int option"
  gMaxCheckpointsPerContainer :: "int option"
  gMaxCheckpointSize :: "quantity option"
  gMaxTotalSizePerNamespace :: "quantity option"
  gMaxTotalSizePerPod :: "quantity option"
  gMaxTotalSizePerContainer :: "quantity option"

record ContainerPolicySpec =
  cpNamespace :: string
  cpPod :: string
  cpContainer :: string
  cpRetainOrphan :: "bool option"
  cpMaxCheckpoints :: "int option"
  cpMaxCheckpointSize :: "quantity option"
  cpMaxTotalSize :: "quantity option"

record PodPolicySpec =
  ppNamespace :: string
  ppPod :: string
  ppRetainOrphan :: "bool option"
  ppMaxCheckpoints :: "int option"
  ppMaxCheckpointSize :: "quantity option"
  ppMaxTotalSize :: "quantity option"

record NamespacePolicySpec =
  npNamespace :: string
  npRetainOrphan :: "bool option"
  npMaxCheckpoints :: "int option"
  npMaxCheckpointSize :: "quantity option"
  npMaxTotalSize :: "quantity option"

record CheckpointRestoreOperatorSpec =
  CheckpointDirectory :: string
  ApplyPoliciesImmediately :: bool
  GlobalPolicies :: GlobalPolicySpec
  ContainerPolicies :: "ContainerPolicySpec list"
  PodPolicies :: "PodPolicySpec list"
  NamespacePolicies :: "NamespacePolicySpec list"

section \<open>The policy state\<close>

text \<open>The package variables guarded by \<^verbatim>\<open>policyMutex\<close>.\<close>

record PolicyState =
  vCheckpointDirectory :: string
  vRetainOrphan :: "bool option"
  vMaxCheckpointsPerContainer :: int
  vMaxCheckpointsPerPod :: int
  vMaxCheckpointsPerNamespace :: int
  vMaxCheckpointSize :: quantity
  vMaxTotalSizePerPod :: quantity
  vMaxTotalSizePerContainer :: quantity
  vMaxTotalSizePerNamespace :: quantity
  vContainerPolicies :: "ContainerPolicySpec list"
  vPodPolicies :: "PodPolicySpec list"
  vNamespacePolicies :: "NamespacePolicySpec list"

record policySnapshot =
  checkpointDirectory :: string
  retainOrphan :: bool
  maxCheckpointsPerContainer :: int
  maxCheckpointsPerPod :: int
  maxCheckpointsPerNamespace :: int
  maxCheckpointSize :: quantity
  maxTotalSizePerPod :: quantity
  maxTotalSizePerContainer :: quantity
  maxTotalSizePerNamespace :: quantity
  containerPolicies :: "ContainerPolicySpec list"
  podPolicies :: "PodPolicySpec list"
  namespacePolicies :: "NamespacePolicySpec list"

text \<open>The quantities \<^verbatim>\<open>100Gi\<close> and \<^verbatim>\<open>1Ei\<close>.\<close>

definition q100Gi :: quantity where "q100Gi = NewQuantity (100 * 2 ^ 30)"
definition q1Ei :: quantity where "q1Ei = NewQuantity (2 ^ 60)"

definition initialPolicyState :: PolicyState where
  "initialPolicyState =
     \<lparr>vCheckpointDirectory = ''/var/lib/kubelet/checkpoints'', vRetainOrphan = None,
      vMaxCheckpointsPerContainer = 10, vMaxCheckpointsPerPod = 20, vMaxCheckpointsPerNamespace = 30,
      vMaxCheckpointSize = q100Gi, vMaxTotalSizePerPod = q100Gi, vMaxTotalSizePerContainer = q100Gi,
      vMaxTotalSizePerNamespace = q100Gi, vContainerPolicies = [], vPodPolicies = [],
      vNamespacePolicies = []\<rparr>"

definition resetAllPoliciesToDefault :: "PolicyState \<Rightarrow> PolicyState" where
  "resetAllPoliciesToDefault s =
     s\<lparr>vRetainOrphan := None,
       vMaxCheckpointsPerContainer := 10,
       vMaxCheckpointsPerPod := 20,
       vMaxCheckpointsPerNamespace := 30,
       vMaxCheckpointSize := q1Ei,
       vMaxTotalSizePerContainer := q1Ei,
       vMaxTotalSizePerPod := q1Ei,
       vMaxTotalSizePerNamespace := q1Ei,
       vContainerPolicies := [],
       vPodPolicies := [],
       vNamespacePolicies := []\<rparr>"

text \<open>A count limit is taken over when it is set and not negative, a size limit when it is set.\<close>

definition set_count :: "int option \<Rightarrow> int \<Rightarrow> int" where
  "set_count v old = (case v of None \<Rightarrow> old | Some n \<Rightarrow> if n \<ge> 0 then n else old)"

definition set_size :: "quantity option \<Rightarrow> quantity \<Rightarrow> quantity" where
  "set_size v old = (case v of None \<Rightarrow> old | Some q \<Rightarrow> q)"

definition handleGlobalPolicies :: "GlobalPolicySpec \<Rightarrow> PolicyState \<Rightarrow> PolicyState" where
  "handleGlobalPolicies g s =
     s\<lparr>vRetainOrphan := (case gRetainOrphan g of None \<Rightarrow> Some True | Some b \<Rightarrow> Some b),
       vMaxCheckpointsPerContainer :=
         set_count (gMaxCheckpointsPerContainer g) (vMaxCheckpointsPerContainer s),
       vMaxCheckpointsPerPod := set_count (gMaxCheckpointsPerPod g) (vMaxCheckpointsPerPod s),
       vMaxCheckpointsPerNamespace :=
         set_count (gMaxCheckpointsPerNamespaces g) (vMaxCheckpointsPerNamespace s),
       vMaxCheckpointSize := set_size (gMaxCheckpointSize g) (vMaxCheckpointSize s),
       vMaxTotalSizePerNamespace :=
         set_size (gMaxTotalSizePerNamespace g) (vMaxTotalSizePerNamespace s),
       vMaxTotalSizePerPod := set_size (gMaxTotalSizePerPod g) (vMaxTotalSizePerPod s),
       vMaxTotalSizePerContainer :=
         set_size (gMaxTotalSizePerContainer g) (vMaxTotalSizePerContainer s)\<rparr>"

definition handleSpecificPolicies ::
  "CheckpointRestoreOperatorSpec \<Rightarrow> PolicyState \<Rightarrow> PolicyState" where
  "handleSpecificPolicies spec s =
     (let s0 = s\<lparr>vContainerPolicies := [], vPodPolicies := [], vNamespacePolicies := []\<rparr>;
          s1 = (if length (ContainerPolicies spec) > 0
                then s0\<lparr>vContainerPolicies := ContainerPolicies spec\<rparr> else s0);
          s2 = (if length (PodPolicies spec) > 0
                then s1\<lparr>vPodPolicies := PodPolicies spec\<rparr> else s1)
      in if length (NamespacePolicies spec) > 0
         then s2\<lparr>vNamespacePolicies := NamespacePolicies spec\<rparr> else s2)"

definition copyPtr :: "'a option \<Rightarrow> 'a option" where
  "copyPtr value = (case value of None \<Rightarrow> None | Some v \<Rightarrow> Some v)"

definition copyContainerPolicies :: "ContainerPolicySpec list \<Rightarrow> ContainerPolicySpec list" where
  "copyContainerPolicies policies =
     (if length policies = 0 then []
      else map (\<lambda>p. p\<lparr>cpRetainOrphan := copyPtr (cpRetainOrphan p),
                      cpMaxCheckpoints := copyPtr (cpMaxCheckpoints p),
                      cpMaxCheckpointSize := copyPtr (cpMaxCheckpointSize p),
                      cpMaxTotalSize := copyPtr (cpMaxTotalSize p)\<rparr>) policies)"

definition copyPodPolicies :: "PodPolicySpec list \<Rightarrow> PodPolicySpec list" where
  "copyPodPolicies policies =
     (if length policies = 0 then []
      else map (\<lambda>p. p\<lparr>ppRetainOrphan := copyPtr (ppRetainOrphan p),
                      ppMaxCheckpoints := copyPtr (ppMaxCheckpoints p),
                      ppMaxCheckpointSize := copyPtr (ppMaxCheckpointSize p),
                      ppMaxTotalSize := copyPtr (ppMaxTotalSize p)\<rparr>) policies)"

definition copyNamespacePolicies :: "NamespacePolicySpec list \<Rightarrow> NamespacePolicySpec list" where
  "copyNamespacePolicies policies =
     (if length policies = 0 then []
      else map (\<lambda>p. p\<lparr>npRetainOrphan := copyPtr (npRetainOrphan p),
                      npMaxCheckpoints := copyPtr (npMaxCheckpoints p),
                      npMaxCheckpointSize := copyPtr (npMaxCheckpointSize p),
                      npMaxTotalSize := copyPtr (npMaxTotalSize p)\<rparr>) policies)"

definition currentPolicySnapshot :: "PolicyState \<Rightarrow> policySnapshot" where
  "currentPolicySnapshot s =
     \<lparr>checkpointDirectory = vCheckpointDirectory s,
      retainOrphan = (case vRetainOrphan s of None \<Rightarrow> True | Some b \<Rightarrow> b),
      maxCheckpointsPerContainer = vMaxCheckpointsPerContainer s,
      maxCheckpointsPerPod = vMaxCheckpointsPerPod s,
      maxCheckpointsPerNamespace = vMaxCheckpointsPerNamespace s,
      maxCheckpointSize = vMaxCheckpointSize s,
      maxTotalSizePerPod = vMaxTotalSizePerPod s,
      maxTotalSizePerContainer = vMaxTotalSizePerContainer s,
      maxTotalSizePerNamespace = vMaxTotalSizePerNamespace s,
      containerPolicies = copyContainerPolicies (vContainerPolicies s),
      podPolicies = copyPodPolicies (vPodPolicies s),
      namespacePolicies = copyNamespacePolicies (vNamespacePolicies s)\<rparr>"

text \<open>The snapshot, whether the collector must restart, and the new state.\<close>

definition applyPolicySpec ::
  "CheckpointRestoreOperatorSpec \<Rightarrow> PolicyState \<Rightarrow> (policySnapshot \<times> bool) \<times> PolicyState" where
  "applyPolicySpec spec s =
     (let s1 = handleSpecificPolicies spec
                 (handleGlobalPolicies (GlobalPolicies spec) (resetAllPoliciesToDefault s));
          restart = (CheckpointDirectory spec \<noteq> [] \<and>
                     CheckpointDirectory spec \<noteq> vCheckpointDirectory s1);
          s2 = (if restart then s1\<lparr>vCheckpointDirectory := CheckpointDirectory spec\<rparr> else s1)
      in ((currentPolicySnapshot s2, restart), s2))"

section \<open>The policy of a checkpoint\<close>

record checkpointDetails =
  dNamespace :: string
  dPod :: string
  dContainer :: string

fun find_container :: "ContainerPolicySpec list \<Rightarrow> checkpointDetails \<Rightarrow> ContainerPolicySpec option" where
  "find_container [] details = None"
| "find_container (policy # ps) details =
     (if cpNamespace policy = dNamespace details \<and> cpPod policy = dPod details \<and>
         cpContainer policy = dContainer details
      then Some policy else find_container ps details)"

definition findContainerPolicy ::
  "policySnapshot \<Rightarrow> checkpointDetails \<Rightarrow> ContainerPolicySpec option" where
  "findContainerPolicy policies details = find_container (containerPolicies policies) details"

fun find_pod :: "PodPolicySpec list \<Rightarrow> checkpointDetails \<Rightarrow> PodPolicySpec option" where
  "find_pod [] details = None"
| "find_pod (policy # ps) details =
     (if ppNamespace policy = dNamespace details \<and> ppPod policy = dPod details
      then Some policy else find_pod ps details)"

definition findPodPolicy :: "policySnapshot \<Rightarrow> checkpointDetails \<Rightarrow> PodPolicySpec option" where
  "findPodPolicy policies details = find_pod (podPolicies policies) details"

fun find_namespace :: "NamespacePolicySpec list \<Rightarrow> checkpointDetails \<Rightarrow> NamespacePolicySpec option" where
  "find_namespace [] details = None"
| "find_namespace (policy # ps) details =
     (if npNamespace policy = dNamespace details then Some policy else find_namespace ps details)"

definition findNamespacePolicy ::
  "policySnapshot \<Rightarrow> checkpointDetails \<Rightarrow> NamespacePolicySpec option" where
  "findNamespacePolicy policies details = find_namespace (namespacePolicies policies) details"

text \<open>The effective limits one level of retention works with.\<close>

record Policy =
  RetainOrphan :: bool
  MaxCheckpoints :: int
  MaxCheckpointSize :: quantity
  MaxTotalSize :: quantity

definition MaxInt32 :: int where "MaxInt32 = 2147483647"

definition toInfinityCount :: "int option \<Rightarrow> int" where
  "toInfinityCount value = (case value of None \<Rightarrow> MaxInt32 | Some n \<Rightarrow> n)"

definition toInfinitySize :: "quantity option \<Rightarrow> quantity" where
  "toInfinitySize value = (case value of None \<Rightarrow> q1Ei | Some q \<Rightarrow> q)"

definition ifNil :: "bool option \<Rightarrow> bool" where
  "ifNil value = (case value of None \<Rightarrow> True | Some b \<Rightarrow> b)"

text \<open>
  The calls of \<open>handleCheckpointsForLevel\<close> that \<open>applyPolicies\<close> makes, in order: one for the
  most specific policy there is, or the three global ones.
\<close>

definition policy_calls :: "policySnapshot \<Rightarrow> checkpointDetails \<Rightarrow> (string \<times> Policy) list" where
  "policy_calls policies details =
     (case findContainerPolicy policies details of
        Some policy \<Rightarrow>
          [(''container'', \<lparr>RetainOrphan = ifNil (cpRetainOrphan policy),
              MaxCheckpoints = toInfinityCount (cpMaxCheckpoints policy),
              MaxCheckpointSize = toInfinitySize (cpMaxCheckpointSize policy),
              MaxTotalSize = toInfinitySize (cpMaxTotalSize policy)\<rparr>)]
      | None \<Rightarrow>
     (case findPodPolicy policies details of
        Some policy \<Rightarrow>
          [(''pod'', \<lparr>RetainOrphan = ifNil (ppRetainOrphan policy),
              MaxCheckpoints = toInfinityCount (ppMaxCheckpoints policy),
              MaxCheckpointSize = toInfinitySize (ppMaxCheckpointSize policy),
              MaxTotalSize = toInfinitySize (ppMaxTotalSize policy)\<rparr>)]
      | None \<Rightarrow>
     (case findNamespacePolicy policies details of
        Some policy \<Rightarrow>
          [(''namespace'', \<lparr>RetainOrphan = ifNil (npRetainOrphan policy),
              MaxCheckpoints = toInfinityCount (npMaxCheckpoints policy),
              MaxCheckpointSize = toInfinitySize (npMaxCheckpointSize policy),
              MaxTotalSize = toInfinitySize (npMaxTotalSize policy)\<rparr>)]
      | None \<Rightarrow>
          [(''container'', \<lparr>RetainOrphan = retainOrphan policies,
              MaxCheckpoints = maxCheckpointsPerContainer policies,
              MaxCheckpointSize = maxCheckpointSize policies,
              MaxTotalSize = maxTotalSizePerContainer policies\<rparr>),
           (''pod'', \<lparr>RetainOrphan = retainOrphan policies,
              MaxCheckpoints = maxCheckpointsPerPod policies,
              MaxCheckpointSize = maxCheckpointSize policies,
              MaxTotalSize = maxTotalSizePerPod policies\<rparr>),
           (''namespace'', \<lparr>RetainOrphan = retainOrphan policies,
              MaxCheckpoints = maxCheckpointsPerNamespace policies,
              MaxCheckpointSize = maxCheckpointSize policies,
              MaxTotalSize = maxTotalSizePerNamespace policies\<rparr>)])))"

section \<open>Lemmas\<close>

lemma copyPtr_id [simp]: "copyPtr v = v"
  by (simp add: copyPtr_def split: option.splits)

lemma copy_policies_id [simp]:
  "copyContainerPolicies cs = cs" "copyPodPolicies ps = ps" "copyNamespacePolicies ns = ns"
  by (simp_all add: copyContainerPolicies_def copyPodPolicies_def copyNamespacePolicies_def)

lemma find_container_Some:
  "find_container ps d = Some p \<Longrightarrow>
     p \<in> set ps \<and> cpNamespace p = dNamespace d \<and> cpPod p = dPod d \<and> cpContainer p = dContainer d"
  by (induction ps) (auto split: if_splits)

lemma find_container_None:
  "find_container ps d = None \<longleftrightarrow>
     (\<forall>p\<in>set ps. \<not> (cpNamespace p = dNamespace d \<and> cpPod p = dPod d \<and> cpContainer p = dContainer d))"
  by (induction ps) auto

lemma find_pod_None:
  "find_pod ps d = None \<longleftrightarrow> (\<forall>p\<in>set ps. \<not> (ppNamespace p = dNamespace d \<and> ppPod p = dPod d))"
  by (induction ps) auto

lemma find_namespace_None:
  "find_namespace ps d = None \<longleftrightarrow> (\<forall>p\<in>set ps. npNamespace p \<noteq> dNamespace d)"
  by (induction ps) auto

lemma handleSpecificPolicies_eq:
  "handleSpecificPolicies spec s =
     s\<lparr>vContainerPolicies := ContainerPolicies spec, vPodPolicies := PodPolicies spec,
       vNamespacePolicies := NamespacePolicies spec\<rparr>"
  by (simp add: handleSpecificPolicies_def Let_def)

lemmas policy_update_defs = applyPolicySpec_def handleSpecificPolicies_eq handleGlobalPolicies_def
  resetAllPoliciesToDefault_def currentPolicySnapshot_def Let_def

section \<open>Properties\<close>

text \<open>A reconcile installs exactly the spec: nothing of an earlier spec survives but
  the checkpoint directory, which an empty one in the spec leaves as it is, and the collector
  is restarted exactly when that directory changes. In particular applying a spec again
  yields the same snapshot and no restart.\<close>

lemma spec_replaces_policies:
  "snd (applyPolicySpec spec s) =
     snd (applyPolicySpec spec (t\<lparr>vCheckpointDirectory := vCheckpointDirectory s\<rparr>)) \<and>
   fst (fst (applyPolicySpec spec s)) = currentPolicySnapshot (snd (applyPolicySpec spec s)) \<and>
   (snd (fst (applyPolicySpec spec s)) \<longleftrightarrow>
      vCheckpointDirectory (snd (applyPolicySpec spec s)) \<noteq> vCheckpointDirectory s) \<and>
   fst (applyPolicySpec spec (snd (applyPolicySpec spec s)))
     = (fst (fst (applyPolicySpec spec s)), False)"
  by (simp add: policy_update_defs)

end
