(* ===== verification/Collector_Handover.thy ===== *)
theory Collector_Handover
  imports Retention_Policies
begin

text \<open>
  The hand-over between two garbage collectors
  (\<^verbatim>\<open>internal/controller/checkpointrestoreoperator_controller.go\<close>): \<open>SetupWithManager\<close> starts the first one,
  \<open>restartGarbageCollector\<close> ends the running one through the \<open>quit\<close> channel and starts the next.

  A collector is three goroutines: \<open>runGarbageCollector\<close> itself, its event loop and its \<open>PodWatcher\<close>. Each
  action below is one of their steps between two synchronisation points; the actions of all collectors
  and of the reconciler interleave freely. A channel is a number, the variable \<open>quit\<close> holds the number
  of the current one, and a goroutine that waits on \<open>quit\<close> waits on the channel the variable held when
  it got there. What the event loop does with an event is the subject of \<open>Garbage_Collector\<close>.
\<close>

section \<open>Definitions\<close>

datatype Main = Wanting | Creating | Parked nat | Adding | Watching "string option" | Returned

datatype Loop = NoLoop | Starting | Listening nat | Stopping | Stopped

datatype Pods = NoPods | PodsStarting | PodsWatching | PodsDone

record Collector =
  cMain :: Main
  cLoop :: Loop
  cPods :: Pods

datatype Sender = Idle | Sending nat | Sent | Replaced

record Operator =
  rPolicies :: PolicyState
  rQuit :: nat
  rSender :: Sender
  rCollectors :: "Collector list"

datatype Local =
    Lock | NewWatcher bool | Add bool | Return | Enter | Event | EventsClosed | Stop | PodsStart bool | PodsStop

datatype Action = Step nat Local | Receive nat | Apply CheckpointRestoreOperatorSpec | MakeQuit | Spawn

text \<open>\<open>PodWatcher\<close>: it needs a client, then runs the informer until the channel \<open>c\<close> is closed.\<close>

fun PodWatcher :: "Local \<Rightarrow> bool \<Rightarrow> Pods \<Rightarrow> Pods option" where
  "PodWatcher (PodsStart ok) closed p = (if p = PodsStarting then Some (if ok then PodsWatching else PodsDone) else None)"
| "PodWatcher PodsStop closed p = (if p = PodsWatching \<and> closed then Some PodsDone else None)"
| "PodWatcher a closed p = None"

text \<open>
  The event loop, up to what its events do: it waits on the channel \<open>quit\<close> holds at each turn, and ends
  with \<open>stop\<close>, which closes \<open>c\<close>. The watcher's channels are closed by the deferred close of
  \<open>runGarbageCollector\<close> alone.
\<close>

fun event_loop :: "Local \<Rightarrow> nat \<Rightarrow> Main \<Rightarrow> Loop \<Rightarrow> Loop option" where
  "event_loop Enter quit main Starting = Some (Listening quit)"
| "event_loop Event quit main (Listening q) = Some (Listening quit)"
| "event_loop EventsClosed quit main (Listening q) = (if main = Returned then Some Stopping else None)"
| "event_loop Stop quit main Stopping = Some Stopped"
| "event_loop a quit main l = None"

text \<open>
  \<open>runGarbageCollector\<close>: takes the lock, creates the watcher and parks on \<open>quit\<close> if that fails, starts the
  two other goroutines, watches the directory of the policies as they are then, and returns when \<open>c\<close> is
  closed.
\<close>

fun runGarbageCollector :: "Local \<Rightarrow> bool \<Rightarrow> nat \<Rightarrow> string \<Rightarrow> Collector \<Rightarrow> Collector option" where
  "runGarbageCollector Lock free quit dir c = (if cMain c = Wanting \<and> free then Some (c\<lparr>cMain := Creating\<rparr>) else None)"
| "runGarbageCollector (NewWatcher ok) free quit dir c =
     (if cMain c = Creating
      then Some (if ok then c\<lparr>cMain := Adding, cLoop := Starting, cPods := PodsStarting\<rparr> else c\<lparr>cMain := Parked quit\<rparr>)
      else None)"
| "runGarbageCollector (Add ok) free quit dir c =
     (if cMain c = Adding then Some (c\<lparr>cMain := Watching (if ok then Some dir else None)\<rparr>) else None)"
| "runGarbageCollector Return free quit dir c =
     (case cMain c of Watching w \<Rightarrow> if cLoop c = Stopped then Some (c\<lparr>cMain := Returned\<rparr>) else None | _ \<Rightarrow> None)"
| "runGarbageCollector a free quit dir c =
     (case event_loop a quit (cMain c) (cLoop c) of
        Some l \<Rightarrow> Some (c\<lparr>cLoop := l\<rparr>)
      | None \<Rightarrow> (case PodWatcher a (cLoop c = Stopped) (cPods c) of Some p \<Rightarrow> Some (c\<lparr>cPods := p\<rparr>) | None \<Rightarrow> None))"

text \<open>Between \<open>Lock\<close> and the return the collector holds \<open>gc.Lock\<close>.\<close>

fun holds :: "Main \<Rightarrow> bool" where
  "holds Wanting = False"
| "holds Returned = False"
| "holds _ = True"

definition directory :: "Operator \<Rightarrow> string" where
  "directory s = checkpointDirectory (currentPolicySnapshot (rPolicies s))"

definition new_collector :: Collector where
  "new_collector = \<lparr>cMain = Wanting, cLoop = NoLoop, cPods = NoPods\<rparr>"

text \<open>The receiving half of \<open>quit <- true\<close>.\<close>

definition receive :: "nat \<Rightarrow> Collector \<Rightarrow> Collector option" where
  "receive q c =
     (if cLoop c = Listening q then Some (c\<lparr>cLoop := Stopping\<rparr>)
      else if cMain c = Parked q then Some (c\<lparr>cMain := Returned\<rparr>)
      else None)"

definition update_collector :: "nat \<Rightarrow> Collector option \<Rightarrow> Operator \<Rightarrow> Operator option" where
  "update_collector i r s = (case r of None \<Rightarrow> None | Some c \<Rightarrow> Some (s\<lparr>rCollectors := (rCollectors s)[i := c]\<rparr>))"

text \<open>
  One step of the operator. \<open>Apply\<close> is a reconcile up to the send on \<open>quit\<close>; \<open>Receive\<close>, \<open>MakeQuit\<close> and \<open>Spawn\<close>
  are the three statements of \<open>restartGarbageCollector\<close>. One reconcile runs at a time.
\<close>

fun operator_step :: "Action \<Rightarrow> Operator \<Rightarrow> Operator option" where
  "operator_step (Step i a) s =
     (if i < length (rCollectors s)
      then update_collector i
        (runGarbageCollector a (list_all (\<lambda>c. \<not> holds (cMain c)) (rCollectors s)) (rQuit s) (directory s) (rCollectors s ! i)) s
      else None)"
| "operator_step (Apply spec) s =
     (if rSender s \<noteq> Idle then None
      else case applyPolicySpec spec (rPolicies s) of
        ((policies, restart), p) \<Rightarrow> Some (s\<lparr>rPolicies := p, rSender := (if restart then Sending (rQuit s) else Idle)\<rparr>))"
| "operator_step (Receive i) s =
     (case rSender s of
        Sending q \<Rightarrow> (if i < length (rCollectors s) then update_collector i (receive q (rCollectors s ! i)) (s\<lparr>rSender := Sent\<rparr>) else None)
      | _ \<Rightarrow> None)"
| "operator_step MakeQuit s = (if rSender s = Sent then Some (s\<lparr>rQuit := rQuit s + 1, rSender := Replaced\<rparr>) else None)"
| "operator_step Spawn s =
     (if rSender s = Replaced then Some (s\<lparr>rCollectors := rCollectors s @ [new_collector], rSender := Idle\<rparr>) else None)"

fun run :: "Action list \<Rightarrow> Operator \<Rightarrow> Operator option" where
  "run [] s = Some s"
| "run (a # as) s = (case operator_step a s of None \<Rightarrow> None | Some t \<Rightarrow> run as t)"

definition SetupWithManager :: "PolicyState \<Rightarrow> Operator" where
  "SetupWithManager p = \<lparr>rPolicies = p, rQuit = 0, rSender = Idle, rCollectors = [new_collector]\<rparr>"

text \<open>Everything but a new reconcile and a file event, which the surroundings bring about.\<close>

fun internal :: "Action \<Rightarrow> bool" where
  "internal (Apply spec) = False"
| "internal (Step i Event) = False"
| "internal _ = True"

section \<open>Invariant\<close>

text \<open>A collector that has been told to end, one that has ended, and one that serves the channel \<open>q\<close>.\<close>

definition ending :: "Collector \<Rightarrow> bool" where
  "ending c \<longleftrightarrow>
     (cMain c = Returned \<and> (cLoop c = NoLoop \<and> cPods c = NoPods \<or> cLoop c = Stopped \<and> cPods c \<noteq> NoPods)) \<or>
     ((cMain c = Adding \<or> (\<exists>w. cMain c = Watching w)) \<and> (cLoop c = Stopping \<or> cLoop c = Stopped) \<and> cPods c \<noteq> NoPods)"

definition ended :: "Collector \<Rightarrow> bool" where
  "ended c \<longleftrightarrow> cMain c = Returned \<and> (cLoop c = NoLoop \<and> cPods c = NoPods \<or> cLoop c = Stopped \<and> cPods c = PodsDone)"

definition serving :: "nat \<Rightarrow> Collector \<Rightarrow> bool" where
  "serving q c \<longleftrightarrow>
     (cMain c \<in> {Wanting, Creating, Parked q} \<and> cLoop c = NoLoop \<and> cPods c = NoPods) \<or>
     ((cMain c = Adding \<or> (\<exists>w. cMain c = Watching w)) \<and> cLoop c \<in> {Starting, Listening q} \<and> cPods c \<noteq> NoPods)"

text \<open>A collector that waits for the next restart: it watches the directory \<open>d\<close> if the file system let it.\<close>

definition waiting :: "nat \<Rightarrow> string \<Rightarrow> Collector \<Rightarrow> bool" where
  "waiting q d c \<longleftrightarrow>
     (cMain c = Parked q \<and> cLoop c = NoLoop \<and> cPods c = NoPods) \<or>
     (cMain c \<in> {Watching None, Watching (Some d)} \<and> cLoop c = Listening q \<and> cPods c \<in> {PodsWatching, PodsDone})"

definition settled :: "Operator \<Rightarrow> bool" where
  "settled s \<longleftrightarrow> rSender s = Idle \<and> list_all ended (butlast (rCollectors s)) \<and> waiting (rQuit s) (directory s) (last (rCollectors s))"

definition exclusive :: "Collector list \<Rightarrow> bool" where
  "exclusive cs \<longleftrightarrow> (\<forall>i < length cs. \<forall>j < length cs. holds (cMain (cs ! i)) \<and> holds (cMain (cs ! j)) \<longrightarrow> i = j)"

definition last_role :: "Operator \<Rightarrow> Collector \<Rightarrow> bool" where
  "last_role s c \<longleftrightarrow>
     (case rSender s of
        Idle \<Rightarrow> serving (rQuit s) c \<and> (\<forall>d. cMain c = Watching (Some d) \<longrightarrow> d = directory s)
      | Sending q \<Rightarrow> q = rQuit s \<and> serving q c
      | _ \<Rightarrow> ending c)"

definition operator_inv :: "Operator \<Rightarrow> bool" where
  "operator_inv s \<longleftrightarrow> exclusive (rCollectors s) \<and>
     (\<exists>olds c. rCollectors s = olds @ [c] \<and> (\<forall>o' \<in> set olds. ending o') \<and> last_role s c)"

text \<open>Steps of one collector keep its role.\<close>

lemma event_loop_cases:
  assumes "event_loop a q m l = Some l'"
  obtains (Enter) "a = Enter" "l = Starting" "l' = Listening q"
  | (Event) r where "a = Event" "l = Listening r" "l' = Listening q"
  | (Closed) r where "a = EventsClosed" "l = Listening r" "m = Returned" "l' = Stopping"
  | (Stop) "a = Stop" "l = Stopping" "l' = Stopped"
  using assms by (cases rule: event_loop.cases [of "(a, q, m, l)"]) (auto split: if_splits)

lemma PodWatcher_cases:
  assumes "PodWatcher a closed p = Some p'"
  obtains (Start) ok where "a = PodsStart ok" "p = PodsStarting" "p' = (if ok then PodsWatching else PodsDone)"
  | (Stop) "a = PodsStop" "p = PodsWatching" closed "p' = PodsDone"
  using assms by (cases a) (auto split: if_splits)

lemma collector_cases:
  assumes "runGarbageCollector a free q d c = Some c'"
  obtains (Lock) "a = Lock" "cMain c = Wanting" free "c' = c\<lparr>cMain := Creating\<rparr>"
  | (Park) "a = NewWatcher False" "cMain c = Creating" "c' = c\<lparr>cMain := Parked q\<rparr>"
  | (Watch) "a = NewWatcher True" "cMain c = Creating" "c' = c\<lparr>cMain := Adding, cLoop := Starting, cPods := PodsStarting\<rparr>"
  | (Add) ok where "a = Add ok" "cMain c = Adding" "c' = c\<lparr>cMain := Watching (if ok then Some d else None)\<rparr>"
  | (Return) w where "a = Return" "cMain c = Watching w" "cLoop c = Stopped" "c' = c\<lparr>cMain := Returned\<rparr>"
  | (Loop) l where "event_loop a q (cMain c) (cLoop c) = Some l" "c' = c\<lparr>cLoop := l\<rparr>"
  | (Pods) p where "PodWatcher a (cLoop c = Stopped) (cPods c) = Some p" "c' = c\<lparr>cPods := p\<rparr>"
proof (cases a)
  case (NewWatcher ok)
  then show ?thesis using assms that(2,3) by (cases ok) (auto split: if_splits)
qed (use assms that in \<open>auto split: if_splits option.splits Main.splits\<close>)

lemma step_ending:
  assumes "runGarbageCollector a free q d c = Some c'" "ending c"
  shows "ending c' \<and> (holds (cMain c') \<longrightarrow> holds (cMain c))"
  using assms(1)
proof (cases rule: collector_cases)
  case (Loop l)
  show ?thesis using Loop(1) by (cases rule: event_loop_cases) (use assms(2) Loop(2) in \<open>auto simp: ending_def\<close>)
next
  case (Pods p)
  show ?thesis using Pods(1) by (cases rule: PodWatcher_cases) (use assms(2) Pods(2) in \<open>auto simp: ending_def\<close>)
qed (use assms(2) in \<open>auto simp: ending_def\<close>)

lemma step_serving:
  assumes "runGarbageCollector a free q d c = Some c'" "serving q c"
  shows "serving q c' \<and> (holds (cMain c') \<longrightarrow> holds (cMain c) \<or> free) \<and>
    (\<forall>e. cMain c' = Watching (Some e) \<longrightarrow> cMain c = Watching (Some e) \<or> e = d)"
  using assms(1)
proof (cases rule: collector_cases)
  case (Loop l)
  show ?thesis using Loop(1) by (cases rule: event_loop_cases) (use assms(2) Loop(2) in \<open>auto simp: serving_def\<close>)
next
  case (Pods p)
  show ?thesis using Pods(1) by (cases rule: PodWatcher_cases) (use assms(2) Pods(2) in \<open>auto simp: serving_def\<close>)
qed (use assms(2) in \<open>auto simp: serving_def\<close>)

lemma receive_serving: "receive q c = Some c' \<Longrightarrow> serving q c \<Longrightarrow> ending c' \<and> (holds (cMain c') \<longrightarrow> holds (cMain c))"
  by (cases c) (auto simp: receive_def serving_def ending_def split: if_splits)

lemma receive_ending: "ending c \<Longrightarrow> receive q c = None"
  by (cases c) (auto simp: receive_def ending_def)

text \<open>The lock stays with one collector when no other takes it while it is held.\<close>

lemma exclusive_update:
  assumes "exclusive cs" "holds (cMain c') \<longrightarrow> holds (cMain (cs ! i)) \<or> list_all (\<lambda>c. \<not> holds (cMain c)) cs"
  shows "exclusive (cs[i := c'])"
  unfolding exclusive_def
proof (intro allI impI)
  fix j k assume jk: "j < length (cs[i := c'])" "k < length (cs[i := c'])" "holds (cMain (cs[i := c'] ! j)) \<and> holds (cMain (cs[i := c'] ! k))"
  show "j = k"
  proof (cases "list_all (\<lambda>c. \<not> holds (cMain c)) cs")
    case True
    then have "holds (cMain (cs[i := c'] ! m)) \<Longrightarrow> m < length cs \<Longrightarrow> m = i" for m
      by (cases "m = i") (auto simp: list_all_length)
    then have "j = i" "k = i" using jk by simp_all
    then show ?thesis by simp
  next
    case False
    then have "holds (cMain (cs[i := c'] ! m)) \<Longrightarrow> m < length cs \<Longrightarrow> holds (cMain (cs ! m))" for m
      using assms(2) by (cases "m = i") auto
    then show ?thesis using jk assms(1) by (auto simp: exclusive_def)
  qed
qed

lemma exclusive_append: "exclusive cs \<Longrightarrow> \<not> holds (cMain c) \<Longrightarrow> exclusive (cs @ [c])"
  by (auto simp: exclusive_def nth_append less_Suc_eq split: if_splits)

lemma operator_invI: "exclusive (olds @ [c]) \<Longrightarrow> rCollectors s = olds @ [c] \<Longrightarrow> (\<And>o'. o' \<in> set olds \<Longrightarrow> ending o') \<Longrightarrow> last_role s c \<Longrightarrow> operator_inv s"
  by (auto simp: operator_inv_def)

lemma ending_update: "(\<And>o'. o' \<in> set olds \<Longrightarrow> ending o') \<Longrightarrow> ending c \<Longrightarrow> o' \<in> set (olds[i := c]) \<Longrightarrow> ending o'"
  using set_update_subset_insert [of olds i c] by auto

lemma last_role_step:
  assumes "last_role s c" "runGarbageCollector a free (rQuit s) (directory s) c = Some c'"
  shows "last_role (s\<lparr>rCollectors := cs\<rparr>) c' \<and> (holds (cMain c') \<longrightarrow> holds (cMain c) \<or> free)"
  using assms step_serving [OF assms(2)] step_ending [OF assms(2)]
  by (cases "rSender s") (auto simp: last_role_def directory_def)

lemma directory_kept: "applyPolicySpec spec p = ((policies, False), p') \<Longrightarrow>
    checkpointDirectory (currentPolicySnapshot p') = checkpointDirectory (currentPolicySnapshot p)"
  by (auto simp: policy_update_defs split: if_splits)

lemma collector_step_inv:
  assumes "operator_inv s" "operator_step (Step i b) s = Some t"
  shows "operator_inv t"
proof -
  obtain olds c where s: "rCollectors s = olds @ [c]" "\<And>o'. o' \<in> set olds \<Longrightarrow> ending o'" "last_role s c" "exclusive (olds @ [c])"
    using assms(1) by (auto simp: operator_inv_def)
  let ?free = "list_all (\<lambda>c. \<not> holds (cMain c)) (rCollectors s)"
  obtain c' where i: "i < Suc (length olds)" "runGarbageCollector b ?free (rQuit s) (directory s) ((olds @ [c]) ! i) = Some c'"
    "t = s\<lparr>rCollectors := (olds @ [c])[i := c']\<rparr>"
    using assms(2) s(1) by (auto simp: update_collector_def split: if_splits option.splits)
  show ?thesis
  proof (cases "i = length olds")
    case True
    then have "last_role t c' \<and> (holds (cMain c') \<longrightarrow> holds (cMain c) \<or> ?free)"
      using last_role_step [OF s(3)] i by auto
    moreover have "exclusive ((olds @ [c])[i := c'])" by (rule exclusive_update [OF s(4)]) (use calculation True s(1) in auto)
    ultimately show ?thesis by (intro operator_invI [of olds c', OF _ _ s(2)]) (simp_all add: True i(3))
  next
    case False
    then have l: "i < length olds" "(olds @ [c])[i := c'] = olds[i := c'] @ [c]" "(olds @ [c]) ! i = olds ! i"
      using i(1) by (simp_all add: list_update_append nth_append)
    then have "ending ((olds @ [c]) ! i)" using s(2) by simp
    then have e: "ending c'" "holds (cMain c') \<longrightarrow> holds (cMain ((olds @ [c]) ! i))" using step_ending [OF i(2)] by simp_all
    have "exclusive ((olds @ [c])[i := c'])" by (rule exclusive_update [OF s(4)]) (use e(2) in simp)
    moreover have "last_role t c" using s(3) by (simp add: i(3) last_role_def directory_def cong: Sender.case_cong)
    moreover have "o' \<in> set (olds[i := c']) \<Longrightarrow> ending o'" for o' by (rule ending_update [OF s(2) e(1)])
    ultimately show ?thesis by (intro operator_invI [of "olds[i := c']" c]) (simp_all add: l(2) i(3))
  qed
qed

lemma receive_step_inv:
  assumes "operator_inv s" "operator_step (Receive i) s = Some t"
  shows "operator_inv t"
proof -
  obtain olds c where s: "rCollectors s = olds @ [c]" "\<And>o'. o' \<in> set olds \<Longrightarrow> ending o'" "last_role s c" "exclusive (olds @ [c])"
    using assms(1) by (auto simp: operator_inv_def)
  obtain q c' where i: "rSender s = Sending q" "i < Suc (length olds)" "receive q ((olds @ [c]) ! i) = Some c'"
    "t = s\<lparr>rSender := Sent, rCollectors := (olds @ [c])[i := c']\<rparr>"
    using assms(2) s(1) by (auto simp: update_collector_def split: if_splits option.splits Sender.splits)
  have "i = length olds"
  proof (rule ccontr)
    assume "i \<noteq> length olds"
    then have "ending ((olds @ [c]) ! i)" using i(2) s(2) by (simp add: nth_append)
    then show False using i(3) receive_ending by simp
  qed
  moreover have e: "ending c'" "holds (cMain c') \<longrightarrow> holds (cMain c)"
    using receive_serving [of q c c'] i s(3) calculation by (auto simp: last_role_def)
  moreover have "exclusive ((olds @ [c])[i := c'])" by (rule exclusive_update [OF s(4)]) (use e(2) calculation(1) in simp)
  ultimately show ?thesis by (intro operator_invI [of olds c', OF _ _ s(2)]) (simp_all add: i(4) last_role_def)
qed

lemma step_inv:
  assumes "operator_inv s" "operator_step a s = Some t"
  shows "operator_inv t"
proof -
  obtain olds c where s: "rCollectors s = olds @ [c]" "\<And>o'. o' \<in> set olds \<Longrightarrow> ending o'" "last_role s c" "exclusive (olds @ [c])"
    using assms(1) by (auto simp: operator_inv_def)
  show ?thesis
  proof (cases a)
    case (Apply spec)
    obtain policies restart p where u: "applyPolicySpec spec (rPolicies s) = ((policies, restart), p)" by (metis prod.collapse)
    then have t: "rSender s = Idle" "t = s\<lparr>rPolicies := p, rSender := (if restart then Sending (rQuit s) else Idle)\<rparr>"
      using assms(2) Apply by (auto split: if_splits)
    have "last_role t c" using s(3) directory_kept [of spec "rPolicies s" policies p] u
      by (cases restart) (simp_all add: t last_role_def directory_def)
    then show ?thesis by (intro operator_invI [OF s(4) _ s(2)]) (simp_all add: t s(1))
  next
    case MakeQuit
    then have "rSender s = Sent" "t = s\<lparr>rQuit := rQuit s + 1, rSender := Replaced\<rparr>" using assms(2) by (auto split: if_splits)
    then show ?thesis using s(3) by (intro operator_invI [OF s(4) _ s(2)]) (simp_all add: last_role_def s(1))
  next
    case Spawn
    then have t: "t = s\<lparr>rCollectors := (olds @ [c]) @ [new_collector], rSender := Idle\<rparr>" "ending c"
      using assms(2) s(1,3) by (simp_all add: last_role_def split: if_splits)
    have "o' \<in> set (olds @ [c]) \<Longrightarrow> ending o'" for o' using t(2) s(2) by auto
    moreover have "last_role t new_collector" by (simp add: t(1) last_role_def new_collector_def serving_def)
    moreover have "exclusive ((olds @ [c]) @ [new_collector])" by (rule exclusive_append [OF s(4)]) (simp add: new_collector_def)
    ultimately show ?thesis by (intro operator_invI [of "olds @ [c]" new_collector]) (simp_all add: t(1))
  next
    case (Step i b)
    then show ?thesis using collector_step_inv assms by blast
  next
    case (Receive i)
    then show ?thesis using receive_step_inv assms by blast
  qed
qed

lemma run_inv: "run as s = Some t \<Longrightarrow> operator_inv s \<Longrightarrow> operator_inv t"
  by (induction as arbitrary: s) (auto intro: step_inv split: option.splits)

lemma setup_inv: "operator_inv (SetupWithManager p)"
  by (rule operator_invI [of "[]" new_collector])
    (auto simp: SetupWithManager_def last_role_def new_collector_def serving_def exclusive_def)

section \<open>Progress\<close>

text \<open>The steps a collector and the reconciler still have before them.\<close>

fun main_work :: "Main \<Rightarrow> nat" where
  "main_work Wanting = 4" | "main_work Creating = 3" | "main_work (Parked q) = 1" | "main_work Adding = 2"
| "main_work (Watching w) = 1" | "main_work Returned = 0"

fun loop_work :: "Loop \<Rightarrow> nat" where
  "loop_work NoLoop = 4" | "loop_work Starting = 3" | "loop_work (Listening q) = 2" | "loop_work Stopping = 1" | "loop_work Stopped = 0"

fun pods_work :: "Pods \<Rightarrow> nat" where
  "pods_work NoPods = 3" | "pods_work PodsStarting = 2" | "pods_work PodsWatching = 1" | "pods_work PodsDone = 0"

fun sender_work :: "Sender \<Rightarrow> nat" where
  "sender_work Idle = 0" | "sender_work (Sending q) = 14" | "sender_work Sent = 13" | "sender_work Replaced = 12"

definition collector_work :: "Collector \<Rightarrow> nat" where
  "collector_work c = main_work (cMain c) + loop_work (cLoop c) + pods_work (cPods c)"

definition work :: "Operator \<Rightarrow> nat" where
  "work s = sender_work (rSender s) + sum_list (map collector_work (rCollectors s))"

lemma local_works:
  assumes "runGarbageCollector a free q d c = Some c'" "a \<noteq> Event" "cMain c = Creating \<longrightarrow> cLoop c = NoLoop \<and> cPods c = NoPods"
  shows "collector_work c' < collector_work c"
  using assms(1)
proof (cases rule: collector_cases)
  case (Loop l)
  show ?thesis using Loop(1) by (cases rule: event_loop_cases) (use assms(2) Loop(2) in \<open>simp_all add: collector_work_def\<close>)
next
  case (Pods p)
  show ?thesis using Pods(1) by (cases rule: PodWatcher_cases) (use Pods(2) in \<open>simp_all add: collector_work_def\<close>)
qed (use assms(3) in \<open>simp_all add: collector_work_def\<close>)

lemma receive_works: "receive q c = Some c' \<Longrightarrow> collector_work c' < collector_work c"
  by (auto simp: receive_def collector_work_def split: if_splits)

lemma work_update: "i < length cs \<Longrightarrow> collector_work c' < collector_work (cs ! i) \<Longrightarrow>
    sum_list (map collector_work (cs[i := c'])) < sum_list (map collector_work cs)"
proof (induction cs arbitrary: i)
  case (Cons a cs)
  then show ?case by (cases i) auto
qed simp

text \<open>A collector with work left can do it, if it is told to end or need not wait for the lock.\<close>

lemma ending_progress: "ending c \<Longrightarrow> \<not> ended c \<Longrightarrow> \<exists>a c'. a \<noteq> Event \<and> runGarbageCollector a free q d c = Some c'"
proof -
  assume c: "ending c" "\<not> ended c"
  consider "cMain c = Adding" | "cLoop c = Stopping" | w where "cMain c = Watching w" "cLoop c = Stopped" | "cPods c = PodsStarting"
    | "cPods c = PodsWatching" "cLoop c = Stopped"
    using c by (cases "cPods c") (auto simp: ending_def ended_def)
  then show ?thesis
  proof cases
    case 1 then show ?thesis by (intro exI [of _ "Add True"]) simp
  next
    case 2 then show ?thesis by (intro exI [of _ Stop]) simp
  next
    case 3 then show ?thesis by (intro exI [of _ Return]) simp
  next
    case 4 then show ?thesis by (intro exI [of _ "PodsStart True"]) simp
  next
    case 5 then show ?thesis by (intro exI [of _ PodsStop]) simp
  qed
qed

lemma serving_progress:
  assumes "serving q c" "cMain c = Wanting \<longrightarrow> free" "\<not> (cMain c = Parked q \<or> (\<exists>w. cMain c = Watching w) \<and> cLoop c = Listening q \<and> cPods c \<noteq> PodsStarting)"
  shows "\<exists>a c'. a \<noteq> Event \<and> runGarbageCollector a free r d c = Some c'"
proof -
  consider "cMain c = Wanting" free | "cMain c = Creating" | "cMain c = Adding" | "cLoop c = Starting" | "cPods c = PodsStarting"
    using assms by (auto simp: serving_def)
  then show ?thesis
  proof cases
    case 1 then show ?thesis by (intro exI [of _ Lock]) simp
  next
    case 2 then show ?thesis by (intro exI [of _ "NewWatcher True"]) simp
  next
    case 3 then show ?thesis by (intro exI [of _ "Add True"]) simp
  next
    case 4 then show ?thesis by (intro exI [of _ Enter]) simp
  next
    case 5 then show ?thesis by (intro exI [of _ "PodsStart True"]) simp
  qed
qed

lemma inv_creating:
  assumes "operator_inv s" "c \<in> set (rCollectors s)" "cMain c = Creating"
  shows "cLoop c = NoLoop \<and> cPods c = NoPods"
proof -
  obtain olds l where "rCollectors s = olds @ [l]" "\<forall>o' \<in> set olds. ending o'" "last_role s l"
    using assms(1) by (auto simp: operator_inv_def)
  then have "ending c \<or> (\<exists>q. serving q c)" using assms(2) by (auto simp: last_role_def split: Sender.splits)
  then show ?thesis using assms(3) by (auto simp: ending_def serving_def)
qed

lemma step_works:
  assumes "operator_inv s" "operator_step a s = Some t" "internal a"
  shows "work t < work s"
proof (cases a)
  case (Step i b)
  have b: "b \<noteq> Event" using assms(3) Step by (cases "b = Event") auto
  obtain free c' where i: "i < length (rCollectors s)" "runGarbageCollector b free (rQuit s) (directory s) (rCollectors s ! i) = Some c'"
    "t = s\<lparr>rCollectors := (rCollectors s)[i := c']\<rparr>"
    using assms(2) Step by (auto simp: update_collector_def split: if_splits option.splits)
  have "collector_work c' < collector_work (rCollectors s ! i)"
    using local_works [OF i(2) b] inv_creating [OF assms(1) nth_mem [OF i(1)]] by blast
  then show ?thesis using work_update [OF i(1)] by (simp add: work_def i(3))
next
  case (Receive i)
  obtain q c' where i: "rSender s = Sending q" "i < length (rCollectors s)" "receive q (rCollectors s ! i) = Some c'"
    "t = s\<lparr>rSender := Sent, rCollectors := (rCollectors s)[i := c']\<rparr>"
    using assms(2) Receive by (auto simp: update_collector_def split: if_splits option.splits Sender.splits)
  then show ?thesis using work_update [OF i(2) receive_works [OF i(3)]] by (simp add: work_def)
next
  case (Apply spec)
  then show ?thesis using assms(3) by simp
next
  case MakeQuit
  then show ?thesis using assms(2) by (auto simp: work_def split: if_splits)
next
  case Spawn
  then show ?thesis using assms(2) by (auto simp: work_def collector_work_def new_collector_def split: if_splits)
qed

lemma run_works: "run as s = Some t \<Longrightarrow> operator_inv s \<Longrightarrow> list_all internal as \<Longrightarrow> length as + work t \<le> work s"
proof (induction as arbitrary: s)
  case (Cons a as)
  then obtain u where u: "operator_step a s = Some u" "run as u = Some t" by (auto split: option.splits)
  then show ?case using Cons step_works [of s a u] step_inv [of s a u] by fastforce
qed simp

lemma local_step:
  assumes "i < length (rCollectors s)" "\<exists>a c'. a \<noteq> Event \<and>
    runGarbageCollector a (list_all (\<lambda>c. \<not> holds (cMain c)) (rCollectors s)) (rQuit s) (directory s) (rCollectors s ! i) = Some c'"
  shows "\<exists>a t. internal a \<and> operator_step a s = Some t"
proof -
  obtain a c' where "a \<noteq> Event"
    "runGarbageCollector a (list_all (\<lambda>c. \<not> holds (cMain c)) (rCollectors s)) (rQuit s) (directory s) (rCollectors s ! i) = Some c'"
    using assms(2) by blast
  moreover have "internal (Step i a)" using calculation(1) by (cases a) auto
  ultimately show ?thesis using assms(1) by (intro exI [of _ "Step i a"]) (simp add: update_collector_def)
qed

lemma old_step:
  assumes "rCollectors s = olds @ [c]" "o' \<in> set olds" "ending o'" "\<not> ended o'"
  shows "\<exists>a t. internal a \<and> operator_step a s = Some t"
proof -
  obtain i where "i < length olds" "olds ! i = o'" using assms(2) by (auto simp: in_set_conv_nth)
  then show ?thesis using ending_progress [OF assms(3,4)] assms(1) by (intro local_step [of i]) (auto simp: nth_append)
qed

text \<open>The last collector at rest: the operator has settled, or the restart reaches it.\<close>

lemma rest_progress:
  assumes s: "rCollectors s = olds @ [c]" "last_role s c" and olds: "\<And>o'. o' \<in> set olds \<Longrightarrow> ended o'"
    and serv: "serving (rQuit s) c" and send: "rSender s = Idle \<or> rSender s = Sending (rQuit s)"
    and rest: "cMain c = Parked (rQuit s) \<or>
      (\<exists>w. cMain c = Watching w) \<and> cLoop c = Listening (rQuit s) \<and> cPods c \<noteq> PodsStarting"
  shows "settled s \<or> (\<exists>a t. internal a \<and> operator_step a s = Some t)"
proof (cases "rSender s = Idle")
  case True
  then have "cMain c = Watching w \<Longrightarrow> w = None \<or> w = Some (directory s)" for w
    using s(2) by (cases w) (simp_all add: last_role_def)
  then have "waiting (rQuit s) (directory s) c"
    using rest serv by (cases "cPods c") (auto simp: waiting_def serving_def)
  then show ?thesis using True olds by (simp add: settled_def s(1) list_all_iff)
next
  case False
  then have "rSender s = Sending (rQuit s)" "\<exists>c'. receive (rQuit s) c = Some c'" using send rest by (auto simp: receive_def)
  then show ?thesis by (intro disjI2 exI [of _ "Receive (length olds)"]) (auto simp: s(1) update_collector_def)
qed

lemma progress:
  assumes "operator_inv s"
  shows "settled s \<or> (\<exists>a t. internal a \<and> operator_step a s = Some t)"
proof -
  obtain olds c where s: "rCollectors s = olds @ [c]" "\<And>o'. o' \<in> set olds \<Longrightarrow> ending o'" "last_role s c"
    using assms by (auto simp: operator_inv_def)
  consider o' where "o' \<in> set olds" "\<not> ended o'" | "rSender s = Sent" | "rSender s = Replaced"
    | "\<And>o'. o' \<in> set olds \<Longrightarrow> ended o'" "serving (rQuit s) c" "rSender s = Idle \<or> rSender s = Sending (rQuit s)"
    using s(3) by (cases "rSender s") (auto simp: last_role_def)
  then show ?thesis
  proof cases
    case 1
    then show ?thesis using old_step [OF s(1)] s(2) by blast
  next
    case 2
    then show ?thesis by (intro disjI2 exI [of _ MakeQuit]) simp
  next
    case 3
    then show ?thesis by (intro disjI2 exI [of _ Spawn]) simp
  next
    case 4
    let ?rest = "cMain c = Parked (rQuit s) \<or> (\<exists>w. cMain c = Watching w) \<and> cLoop c = Listening (rQuit s) \<and> cPods c \<noteq> PodsStarting"
    show ?thesis
    proof (cases ?rest)
      case False
      have "cMain c = Wanting \<longrightarrow> list_all (\<lambda>c. \<not> holds (cMain c)) (rCollectors s)"
        using 4(1) by (auto simp: s(1) list_all_iff ended_def)
      then show ?thesis using serving_progress [OF 4(2) _ False] by (intro disjI2 local_step [of "length olds"]) (simp_all add: s(1))
    next
      case True
      then show ?thesis using rest_progress [OF s(1,3) 4] by blast
    qed
  qed
qed

lemma run_append: "run (as @ bs) s = (case run as s of None \<Rightarrow> None | Some t \<Rightarrow> run bs t)"
  by (induction as arbitrary: s) (auto split: option.splits)

lemma settles: "operator_inv s \<Longrightarrow> \<exists>as t. list_all internal as \<and> run as s = Some t \<and> settled t"
proof (induction "work s" arbitrary: s rule: less_induct)
  case less
  show ?case
  proof (cases "settled s")
    case True
    then show ?thesis by (intro exI [of _ "[]"]) simp
  next
    case False
    then obtain a u where a: "internal a" "operator_step a s = Some u" using progress less(2) by blast
    then obtain as t where "list_all internal as" "run as u = Some t" "settled t"
      using less(1) [of u] step_works [of s a u] step_inv [of s a u] less(2) by blast
    then show ?thesis using a by (intro exI [of _ "a # as"]) auto
  qed
qed

text \<open>C17: However the goroutines of the collectors, reconciles and file events interleave and whichever calls fail, at
  most one collector holds the lock and no restart is lost or deadlocks. The goroutines on their own make
  a bounded number of steps; where they stop, all former collectors have returned with their event loops
  and pod watchers, and the last one listens on the channel of the next restart and watches the directory
  of the policies now in force, unless the watch could not be set up. Such a state is always reached.\<close>

theorem collector_handover:
  assumes "run as (SetupWithManager p) = Some s"
  shows "exclusive (rCollectors s) \<and>
    (\<forall>bs t. list_all internal bs \<and> run bs s = Some t \<longrightarrow>
       length bs \<le> work s \<and> (settled t \<or> (\<exists>a u. internal a \<and> operator_step a t = Some u))) \<and>
    (\<exists>bs t. list_all internal bs \<and> run bs s = Some t \<and> settled t)"
proof -
  have s: "operator_inv s" by (rule run_inv [OF assms setup_inv])
  then have "exclusive (rCollectors s)" by (simp add: operator_inv_def)
  moreover have "length bs \<le> work s \<and> (settled t \<or> (\<exists>a u. internal a \<and> operator_step a t = Some u))"
    if "list_all internal bs" "run bs s = Some t" for bs t
    using run_works [OF that(2) s that(1)] progress [OF run_inv [OF that(2) s]] by simp
  ultimately show ?thesis using settles [OF s] by blast
qed

definition moved :: CheckpointRestoreOperatorSpec where
  "moved = \<lparr>CheckpointDirectory = ''/data'', ApplyPoliciesImmediately = False,
     GlobalPolicies = \<lparr>gRetainOrphan = None, gMaxCheckpointsPerNamespaces = None, gMaxCheckpointsPerPod = None,
       gMaxCheckpointsPerContainer = None, gMaxCheckpointSize = None, gMaxTotalSizePerNamespace = None,
       gMaxTotalSizePerPod = None, gMaxTotalSizePerContainer = None\<rparr>,
     ContainerPolicies = [], PodPolicies = [], NamespacePolicies = []\<rparr>"

definition moving :: "Action list" where
  "moving = [Step 0 Lock, Step 0 (NewWatcher True), Step 0 Enter, Step 0 (Add True), Apply moved, Receive 0, MakeQuit, Spawn]"

theorem collector_handover_witness:
  "map_option (\<lambda>s. map cMain (rCollectors s)) (run moving (SetupWithManager initialPolicyState)) =
     Some [Watching (Some ''/var/lib/kubelet/checkpoints''), Wanting] \<and>
   (\<exists>s bs t. run moving (SetupWithManager initialPolicyState) = Some s \<and> list_all internal bs \<and> run bs s = Some t \<and> settled t)"
proof -
  have m: "map_option (\<lambda>s. map cMain (rCollectors s)) (run moving (SetupWithManager initialPolicyState)) =
      Some [Watching (Some ''/var/lib/kubelet/checkpoints''), Wanting]"
    by code_simp
  then obtain s where s: "run moving (SetupWithManager initialPolicyState) = Some s" by blast
  then show ?thesis using m collector_handover [OF s] by blast
qed

end
