(* ===== verification/Checkpoint_Pinning.thy ===== *)
theory Checkpoint_Pinning
  imports Go_OS
begin

text \<open>
  \<^verbatim>\<open>internal/controller/checkpoint_pinning.go\<close> and the pin functions of
  \<^verbatim>\<open>internal/controller/podrestore_controller.go\<close>: the \<^verbatim>\<open>.keep\<close> marker next to an archive,
  which the retention garbage collector honours and PodRestores share by owner entries.
  The functions run under \<^verbatim>\<open>podRestorePinMu\<close>, so each is one atomic step on the file
  system, but for the check of the archive that precedes the lock in \<open>pinCheckpoint\<close>. The JSON codec of the marker is a parameter; \<open>marker_codec\<close> is what the code
  relies on, and it is interpreted on the encoding that \<^verbatim>\<open>encoding/json\<close> produces.

  The lemmas give the abstract state of an archive's pin (none, foreign marker, or a set
  of owners), the refinement of it by the marker operations, and the safety of a pin under
  any interleaving of the garbage collector with other restores.
\<close>

section \<open>Definitions\<close>

record podRestorePinMarker =
  ManagedBy :: string
  Owners :: "string list"

record MarkerCodec =
  json_Marshal :: "podRestorePinMarker \<Rightarrow> string"
  json_Unmarshal :: "string \<Rightarrow> podRestorePinMarker option"

definition podRestorePinManager :: string where
  "podRestorePinManager = ''checkpoint-restore-operator/podrestore''"

definition keep_path :: "string \<Rightarrow> string" where
  "keep_path archivePath = archivePath @ ''.keep''"

definition isCheckpointPinned :: "FS \<Rightarrow> string \<Rightarrow> bool" where
  "isCheckpointPinned fs archivePath =
     (case os_Stat fs (keep_path archivePath) of Inl _ \<Rightarrow> False | Inr _ \<Rightarrow> True)"

definition removeArchiveUnlessPinned :: "string \<Rightarrow> FS \<Rightarrow> FS" where
  "removeArchiveUnlessPinned archive fs =
     (if isCheckpointPinned fs archive then fs else snd (os_Remove fs archive))"

text \<open>The pair \<open>(deletable, pinned)\<close>, both in input order.\<close>

fun partitionArchives :: "FS \<Rightarrow> string list \<Rightarrow> string list \<times> string list" where
  "partitionArchives fs [] = ([], [])"
| "partitionArchives fs (a # archives) =
     (case partitionArchives fs archives of
        (deletable, pinned) \<Rightarrow>
          if isCheckpointPinned fs a then (deletable, a # pinned) else (a # deletable, pinned))"

definition containsString :: "string list \<Rightarrow> string \<Rightarrow> bool" where
  "containsString items want = list_ex (\<lambda>item. item = want) items"

definition removeString :: "string list \<Rightarrow> string \<Rightarrow> string list" where
  "removeString items remove = filter (\<lambda>item. item \<noteq> remove) items"

definition parsePodRestorePinMarker :: "MarkerCodec \<Rightarrow> string \<Rightarrow> podRestorePinMarker option" where
  "parsePodRestorePinMarker codec data =
     (case json_Unmarshal codec data of
        None \<Rightarrow> None
      | Some marker \<Rightarrow> if ManagedBy marker \<noteq> podRestorePinManager then None else Some marker)"

definition writePodRestorePinMarker ::
  "MarkerCodec \<Rightarrow> string \<Rightarrow> podRestorePinMarker \<Rightarrow> FS \<Rightarrow> OsError option \<times> FS" where
  "writePodRestorePinMarker codec path marker fs =
     (let data = json_Marshal codec marker @ [CHR 0x0A];
          tmp = path @ ''.tmp''
      in case os_WriteFile fs tmp data of
           (Some err, fs1) \<Rightarrow> (Some err, fs1)
         | (None, fs1) \<Rightarrow>
             (case os_Rename fs1 tmp path of
                (Some err, fs2) \<Rightarrow> (Some err, snd (os_Remove fs2 tmp))
              | (None, fs2) \<Rightarrow> (None, fs2)))"

text \<open>The answer of a marker write as the pin functions use it.\<close>

definition written :: "OsError option \<times> FS \<Rightarrow> bool \<times> FS" where
  "written r = (fst r = None, snd r)"

text \<open>
  The part of \<open>pinCheckpoint\<close> under the mutex. The check that the archive exists comes before
  the mutex is taken, so other steps can happen between the two.
\<close>

definition pin_locked :: "MarkerCodec \<Rightarrow> string \<Rightarrow> string \<Rightarrow> FS \<Rightarrow> bool \<times> FS" where
  "pin_locked codec path owner fs =
     (let keep = path @ ''.keep''
      in case os_ReadFile fs keep of
           Inl ErrNotExist \<Rightarrow>
             written (writePodRestorePinMarker codec keep
               \<lparr>ManagedBy = podRestorePinManager, Owners = [owner]\<rparr> fs)
         | Inl ErrIO \<Rightarrow> (False, fs)
         | Inr data \<Rightarrow>
             (case parsePodRestorePinMarker codec data of
                None \<Rightarrow> (True, fs)
              | Some marker \<Rightarrow>
                  if containsString (Owners marker) owner then (True, fs)
                  else written (writePodRestorePinMarker codec keep
                         (marker\<lparr>Owners := sort (Owners marker @ [owner])\<rparr>) fs)))"

definition pinCheckpoint :: "MarkerCodec \<Rightarrow> string \<Rightarrow> string \<Rightarrow> FS \<Rightarrow> bool \<times> FS" where
  "pinCheckpoint codec path owner fs =
     (case os_Stat fs path of Inl _ \<Rightarrow> (False, fs) | Inr _ \<Rightarrow> pin_locked codec path owner fs)"

definition unpinCheckpoint :: "MarkerCodec \<Rightarrow> string \<Rightarrow> string \<Rightarrow> FS \<Rightarrow> FS" where
  "unpinCheckpoint codec path owner fs =
     (let keep = path @ ''.keep''
      in case os_ReadFile fs keep of
           Inl _ \<Rightarrow> fs
         | Inr data \<Rightarrow>
             (case parsePodRestorePinMarker codec data of
                None \<Rightarrow> fs
              | Some marker \<Rightarrow>
                  let owners = removeString (Owners marker) owner
                  in if length owners = length (Owners marker) then fs
                     else if owners \<noteq> [] then
                       snd (writePodRestorePinMarker codec keep (marker\<lparr>Owners := owners\<rparr>) fs)
                     else snd (os_Remove fs keep)))"

subsection \<open>The encoding of the marker\<close>

text \<open>
  What \<open>json.Marshal\<close> writes for the marker: strings are quoted, quotes and backslashes
  are escaped, the three HTML characters are written as code points, and an empty owner
  list is omitted. The decoder reads this format back, with a final newline.
\<close>

abbreviation dquote :: char where "dquote \<equiv> CHR 0x22"
abbreviation backslash :: char where "backslash \<equiv> CHR 0x5C"

definition json_esc :: "char \<Rightarrow> string" where
  "json_esc c =
     (if c = dquote \<or> c = backslash then [backslash, c]
      else if c = CHR ''<'' then backslash # ''u003c''
      else if c = CHR ''>'' then backslash # ''u003e''
      else if c = CHR ''&'' then backslash # ''u0026''
      else [c])"

definition json_string :: "string \<Rightarrow> string" where
  "json_string s = dquote # concat (map json_esc s) @ [dquote]"

fun json_strings :: "string list \<Rightarrow> string" where
  "json_strings [] = '']''"
| "json_strings (s # ss) = json_string s @ (if ss = [] then '']'' else CHR '','' # json_strings ss)"

definition key_managedBy :: string where
  "key_managedBy = CHR 0x7B # json_string ''managedBy'' @ '':''"

definition key_owners :: string where
  "key_owners = '','' @ json_string ''podRestoreOwners'' @ '':[''"

definition marshal_marker :: "podRestorePinMarker \<Rightarrow> string" where
  "marshal_marker m =
     key_managedBy @ json_string (ManagedBy m) @
     (if Owners m = [] then [] else key_owners @ json_strings (Owners m)) @ [CHR 0x7D]"

text \<open>After an opening quote: the string up to the closing quote, and what follows.\<close>

fun parse_str :: "string \<Rightarrow> (string \<times> string) option" where
  "parse_str [] = None"
| "parse_str (c # s) =
     (if c = dquote then Some ([], s)
      else if c = backslash then
        (case s of
           [] \<Rightarrow> None
         | d # t \<Rightarrow>
             if d = CHR ''u'' then
               (case t of
                  e1 # e2 # e3 # e4 # u \<Rightarrow>
                    (let ch = (if [e1, e2, e3, e4] = ''003c'' then Some (CHR ''<'')
                               else if [e1, e2, e3, e4] = ''003e'' then Some (CHR ''>'')
                               else if [e1, e2, e3, e4] = ''0026'' then Some (CHR ''&'')
                               else None)
                     in case (ch, parse_str u) of
                          (Some x, Some (r, v)) \<Rightarrow> Some (x # r, v)
                        | _ \<Rightarrow> None)
                | _ \<Rightarrow> None)
             else (case parse_str t of None \<Rightarrow> None | Some (r, v) \<Rightarrow> Some (d # r, v)))
      else (case parse_str s of None \<Rightarrow> None | Some (r, v) \<Rightarrow> Some (c # r, v)))"

definition parse_quoted :: "string \<Rightarrow> (string \<times> string) option" where
  "parse_quoted s = (case s of [] \<Rightarrow> None | c # t \<Rightarrow> if c = dquote then parse_str t else None)"

text \<open>The elements of an array, at most \<open>n\<close> of them, up to the closing bracket.\<close>

fun parse_strings :: "nat \<Rightarrow> string \<Rightarrow> (string list \<times> string) option" where
  "parse_strings 0 s = None"
| "parse_strings (Suc n) s =
     (case parse_quoted s of
        None \<Rightarrow> None
      | Some (x, t) \<Rightarrow>
          (case t of
             [] \<Rightarrow> None
           | c # u \<Rightarrow>
               if c = CHR '']'' then Some ([x], u)
               else if c = CHR '','' then
                 (case parse_strings n u of None \<Rightarrow> None | Some (xs, v) \<Rightarrow> Some (x # xs, v))
               else None))"

definition unmarshal_marker :: "string \<Rightarrow> podRestorePinMarker option" where
  "unmarshal_marker s =
     (case CutPrefix s key_managedBy of
        None \<Rightarrow> None
      | Some r \<Rightarrow>
          (case parse_quoted r of
             None \<Rightarrow> None
           | Some (mb, t) \<Rightarrow>
               if t = [CHR 0x7D, CHR 0x0A] then Some \<lparr>ManagedBy = mb, Owners = []\<rparr>
               else case CutPrefix t key_owners of
                 None \<Rightarrow> None
               | Some u \<Rightarrow>
                   (case parse_strings (length u) u of
                      None \<Rightarrow> None
                    | Some (os, v) \<Rightarrow>
                        if v = [CHR 0x7D, CHR 0x0A] then Some \<lparr>ManagedBy = mb, Owners = os\<rparr>
                        else None)))"

definition go_json :: MarkerCodec where
  "go_json = \<lparr>json_Marshal = marshal_marker, json_Unmarshal = unmarshal_marker\<rparr>"

subsection \<open>Abstract pin state\<close>

datatype PinState = Unpinned | ForeignPin | ManagedPin "string set"

definition pin_state :: "MarkerCodec \<Rightarrow> FS \<Rightarrow> string \<Rightarrow> PinState" where
  "pin_state codec fs path =
     (case fs_lookup fs (keep_path path) of
        None \<Rightarrow> Unpinned
      | Some f \<Rightarrow>
          (case parsePodRestorePinMarker codec (fContent f) of
             None \<Rightarrow> ForeignPin
           | Some marker \<Rightarrow> ManagedPin (set (Owners marker))))"

fun abs_pin :: "string \<Rightarrow> PinState \<Rightarrow> PinState" where
  "abs_pin owner Unpinned = ManagedPin {owner}"
| "abs_pin owner ForeignPin = ForeignPin"
| "abs_pin owner (ManagedPin S) = ManagedPin (insert owner S)"

fun abs_unpin :: "string \<Rightarrow> PinState \<Rightarrow> PinState" where
  "abs_unpin owner (ManagedPin S) =
     (if owner \<notin> S then ManagedPin S
      else if S = {owner} then Unpinned else ManagedPin (S - {owner}))"
| "abs_unpin owner p = p"

subsection \<open>Interleavings\<close>

text \<open>
  What can happen to an archive directory between two steps of one restore: the collector
  removes an archive, any restore pins or unpins an archive, the kubelet or CRI-O writes an
  archive, a user places a marker of their own, and the environment changes which system
  calls fail and what the time is. The paths are those the callers pass: the collector's
  glob patterns and \<open>ValidateCheckpointPath\<close> both demand the \<^verbatim>\<open>.tar\<close> extension.
\<close>

datatype PinEvent =
  GcRemove string
| Pin string string
| Unpin string string
| WriteArchive string FileInfo
| UserMarker string FileInfo
| Environment FS

inductive pin_step :: "MarkerCodec \<Rightarrow> FS \<Rightarrow> PinEvent \<Rightarrow> FS \<Rightarrow> bool" for codec where
  gc: "HasSuffix p ''.tar'' \<Longrightarrow> pin_step codec fs (GcRemove p) (removeArchiveUnlessPinned p fs)"
| pin: "HasSuffix p ''.tar'' \<Longrightarrow> pin_step codec fs (Pin p owner) (snd (pin_locked codec p owner fs))"
| unpin: "HasSuffix p ''.tar'' \<Longrightarrow> pin_step codec fs (Unpin p owner) (unpinCheckpoint codec p owner fs)"
| archive: "HasSuffix p ''.tar'' \<Longrightarrow> pin_step codec fs (WriteArchive p f) (fs_put p f fs)"
| marker: "parsePodRestorePinMarker codec (fContent f) = None \<Longrightarrow>
    pin_step codec fs (UserMarker p f) (fs_put (keep_path p) f fs)"
| environment: "pin_step codec fs (Environment env) (env\<lparr>fsFiles := fsFiles fs\<rparr>)"

inductive pin_steps :: "MarkerCodec \<Rightarrow> FS \<Rightarrow> PinEvent list \<Rightarrow> FS \<Rightarrow> bool" for codec where
  none: "pin_steps codec fs [] fs"
| more: "pin_steps codec fs evs fs1 \<Longrightarrow> pin_step codec fs1 ev fs2 \<Longrightarrow>
    pin_steps codec fs (evs @ [ev]) fs2"

inductive_cases pin_stepE: "pin_step codec fs ev fs'"

subsection \<open>Sequences of pins and unpins\<close>

text \<open>A restore either pins (\<open>True\<close>) or unpins (\<open>False\<close>) the archive under its owner key.\<close>

definition pin_ops :: "MarkerCodec \<Rightarrow> string \<Rightarrow> (bool \<times> string) list \<Rightarrow> FS \<Rightarrow> FS" where
  "pin_ops codec path =
     fold (\<lambda>(pin, owner) fs. if pin then snd (pinCheckpoint codec path owner fs)
                             else unpinCheckpoint codec path owner fs)"

definition net_owners :: "(bool \<times> string) list \<Rightarrow> string set \<Rightarrow> string set" where
  "net_owners = fold (\<lambda>(pin, owner) S. if pin then insert owner S else S - {owner})"

definition owners_state :: "string set \<Rightarrow> PinState" where
  "owners_state S = (if S = {} then Unpinned else ManagedPin S)"

text \<open>No system call of the pin functions fails on this archive.\<close>

definition pin_calls_ok :: "FS \<Rightarrow> string \<Rightarrow> bool" where
  "pin_calls_ok fs path \<longleftrightarrow>
     \<not> fsStatFail fs path \<and> \<not> fsStatFail fs (keep_path path) \<and> \<not> fsReadFail fs (keep_path path) \<and>
     \<not> fsWriteFail fs (keep_path path @ ''.tmp'') \<and> \<not> fsRenameFail fs (keep_path path) \<and>
     \<not> fsRemoveFail fs (keep_path path)"

text \<open>The archive exists and \<open>owner\<close> keeps it: by its own entry or behind a foreign marker.\<close>

definition held :: "MarkerCodec \<Rightarrow> string \<Rightarrow> string \<Rightarrow> FS \<Rightarrow> bool" where
  "held codec path owner fs \<longleftrightarrow>
     fs_lookup fs path \<noteq> None \<and> \<not> fsStatFail fs (keep_path path) \<and>
     (case pin_state codec fs path of
        Unpinned \<Rightarrow> False | ForeignPin \<Rightarrow> True | ManagedPin S \<Rightarrow> owner \<in> S)"

section \<open>Lemmas\<close>

subsection \<open>The encoding round trip\<close>

lemma parse_str_esc: "parse_str (concat (map json_esc s) @ dquote # r) = Some (s, r)"
  by (induction s) (simp_all add: json_esc_def)

lemma parse_quoted_string: "parse_quoted (json_string s @ r) = Some (s, r)"
  by (simp add: parse_quoted_def json_string_def parse_str_esc)

lemma length_json_strings: "length ss \<le> length (json_strings ss)"
  by (induction ss) (auto simp: json_string_def)

lemma parse_strings_json:
  "ss \<noteq> [] \<Longrightarrow> length ss \<le> n \<Longrightarrow> parse_strings n (json_strings ss @ r) = Some (ss, r)"
proof (induction ss arbitrary: n)
  case (Cons s ss)
  then obtain k where "n = Suc k" by (cases n) auto
  with Cons show ?case by (simp add: parse_quoted_string)
qed simp

lemma unmarshal_marshal: "unmarshal_marker (marshal_marker m @ [CHR 0x0A]) = Some m"
proof -
  have c: "CutPrefix (p @ r) p = Some r" for p r by (simp add: CutPrefix_iff)
  show ?thesis
  proof (cases "Owners m = []")
    case True
    then show ?thesis
      by (simp add: unmarshal_marker_def marshal_marker_def c parse_quoted_string)
  next
    case False
    have "parse_strings (length (json_strings (Owners m) @ [CHR 0x7D, CHR 0x0A]))
        (json_strings (Owners m) @ [CHR 0x7D, CHR 0x0A]) = Some (Owners m, [CHR 0x7D, CHR 0x0A])"
      using False length_json_strings [of "Owners m"] by (intro parse_strings_json) auto
    moreover have "key_owners @ x \<noteq> [CHR 0x7D, CHR 0x0A]" for x
      by (simp add: key_owners_def)
    ultimately show ?thesis using False
      by (simp add: unmarshal_marker_def marshal_marker_def c parse_quoted_string)
  qed
qed

text \<open>What the pin functions rely on of \<^verbatim>\<open>encoding/json\<close>.\<close>

locale marker_codec =
  fixes codec :: MarkerCodec
  assumes unmarshal_marshal_nl:
    "json_Unmarshal codec (json_Marshal codec m @ [CHR 0x0A]) = Some m"
begin

lemma parse_written:
  "ManagedBy m = podRestorePinManager \<Longrightarrow>
     parsePodRestorePinMarker codec (json_Marshal codec m @ [CHR 0x0A]) = Some m"
  by (simp add: parsePodRestorePinMarker_def unmarshal_marshal_nl)

end

interpretation go_json: marker_codec go_json
  by unfold_locales (simp add: go_json_def unmarshal_marshal)

subsection \<open>Marker files\<close>

lemma keep_path_inject [simp]: "keep_path a = keep_path b \<longleftrightarrow> a = b"
  by (simp add: keep_path_def)

lemma isCheckpointPinned_iff:
  "isCheckpointPinned fs a \<longleftrightarrow> \<not> fsStatFail fs (keep_path a) \<and> fs_lookup fs (keep_path a) \<noteq> None"
  by (auto simp: isCheckpointPinned_def os_Stat_def split: option.splits)

lemma isCheckpointPinned_cong:
  "same_faults fs fs' \<Longrightarrow> fs_lookup fs' (keep_path a) = fs_lookup fs (keep_path a) \<Longrightarrow>
     isCheckpointPinned fs' a = isCheckpointPinned fs a"
  by (simp add: isCheckpointPinned_iff same_faultsD)

lemma os_WriteFile_frame [fs_frame]:
  "os_WriteFile fs p d = (r, fs') \<Longrightarrow> q \<noteq> p \<Longrightarrow> fs_lookup fs' q = fs_lookup fs q"
  "os_WriteFile fs p d = (r, fs') \<Longrightarrow> same_faults fs fs'"
  by (auto simp: os_WriteFile_def split: if_splits)

lemma os_Rename_frame [fs_frame]:
  "os_Rename fs p q = (r, fs') \<Longrightarrow> x \<noteq> p \<Longrightarrow> x \<noteq> q \<Longrightarrow> fs_lookup fs' x = fs_lookup fs x"
  "os_Rename fs p q = (r, fs') \<Longrightarrow> same_faults fs fs'"
  by (auto simp: os_Rename_def split: option.splits if_splits)

text \<open>The marker write is atomic: it succeeds completely or leaves the marker alone.\<close>

lemma write_marker_cases:
  assumes "writePodRestorePinMarker codec path m fs = (r, fs')"
  shows "same_faults fs fs' \<and>
    (\<forall>q. q \<noteq> path \<longrightarrow> q \<noteq> path @ ''.tmp'' \<longrightarrow> fs_lookup fs' q = fs_lookup fs q) \<and>
    fs_lookup fs' path =
      (case r of
         None \<Rightarrow> Some (new_file fs (json_Marshal codec m @ [CHR 0x0A]))
       | Some _ \<Rightarrow> fs_lookup fs path)"
proof (cases "fsWriteFail fs (path @ ''.tmp'')")
  case True
  then show ?thesis using assms
    by (auto simp: writePodRestorePinMarker_def os_WriteFile_def Let_def)
next
  case False
  then show ?thesis using assms
    by (auto simp: writePodRestorePinMarker_def os_WriteFile_def os_Rename_def os_Remove_def Let_def
        split: if_splits)
qed

lemma write_marker_ok:
  assumes "\<not> fsWriteFail fs (path @ ''.tmp'')" "\<not> fsRenameFail fs path"
  shows "\<exists>fs'. writePodRestorePinMarker codec path m fs = (None, fs')"
  using assms
  by (simp add: writePodRestorePinMarker_def os_WriteFile_def os_Rename_def Let_def fs_put_def
      fs_lookup_def update_conv')

lemma pin_state_cong:
  "fs_lookup fs' (keep_path a) = fs_lookup fs (keep_path a) \<Longrightarrow>
     pin_state codec fs' a = pin_state codec fs a"
  by (simp add: pin_state_def)

lemma containsString_iff [simp]: "containsString items x \<longleftrightarrow> x \<in> set items"
  by (auto simp: containsString_def list_ex_iff)

lemma removeString_simps [simp]:
  "set (removeString items x) = set items - {x}"
  "length (removeString items x) = length items \<longleftrightarrow> x \<notin> set items"
  "removeString items x = [] \<longleftrightarrow> set items \<subseteq> {x}"
  by (auto simp: removeString_def filter_empty_conv)
    (metis (mono_tags, lifting) filter_True length_filter_less less_irrefl)+

context marker_codec
begin

text \<open>A pin that reports success has taken effect; one that reports failure has changed nothing.\<close>

lemma pin_locked_refines:
  assumes "pin_locked codec path owner fs = (ok, fs')"
  shows "pin_state codec fs' path =
    (if ok then abs_pin owner (pin_state codec fs path) else pin_state codec fs path)"
proof -
  have w: "pin_state codec fs' path = (if ok then ManagedPin (set (Owners m)) else pin_state codec fs path)"
    if "written (writePodRestorePinMarker codec (path @ ''.keep'') m fs) = (ok, fs')"
      "ManagedBy m = podRestorePinManager" for m
  proof -
    define r where "r = fst (writePodRestorePinMarker codec (path @ ''.keep'') m fs)"
    have r: "writePodRestorePinMarker codec (path @ ''.keep'') m fs = (r, fs')" "ok = (r = None)"
      using that(1) by (auto simp: written_def r_def prod_eq_iff)
    show ?thesis using write_marker_cases [OF r(1)] r(2) parse_written [OF that(2)]
      by (auto simp: pin_state_def keep_path_def new_file_def split: option.splits)
  qed
  show ?thesis
  proof (cases "fs_lookup fs (path @ ''.keep'')")
    case None
    then show ?thesis using assms w [of "\<lparr>ManagedBy = podRestorePinManager, Owners = [owner]\<rparr>"]
      by (auto simp: pin_locked_def os_ReadFile_def pin_state_def keep_path_def Let_def
          split: sum.splits)
  next
    case (Some f)
    show ?thesis
    proof (cases "parsePodRestorePinMarker codec (fContent f)")
      case None
      then show ?thesis using assms Some
        by (auto simp: pin_locked_def os_ReadFile_def pin_state_def keep_path_def Let_def
            split: sum.splits if_splits)
    next
      case (Some m)
      then have "ManagedBy m = podRestorePinManager"
        by (auto simp: parsePodRestorePinMarker_def split: option.splits if_splits)
      then show ?thesis
        using assms Some \<open>fs_lookup fs (path @ ''.keep'') = Some f\<close>
          w [of "m\<lparr>Owners := sort (Owners m @ [owner])\<rparr>"]
        by (auto simp: pin_locked_def os_ReadFile_def pin_state_def keep_path_def Let_def
            insert_absorb split: sum.splits if_splits)
    qed
  qed
qed

lemma pin_refines:
  assumes "pinCheckpoint codec path owner fs = (ok, fs')"
  shows "pin_state codec fs' path =
    (if ok then abs_pin owner (pin_state codec fs path) else pin_state codec fs path)"
  using assms pin_locked_refines by (auto simp: pinCheckpoint_def split: sum.splits)

end

lemma marker_apart:
  "HasSuffix p ''.tar'' \<Longrightarrow> p \<noteq> keep_path q"
  "HasSuffix p ''.tar'' \<Longrightarrow> p \<noteq> keep_path q @ ''.tmp''"
  "keep_path p \<noteq> keep_path q @ ''.tmp''"
  by (auto simp: HasSuffix_def keep_path_def suffix_def append_eq_append_conv2 append_eq_Cons_conv
      Cons_eq_append_conv)

text \<open>Pinning and unpinning touch the marker of their archive and its temporary file only.\<close>

lemma write_marker_frame:
  "q \<noteq> path \<Longrightarrow> q \<noteq> path @ ''.tmp'' \<Longrightarrow>
     fs_lookup (snd (writePodRestorePinMarker codec path m fs)) q = fs_lookup fs q"
  "same_faults fs (snd (writePodRestorePinMarker codec path m fs))"
  using write_marker_cases [OF prod.collapse [symmetric]] by blast+

lemma pin_locked_frame:
  "q \<noteq> keep_path path \<Longrightarrow> q \<noteq> keep_path path @ ''.tmp'' \<Longrightarrow>
     fs_lookup (snd (pin_locked codec path owner fs)) q = fs_lookup fs q"
  "same_faults fs (snd (pin_locked codec path owner fs))"
  by (auto simp: pin_locked_def Let_def written_def keep_path_def write_marker_frame
      split: sum.splits option.splits OsError.splits)

lemma pinCheckpoint_frame:
  "q \<noteq> keep_path path \<Longrightarrow> q \<noteq> keep_path path @ ''.tmp'' \<Longrightarrow>
     fs_lookup (snd (pinCheckpoint codec path owner fs)) q = fs_lookup fs q"
  "same_faults fs (snd (pinCheckpoint codec path owner fs))"
  by (auto simp: pinCheckpoint_def pin_locked_frame split: sum.splits)

lemma unpinCheckpoint_frame:
  "q \<noteq> keep_path path \<Longrightarrow> q \<noteq> keep_path path @ ''.tmp'' \<Longrightarrow>
     fs_lookup (unpinCheckpoint codec path owner fs) q = fs_lookup fs q"
  "same_faults fs (unpinCheckpoint codec path owner fs)"
  by (auto simp: unpinCheckpoint_def Let_def keep_path_def write_marker_frame os_Remove_def
      split: sum.splits option.splits)

context marker_codec
begin

lemma write_marker_state:
  assumes "writePodRestorePinMarker codec (keep_path path) m fs = (r, fs')"
    "ManagedBy m = podRestorePinManager"
  shows "pin_state codec fs' path =
    (if r = None then ManagedPin (set (Owners m)) else pin_state codec fs path)"
  using write_marker_cases [OF assms(1)] parse_written [OF assms(2)]
  by (auto simp: pin_state_def new_file_def split: option.splits)

text \<open>Unpinning takes the abstract step or, when a system call fails, none.\<close>

text \<open>Unpinning an archive with a marker of the operator that can be read.\<close>

lemma unpin_managed:
  fixes fs path owner
  assumes f: "fs_lookup fs (keep_path path) = Some f"
    and m: "parsePodRestorePinMarker codec (fContent f) = Some m" "ManagedBy m = podRestorePinManager"
    and r: "\<not> fsReadFail fs (keep_path path)"
  defines "fs' \<equiv> unpinCheckpoint codec path owner fs"
  shows "pin_state codec fs' path \<in> {pin_state codec fs path, abs_unpin owner (pin_state codec fs path)} \<and>
    (\<not> fsWriteFail fs (keep_path path @ ''.tmp'') \<and> \<not> fsRenameFail fs (keep_path path) \<and>
      \<not> fsRemoveFail fs (keep_path path) \<longrightarrow> pin_state codec fs' path = abs_unpin owner (pin_state codec fs path))"
proof -
  let ?m = "m\<lparr>Owners := removeString (Owners m) owner\<rparr>"
  obtain r fs1 where w: "writePodRestorePinMarker codec (keep_path path) ?m fs = (r, fs1)"
    by fastforce
  have w1: "pin_state codec fs1 path =
      (if r = None then ManagedPin (set (Owners m) - {owner}) else pin_state codec fs path)"
    using write_marker_state [OF w] m(2) by simp
  have w2: "r = None" if "\<not> fsWriteFail fs (keep_path path @ ''.tmp'')" "\<not> fsRenameFail fs (keep_path path)"
    using write_marker_ok [OF that, of codec ?m] w by simp
  have s: "pin_state codec fs path = ManagedPin (set (Owners m))"
    using f m by (simp add: pin_state_def)
  have u: "fs' = (if owner \<notin> set (Owners m) then fs else if \<not> set (Owners m) \<subseteq> {owner} then fs1
      else snd (os_Remove fs (keep_path path)))"
    using f m r w by (simp add: fs'_def unpinCheckpoint_def os_ReadFile_def Let_def flip: keep_path_def)
  show ?thesis using w1 w2 u s f
    by (auto simp: os_Remove_def pin_state_def split: if_splits)
qed

lemma unpin_refines:
  fixes fs path owner
  defines "fs' \<equiv> unpinCheckpoint codec path owner fs"
  shows "pin_state codec fs' path \<in> {pin_state codec fs path, abs_unpin owner (pin_state codec fs path)}"
    and "\<not> fsReadFail fs (keep_path path) \<Longrightarrow> \<not> fsWriteFail fs (keep_path path @ ''.tmp'') \<Longrightarrow>
      \<not> fsRenameFail fs (keep_path path) \<Longrightarrow> \<not> fsRemoveFail fs (keep_path path) \<Longrightarrow>
      pin_state codec fs' path = abs_unpin owner (pin_state codec fs path)"
proof -
  have *: "pin_state codec fs' path \<in> {pin_state codec fs path, abs_unpin owner (pin_state codec fs path)} \<and>
    (\<not> fsReadFail fs (keep_path path) \<and> \<not> fsWriteFail fs (keep_path path @ ''.tmp'') \<and>
      \<not> fsRenameFail fs (keep_path path) \<and> \<not> fsRemoveFail fs (keep_path path) \<longrightarrow>
      pin_state codec fs' path = abs_unpin owner (pin_state codec fs path))"
  proof (cases "fs_lookup fs (keep_path path)")
    case None
    then have "fs' = fs"
      by (auto simp: fs'_def unpinCheckpoint_def os_ReadFile_def Let_def simp flip: keep_path_def)
    with None show ?thesis by (simp add: pin_state_def)
  next
    case (Some f)
    note f = this
    show ?thesis
    proof (cases "fsReadFail fs (keep_path path) \<or> parsePodRestorePinMarker codec (fContent f) = None")
      case True
      then have "fs' = fs" using f
        by (auto simp: fs'_def unpinCheckpoint_def os_ReadFile_def Let_def simp flip: keep_path_def)
      moreover have "fsReadFail fs (keep_path path) \<or> pin_state codec fs path = ForeignPin"
        using True f by (auto simp: pin_state_def)
      ultimately show ?thesis by auto
    next
      case False
      then obtain m where m: "parsePodRestorePinMarker codec (fContent f) = Some m"
        "ManagedBy m = podRestorePinManager" "\<not> fsReadFail fs (keep_path path)"
        by (auto simp: parsePodRestorePinMarker_def split: option.splits if_splits)
      then show ?thesis using unpin_managed [OF f m(1,2) m(3)] by (simp add: fs'_def)
    qed
  qed
  then show "pin_state codec fs' path \<in> {pin_state codec fs path, abs_unpin owner (pin_state codec fs path)}"
    and "\<not> fsReadFail fs (keep_path path) \<Longrightarrow> \<not> fsWriteFail fs (keep_path path @ ''.tmp'') \<Longrightarrow>
      \<not> fsRenameFail fs (keep_path path) \<Longrightarrow> \<not> fsRemoveFail fs (keep_path path) \<Longrightarrow>
      pin_state codec fs' path = abs_unpin owner (pin_state codec fs path)"
    by simp_all
qed

end

subsection \<open>Interleavings\<close>

lemma held_cong:
  "same_faults fs fs' \<Longrightarrow> fs_lookup fs' path = fs_lookup fs path \<Longrightarrow>
     fs_lookup fs' (keep_path path) = fs_lookup fs (keep_path path) \<Longrightarrow>
     held codec path owner fs' = held codec path owner fs"
  by (simp add: held_def pin_state_def same_faultsD)

lemma held_pinned: "held codec path owner fs \<Longrightarrow> isCheckpointPinned fs path"
  by (auto simp: held_def isCheckpointPinned_iff pin_state_def split: option.splits)

lemma removeArchiveUnlessPinned_frame:
  "q \<noteq> p \<Longrightarrow> fs_lookup (removeArchiveUnlessPinned p fs) q = fs_lookup fs q"
  "isCheckpointPinned fs p \<Longrightarrow> removeArchiveUnlessPinned p fs = fs"
  "same_faults fs (removeArchiveUnlessPinned p fs)"
  by (auto simp: removeArchiveUnlessPinned_def os_Remove_def)

lemma pin_calls_ok_cong: "same_faults fs fs' \<Longrightarrow> pin_calls_ok fs' path = pin_calls_ok fs path"
  by (simp add: pin_calls_ok_def same_faultsD)

lemma abs_owners_state:
  "abs_pin owner (owners_state S) = owners_state (insert owner S)"
  "abs_unpin owner (owners_state S) = owners_state (S - {owner})"
  by (auto simp: owners_state_def)

lemma owners_state_pinned:
  "pin_calls_ok fs path \<Longrightarrow> pin_state codec fs path = owners_state S \<Longrightarrow>
     isCheckpointPinned fs path \<longleftrightarrow> S \<noteq> {}"
  by (auto simp: isCheckpointPinned_iff pin_calls_ok_def pin_state_def owners_state_def
      split: option.splits if_splits)

lemma pin_succeeds:
  assumes "pin_calls_ok fs path" "fs_lookup fs path \<noteq> None"
  shows "fst (pinCheckpoint codec path owner fs)"
proof -
  have "\<exists>fs'. writePodRestorePinMarker codec (keep_path path) m fs = (None, fs')" for m
    using assms by (intro write_marker_ok) (simp_all add: pin_calls_ok_def)
  then have "fst (written (writePodRestorePinMarker codec (keep_path path) m fs))" for m
    by (metis fst_conv written_def)
  then show ?thesis using assms
    by (auto simp: pinCheckpoint_def pin_locked_def os_Stat_def os_ReadFile_def pin_calls_ok_def Let_def
        simp flip: keep_path_def split: option.splits)
qed

context marker_codec
begin

lemma held_pin:
  assumes "held codec path owner fs" "path \<noteq> keep_path p" "path \<noteq> keep_path p @ ''.tmp''"
  shows "held codec path owner (snd (pin_locked codec p o' fs))"
proof (cases "p = path")
  case True
  show ?thesis using assms True
      pin_locked_frame [where path = p and codec = codec and owner = o' and fs = fs]
      pin_locked_refines [of path o' fs "fst (pin_locked codec p o' fs)" "snd (pin_locked codec p o' fs)"]
    by (auto simp: held_def same_faultsD split: PinState.splits)
next
  case False
  then show ?thesis using assms marker_apart(3) [of path p]
      held_cong [OF pin_locked_frame(2) [of fs codec p o'], of path codec owner]
    by (simp add: pin_locked_frame(1))
qed

lemma held_unpin:
  assumes "held codec path owner fs" "path \<noteq> keep_path p" "path \<noteq> keep_path p @ ''.tmp''"
    "p \<noteq> path \<or> o' \<noteq> owner"
  shows "held codec path owner (unpinCheckpoint codec p o' fs)"
proof (cases "p = path")
  case True
  let ?fs = "unpinCheckpoint codec path o' fs"
  have "fs_lookup ?fs path = fs_lookup fs path" "same_faults fs ?fs"
    using assms True by (simp_all add: unpinCheckpoint_frame)
  moreover have "case pin_state codec ?fs path of
      Unpinned \<Rightarrow> False | ForeignPin \<Rightarrow> True | ManagedPin S \<Rightarrow> owner \<in> S"
    using unpin_refines(1) [of path o' fs] assms(1,4) True unfolding held_def
    by (cases "pin_state codec fs path") (auto split: if_splits)
  ultimately show ?thesis using assms(1) True by (simp add: held_def same_faultsD)
next
  case False
  then show ?thesis using assms marker_apart(3) [of path p]
      held_cong [OF unpinCheckpoint_frame(2) [of fs codec p o'], of path codec owner]
    by (simp add: unpinCheckpoint_frame(1))
qed

lemma held_step:
  assumes "pin_step codec fs ev fs'" "held codec path owner fs" "HasSuffix path ''.tar''"
    "ev \<noteq> Unpin path owner" "\<forall>env. ev = Environment env \<longrightarrow> \<not> fsStatFail env (keep_path path)"
  shows "held codec path owner fs'"
  using assms(1)
proof cases
  case (gc p)
  show ?thesis
  proof (cases "p = path")
    case True
    then show ?thesis
      using gc assms(2) removeArchiveUnlessPinned_frame(2) [OF held_pinned [OF assms(2)]] by simp
  next
    case False
    then show ?thesis using gc assms(2) marker_apart(1) [of p path]
        held_cong [OF removeArchiveUnlessPinned_frame(3) [of fs p], of path codec owner]
      by (simp add: removeArchiveUnlessPinned_frame(1))
  qed
next
  case (pin p)
  then show ?thesis using held_pin assms(2) marker_apart(1,2) [OF assms(3)] by blast
next
  case (unpin p o')
  then show ?thesis using held_unpin assms(2,4) marker_apart(1,2) [OF assms(3)] by blast
next
  case (archive p f)
  then show ?thesis using assms(2) marker_apart(1) [of p path]
    by (auto simp: held_def pin_state_def fs_put_def fs_lookup_def update_conv')
next
  case (marker f p)
  then show ?thesis using assms(2) marker_apart(1) [OF assms(3), of p]
    by (cases "p = path") (auto simp: held_def pin_state_def fs_put_def fs_lookup_def update_conv')
next
  case (environment env)
  then show ?thesis using assms(2,5) by (auto simp: held_def pin_state_def fs_lookup_def)
qed

lemma held_steps:
  assumes "pin_steps codec fs evs fs'" "held codec path owner fs" "HasSuffix path ''.tar''"
    "Unpin path owner \<notin> set evs"
    "\<forall>env. Environment env \<in> set evs \<longrightarrow> \<not> fsStatFail env (keep_path path)"
  shows "held codec path owner fs'"
  using assms
proof (induction rule: pin_steps.induct)
  case (more fs evs fs1 ev fs2)
  then show ?case by (intro held_step [of fs1 ev fs2]) auto
qed simp

lemma pin_held:
  assumes "pin_locked codec path owner fs = (True, fs')" "HasSuffix path ''.tar''"
    "fs_lookup fs path \<noteq> None" "\<not> fsStatFail fs (keep_path path)"
  shows "held codec path owner fs'"
  using assms pin_locked_refines [OF assms(1)] marker_apart(1,2) [OF assms(2)]
    pin_locked_frame [where path = path and codec = codec and owner = owner and fs = fs]
  by (cases "pin_state codec fs path") (auto simp: held_def same_faultsD)

lemma pin_ops_state:
  assumes "pin_calls_ok fs path" "fs_lookup fs path \<noteq> None" "HasSuffix path ''.tar''"
    "pin_state codec fs path = owners_state S"
  shows "pin_calls_ok (pin_ops codec path ops fs) path \<and>
    pin_state codec (pin_ops codec path ops fs) path = owners_state (net_owners ops S)"
  using assms
proof (induction ops arbitrary: fs S)
  case (Cons op ops)
  obtain pin owner where op: "op = (pin, owner)" by fastforce
  note a = marker_apart(1,2) [OF Cons.prems(3)]
  show ?case
  proof (cases pin)
    case True
    let ?fs = "snd (pinCheckpoint codec path owner fs)"
    have "pinCheckpoint codec path owner fs = (True, ?fs)"
      using pin_succeeds [OF Cons.prems(1,2)] by (simp add: prod_eq_iff)
    from pin_refines [OF this] have "pin_state codec ?fs path = owners_state (insert owner S)"
      using Cons.prems(4) by (simp add: abs_owners_state)
    with Cons.IH [of ?fs "insert owner S"] Cons.prems a True op show ?thesis
      by (simp add: pin_ops_def net_owners_def pinCheckpoint_frame
          pin_calls_ok_cong [OF pinCheckpoint_frame(2)])
  next
    case False
    let ?fs = "unpinCheckpoint codec path owner fs"
    have "pin_state codec ?fs path = owners_state (S - {owner})"
      using unpin_refines(2) [of fs path owner] Cons.prems(1,4)
      by (simp add: abs_owners_state pin_calls_ok_def)
    with Cons.IH [of ?fs "S - {owner}"] Cons.prems a False op show ?thesis
      by (simp add: pin_ops_def net_owners_def unpinCheckpoint_frame
          pin_calls_ok_cong [OF unpinCheckpoint_frame(2)])
  qed
qed (simp add: pin_ops_def net_owners_def)

end

section \<open>Properties\<close>

definition ex_archive :: string where
  "ex_archive = ''/var/lib/kubelet/checkpoints/checkpoint-web_shop-app-1.tar''"

definition ex_pin_fs :: FS where
  "ex_pin_fs = plain_fs [(ex_archive, \<lparr>fSize = 10, fModTime = 1, fContent = ''data''\<rparr>)]"

lemma ex_archive_tar: "HasSuffix ex_archive ''.tar''"
  by code_simp

lemma ex_pin_fs_faults: "fsStatFail ex_pin_fs p = False" "pin_calls_ok ex_pin_fs p"
  by (simp_all add: ex_pin_fs_def plain_fs_def pin_calls_ok_def)

lemma ex_pin_ok:
  "pinCheckpoint go_json ex_archive ''a'' ex_pin_fs
     = (True, snd (pinCheckpoint go_json ex_archive ''a'' ex_pin_fs))"
  "pin_state go_json ex_pin_fs ex_archive = Unpinned" "fs_lookup ex_pin_fs ex_archive \<noteq> None"
  "pin_locked go_json ex_archive ''a'' ex_pin_fs
     = (True, snd (pinCheckpoint go_json ex_archive ''a'' ex_pin_fs))"
proof -
  have p: "fst (pinCheckpoint go_json ex_archive ''a'' ex_pin_fs)" by code_simp
  then show "pinCheckpoint go_json ex_archive ''a'' ex_pin_fs
     = (True, snd (pinCheckpoint go_json ex_archive ''a'' ex_pin_fs))" by (simp add: prod_eq_iff)
  have "fs_lookup ex_pin_fs (keep_path ex_archive) = None" by code_simp
  then show "pin_state go_json ex_pin_fs ex_archive = Unpinned" by (simp add: pin_state_def)
  show l: "fs_lookup ex_pin_fs ex_archive \<noteq> None" by code_simp
  then have "pinCheckpoint go_json ex_archive ''a'' ex_pin_fs = pin_locked go_json ex_archive ''a'' ex_pin_fs"
    by (auto simp: pinCheckpoint_def os_Stat_def ex_pin_fs_faults)
  with p show "pin_locked go_json ex_archive ''a'' ex_pin_fs
     = (True, snd (pinCheckpoint go_json ex_archive ''a'' ex_pin_fs))" by (simp add: prod_eq_iff)
qed

text \<open>C8: A pin protects its archive from the retention collector. Once the locked part of
  \<open>pinCheckpoint\<close> has answered true for an owner on an archive that exists, the archive
  exists and counts as pinned after any interleaving of collector removals, pins and unpins of
  any archive by any owner, new archives, user markers and failing system calls, as long as
  that owner does not unpin the archive and the marker's \<open>stat\<close> does not fail.\<close>

theorem pinned_archive_survives:
  assumes "marker_codec codec" and "HasSuffix archive ''.tar''"
    and "pin_locked codec archive owner fs0 = (True, fs)" and "fs_lookup fs0 archive \<noteq> None"
    and "\<not> fsStatFail fs0 (keep_path archive)"
    and "pin_steps codec fs evs fs'" and "Unpin archive owner \<notin> set evs"
    and "\<forall>env. Environment env \<in> set evs \<longrightarrow> \<not> fsStatFail env (keep_path archive)"
  shows "fs_lookup fs' archive \<noteq> None \<and> isCheckpointPinned fs' archive"
proof -
  have "held codec archive owner fs'"
    using assms marker_codec.pin_held marker_codec.held_steps by blast
  then show ?thesis using held_pinned by (auto simp: held_def)
qed

theorem pinned_archive_survives_witness:
  "let fs = snd (pinCheckpoint go_json ex_archive ''a'' ex_pin_fs);
       fs' = unpinCheckpoint go_json ex_archive ''b'' (removeArchiveUnlessPinned ex_archive fs)
   in fs_lookup fs' ex_archive \<noteq> None \<and> isCheckpointPinned fs' ex_archive"
proof -
  let ?fs = "snd (pinCheckpoint go_json ex_archive ''a'' ex_pin_fs)"
  let ?fs' = "unpinCheckpoint go_json ex_archive ''b'' (removeArchiveUnlessPinned ex_archive ?fs)"
  have "pin_steps go_json ?fs [GcRemove ex_archive, Unpin ex_archive ''b''] ?fs'"
    using pin_steps.more [OF pin_steps.more [OF pin_steps.none
          pin_step.gc [OF ex_archive_tar]] pin_step.unpin [OF ex_archive_tar]]
    by simp
  from pinned_archive_survives [OF go_json.marker_codec_axioms ex_archive_tar ex_pin_ok(4) ex_pin_ok(3) _ this]
  show ?thesis by (simp add: ex_pin_fs_faults)
qed

text \<open>A pin tells the truth about its effect, also when system calls fail half-way: when
  \<open>pinCheckpoint\<close> answers true the owner has been added to the archive's pin (a marker not
  managed by the operator is left alone), and when it answers false the pin is as before.
  No other file than the marker and its temporary file is touched.\<close>

lemma pin_takes_effect:
  assumes "marker_codec codec" and "pinCheckpoint codec path owner fs = (ok, fs')"
  shows "pin_state codec fs' path =
      (if ok then abs_pin owner (pin_state codec fs path) else pin_state codec fs path) \<and>
    (\<forall>q. q \<notin> {keep_path path, keep_path path @ ''.tmp''} \<longrightarrow> fs_lookup fs' q = fs_lookup fs q)"
  using marker_codec.pin_refines [OF assms] pinCheckpoint_frame(1) [of _ path codec owner fs] assms(2)
  by simp

lemma pin_takes_effect_witness:
  "pin_state go_json (snd (pinCheckpoint go_json ex_archive ''a'' ex_pin_fs)) ex_archive
     = ManagedPin {''a''}"
  using pin_takes_effect [OF go_json.marker_codec_axioms ex_pin_ok(1)] ex_pin_ok(2) by simp

text \<open>C11: Pins are counted by owner. While no system call fails, any sequence of pins and
  unpins by any owners leaves the archive pinned exactly when some owner's last operation
  was a pin: one restore's deletion never releases an archive another one holds, and the
  last one to leave does release it.\<close>

theorem pins_counted_by_owner:
  assumes "marker_codec codec" and "pin_calls_ok fs path" and "fs_lookup fs path \<noteq> None"
    and "HasSuffix path ''.tar''" and "pin_state codec fs path = Unpinned"
  shows "isCheckpointPinned (pin_ops codec path ops fs) path \<longleftrightarrow> net_owners ops {} \<noteq> {}"
proof -
  have "pin_calls_ok (pin_ops codec path ops fs) path"
    "pin_state codec (pin_ops codec path ops fs) path = owners_state (net_owners ops {})"
    using marker_codec.pin_ops_state [OF assms(1-4), of "{}" ops] assms(5)
    by (simp_all add: owners_state_def)
  then show ?thesis by (rule owners_state_pinned)
qed

theorem pins_counted_by_owner_witness:
  "isCheckpointPinned (pin_ops go_json ex_archive
     [(True, ''a''), (True, ''b''), (False, ''a'')] ex_pin_fs) ex_archive \<and>
   \<not> isCheckpointPinned (pin_ops go_json ex_archive
     [(True, ''a''), (True, ''b''), (False, ''a''), (False, ''b'')] ex_pin_fs) ex_archive"
proof -
  have "''b'' \<in> net_owners [(True, ''a''), (True, ''b''), (False, ''a'')] {}"
    "net_owners [(True, ''a''), (True, ''b''), (False, ''a''), (False, ''b'')] {} = {}"
    by (auto simp: net_owners_def)
  then show ?thesis
    using pins_counted_by_owner [OF go_json.marker_codec_axioms ex_pin_fs_faults(2) ex_pin_ok(3)
      ex_archive_tar ex_pin_ok(2)]
    by blast
qed


text \<open>
  The check that the archive exists precedes the lock. A collector removal in between leaves a
  pin that is reported as successful for an archive that is gone.
\<close>

lemma pin_after_removal:
  "isl (os_Stat ex_pin_fs ex_archive) = False \<and>
   (let fs1 = removeArchiveUnlessPinned ex_archive ex_pin_fs
    in fst (pin_locked go_json ex_archive ''a'' fs1) \<and>
       fs_lookup (snd (pin_locked go_json ex_archive ''a'' fs1)) ex_archive = None)"
  by code_simp

end
