(* ===== verification/Retention.thy ===== *)
theory Retention
  imports Checkpoint_Archive Checkpoint_Pinning Retention_Policies
begin

text \<open>
  The retention collector of \<^verbatim>\<open>internal/controller/checkpointrestoreoperator_controller.go\<close>:
  which archives a level of retention considers, the orphan rule, the three limits (size of
  one archive, number, total size), the choice of the archives to delete, the log of
  unreachable limits, and the entry points that apply the policies.

  The state is the file system, the cluster as the API server answers for it, the table of
  reported unreachable limits and the log of reports. How an archive is opened and decoded
  may depend on the file system and is a parameter (\<open>archives\<close>), as are the cluster reads and
  \<open>sort.Slice\<close>, of which only the contract \<open>slice_sorter\<close> is used.
\<close>

section \<open>Definitions\<close>

subsection \<open>Archives and the cluster\<close>

definition getCheckpointArchiveInformation ::
  "(FS \<Rightarrow> ArchiveEnv) \<Rightarrow> FS \<Rightarrow> string \<Rightarrow> ArchiveError + checkpointDetails" where
  "getCheckpointArchiveInformation archives fs checkpointPath =
     (case ReadPodContainerRef (archives fs) checkpointPath of
        Inl err \<Rightarrow> Inl err
      | Inr ref \<Rightarrow> Inr \<lparr>dNamespace = refNamespace ref, dPod = refPod ref,
                       dContainer = refContainer ref\<rparr>)"

record 'w ClusterReader =
  getPodFromNamespace :: "string \<Rightarrow> string \<Rightarrow> 'w \<Rightarrow> (ApiError + Pod) \<times> 'w"
  getNamespace :: "string \<Rightarrow> 'w \<Rightarrow> (ApiError + unit) \<times> 'w"

text \<open>
  The reads through a client that is made anew for each of them. The client library is a parameter;
  a client that cannot be made is an error of its own, whatever its cause.
\<close>

record ('c, 'w) KubeAPI =
  kaInClusterConfig :: "'w \<Rightarrow> (ApiError + 'c) \<times> 'w"
  kaNewForConfig :: "'c \<Rightarrow> 'w \<Rightarrow> (ApiError + 'c) \<times> 'w"
  kaGetPod :: "'c \<Rightarrow> string \<Rightarrow> string \<Rightarrow> 'w \<Rightarrow> (ApiError + Pod) \<times> 'w"
  kaGetNamespace :: "'c \<Rightarrow> string \<Rightarrow> 'w \<Rightarrow> (ApiError + unit) \<times> 'w"
  kaText :: "ApiError \<Rightarrow> string"

definition getKubernetesClient :: "('c, 'w) KubeAPI \<Rightarrow> 'w \<Rightarrow> (ApiError + 'c) \<times> 'w" where
  "getKubernetesClient api w =
     (case kaInClusterConfig api w of
        (Inl err, w1) \<Rightarrow> (Inl err, w1)
      | (Inr config, w1) \<Rightarrow> kaNewForConfig api config w1)"

definition with_client :: "('c, 'w) KubeAPI \<Rightarrow> ('c \<Rightarrow> 'w \<Rightarrow> (ApiError + 'o) \<times> 'w) \<Rightarrow> 'w \<Rightarrow> (ApiError + 'o) \<times> 'w" where
  "with_client api get w =
     (case getKubernetesClient api w of
        (Inl err, w1) \<Rightarrow> (Inl (OtherError (''failed to create Kubernetes client: '' @ kaText api err)), w1)
      | (Inr clientset, w1) \<Rightarrow> get clientset w1)"

definition cluster_reader :: "('c, 'w) KubeAPI \<Rightarrow> 'w ClusterReader" where
  "cluster_reader api =
     \<lparr>getPodFromNamespace = (\<lambda>namespace podName. with_client api (\<lambda>c. kaGetPod api c namespace podName)),
      getNamespace = (\<lambda>namespace. with_client api (\<lambda>c. kaGetNamespace api c namespace))\<rparr>"

text \<open>The answer for a failed read: a missing object is no error, anything else is.\<close>

definition read_failed :: "ApiError \<Rightarrow> bool \<times> ApiError option" where
  "read_failed err = (if IsNotFound err then (False, None) else (False, Some err))"

definition resourceExistsInCluster ::
  "'w ClusterReader \<Rightarrow> string \<Rightarrow> checkpointDetails \<Rightarrow> 'w \<Rightarrow> (bool \<times> ApiError option) \<times> 'w" where
  "resourceExistsInCluster reader level details w =
     (if level = ''container'' then
        (case getPodFromNamespace reader (dNamespace details) (dPod details) w of
           (Inl err, w1) \<Rightarrow> (read_failed err, w1)
         | (Inr pod, w1) \<Rightarrow>
             ((list_ex (\<lambda>c. ctName c = dContainer details) (podContainers pod), None), w1))
      else if level = ''pod'' then
        (case getPodFromNamespace reader (dNamespace details) (dPod details) w of
           (Inl err, w1) \<Rightarrow> (read_failed err, w1)
         | (Inr _, w1) \<Rightarrow> ((True, None), w1))
      else if level = ''namespace'' then
        (case getNamespace reader (dNamespace details) w of
           (Inl err, w1) \<Rightarrow> (read_failed err, w1)
         | (Inr _, w1) \<Rightarrow> ((True, None), w1))
      else ((False, Some (OtherError (''invalid level: '' @ level))), w))"

record 'w RetentionState =
  rFS :: FS
  rCluster :: 'w
  rUnreachable :: smap
  rLog :: "string list"

subsection \<open>The archives of a level\<close>

definition container_suffix_pattern :: string where
  "container_suffix_pattern =
     ''-[0-9][0-9][0-9][0-9]-[0-2][0-9]-[0-3][0-9]T[0-2][0-9]:[0-5][0-9]:[0-6][0-9]*.tar''"

definition level_pattern :: "policySnapshot \<Rightarrow> checkpointDetails \<Rightarrow> string \<Rightarrow> string" where
  "level_pattern policies details level =
     (if level = ''container'' then
        Join [checkpointDirectory policies,
              ''checkpoint-'' @ dPod details @ ''_'' @ dNamespace details @ ''-'' @
              dContainer details @ container_suffix_pattern]
      else if level = ''pod'' then
        Join [checkpointDirectory policies,
              ''checkpoint-'' @ dPod details @ ''_'' @ dNamespace details @ ''-*-*.tar'']
      else if level = ''namespace'' then
        Join [checkpointDirectory policies, ''checkpoint-*_'' @ dNamespace details @ ''-*-*.tar'']
      else [])"

text \<open>
  Whether an archive counts for a level: its identity is readable and no policy of a
  narrower level governs it.
\<close>

definition counts_for_level ::
  "(FS \<Rightarrow> ArchiveEnv) \<Rightarrow> policySnapshot \<Rightarrow> string \<Rightarrow> FS \<Rightarrow> string \<Rightarrow> bool" where
  "counts_for_level archives policies level fs archive =
     (case getCheckpointArchiveInformation archives fs archive of
        Inl _ \<Rightarrow> False
      | Inr archiveDetails \<Rightarrow>
          \<not> ((level = ''pod'' \<and> findContainerPolicy policies archiveDetails \<noteq> None) \<or>
             (level = ''namespace'' \<and> (findContainerPolicy policies archiveDetails \<noteq> None \<or>
                                       findPodPolicy policies archiveDetails \<noteq> None))))"

definition level_archives ::
  "(FS \<Rightarrow> ArchiveEnv) \<Rightarrow> policySnapshot \<Rightarrow> checkpointDetails \<Rightarrow> string \<Rightarrow> FS \<Rightarrow> string list option" where
  "level_archives archives policies details level fs =
     map_option (filter (counts_for_level archives policies level fs))
       (Glob fs (level_pattern policies details level))"

definition level_scope :: "checkpointDetails \<Rightarrow> string \<Rightarrow> string" where
  "level_scope details level =
     (if level = ''pod'' then dNamespace details @ ''/'' @ dPod details
      else if level = ''namespace'' then dNamespace details
      else dNamespace details @ ''/'' @ dPod details @ ''/'' @ dContainer details)"

subsection \<open>Choosing what to delete\<close>

datatype RetentionPolicy = ByCount | BySize

text \<open>The comparison handed to \<open>sort.Slice\<close>; a failed \<open>stat\<close> makes it false.\<close>

definition older :: "FS \<Rightarrow> string \<Rightarrow> string \<Rightarrow> bool" where
  "older fs a b =
     (case os_Stat fs a of
        Inl _ \<Rightarrow> False
      | Inr fi1 \<Rightarrow>
          (case os_Stat fs b of Inl _ \<Rightarrow> False | Inr fi2 \<Rightarrow> fModTime fi1 < fModTime fi2))"

definition size_in :: "(string \<times> int) list \<Rightarrow> string \<Rightarrow> int" where
  "size_in archiveSizes archive = (case map_of archiveSizes archive of None \<Rightarrow> 0 | Some n \<Rightarrow> n)"

fun take_size :: "(string \<times> int) list \<Rightarrow> int \<Rightarrow> string list \<Rightarrow> string list" where
  "take_size archiveSizes excess [] = []"
| "take_size archiveSizes excess (a # archives) =
     a # (if excess - size_in archiveSizes a \<le> 0 then []
          else take_size archiveSizes (excess - size_in archiveSizes a) archives)"

text \<open>
  The archives to delete, and the candidate slice as the in-place sort leaves it for the
  caller.
\<close>

type_synonym slice_sort = "(string \<Rightarrow> string \<Rightarrow> bool) \<Rightarrow> string list \<Rightarrow> string list"

definition selectArchivesToDelete ::
  "slice_sort \<Rightarrow> FS \<Rightarrow> string list \<Rightarrow> (string \<times> int) list \<Rightarrow> int \<Rightarrow> RetentionPolicy \<Rightarrow>
     string list \<times> string list" where
  "selectArchivesToDelete sortSlice fs archives archiveSizes excess policy =
     (let slice = sortSlice (older fs) archives
      in case policy of
           ByCount \<Rightarrow> (take (nat excess) slice, slice)
         | BySize \<Rightarrow> (take_size archiveSizes excess slice, slice))"

subsection \<open>The phases of a level\<close>

fun delete_orphans :: "string list \<Rightarrow> FS \<Rightarrow> FS" where
  "delete_orphans [] fs = fs"
| "delete_orphans (archive # archives) fs =
     delete_orphans archives
       (if isCheckpointPinned fs archive then fs else removeArchiveUnlessPinned archive fs)"

record SizePass =
  spFS :: FS
  spCounter :: int
  spTotal :: quantity
  spSizes :: "(string \<times> int) list"
  spDeletable :: "string list"

definition size_pass_one :: "Policy \<Rightarrow> string \<Rightarrow> SizePass \<Rightarrow> SizePass" where
  "size_pass_one policy c s =
     (case os_Stat (spFS s) c of
        Inl _ \<Rightarrow> s
      | Inr fi \<Rightarrow>
          let currentSize = NewQuantity (fSize fi);
              counted = s\<lparr>spTotal := spTotal s + currentSize,
                          spSizes := AList.update c (fSize fi) (spSizes s)\<rparr>
          in if Cmp (MaxCheckpointSize policy) currentSize < 0 then
               (if isCheckpointPinned (spFS s) c then counted
                else s\<lparr>spFS := removeArchiveUnlessPinned c (spFS s), spCounter := spCounter s - 1\<rparr>)
             else if isCheckpointPinned (spFS s) c then counted
             else counted\<lparr>spDeletable := spDeletable s @ [c]\<rparr>)"

definition size_pass :: "Policy \<Rightarrow> string list \<Rightarrow> FS \<Rightarrow> SizePass" where
  "size_pass policy filteredArchives fs =
     fold (size_pass_one policy) filteredArchives
       \<lparr>spFS = fs, spCounter = int (length filteredArchives), spTotal = NewQuantity 0,
        spSizes = [], spDeletable = []\<rparr>"

fun count_pass :: "int \<Rightarrow> string list \<Rightarrow> FS \<times> int \<Rightarrow> FS \<times> int" where
  "count_pass maxCheckpoints [] (fs, n) = (fs, n)"
| "count_pass maxCheckpoints (archive # toDelete) (fs, n) =
     (let fs1 = removeArchiveUnlessPinned archive fs; n1 = n - 1
      in if n1 \<le> maxCheckpoints then (fs1, n1) else count_pass maxCheckpoints toDelete (fs1, n1))"

definition count_phase :: "slice_sort \<Rightarrow> Policy \<Rightarrow> SizePass \<Rightarrow> SizePass" where
  "count_phase sortSlice policy s =
     (if MaxCheckpoints policy > 0 \<and> spCounter s > MaxCheckpoints policy then
        (case selectArchivesToDelete sortSlice (spFS s) (spDeletable s) (spSizes s)
                (spCounter s - MaxCheckpoints policy) ByCount of
           (toDelete, slice) \<Rightarrow>
             (case count_pass (MaxCheckpoints policy) toDelete (spFS s, spCounter s) of
                (fs1, n) \<Rightarrow> s\<lparr>spFS := fs1, spCounter := n, spDeletable := slice\<rparr>))
      else s)"

fun bytes_pass :: "quantity \<Rightarrow> string list \<Rightarrow> SizePass \<Rightarrow> SizePass" where
  "bytes_pass maxTotalSize [] s = s"
| "bytes_pass maxTotalSize (archive # toDelete) s =
     (let s1 = s\<lparr>spFS := removeArchiveUnlessPinned archive (spFS s),
                 spTotal := spTotal s - NewQuantity (size_in (spSizes s) archive),
                 spSizes := AList.delete archive (spSizes s)\<rparr>
      in if Cmp maxTotalSize (spTotal s1) \<ge> 0 then s1 else bytes_pass maxTotalSize toDelete s1)"

definition bytes_phase :: "slice_sort \<Rightarrow> Policy \<Rightarrow> SizePass \<Rightarrow> SizePass" where
  "bytes_phase sortSlice policy s =
     (if Cmp (MaxTotalSize policy) (spTotal s) < 0 then
        (case selectArchivesToDelete sortSlice (spFS s) (spDeletable s) (spSizes s)
                (Value (spTotal s - MaxTotalSize policy)) BySize of
           (toDelete, slice) \<Rightarrow>
             bytes_pass (MaxTotalSize policy) toDelete (s\<lparr>spDeletable := slice\<rparr>))
      else s)"

subsection \<open>Reports of unreachable limits\<close>

definition pinnedNames :: "string list \<Rightarrow> string list" where
  "pinnedNames paths = map Base paths"

definition logRetentionUnreachableChanged :: "string \<Rightarrow> string list \<Rightarrow> smap \<Rightarrow> bool \<times> smap" where
  "logRetentionUnreachableChanged key pinned state =
     (let cur = Join_strings (pinnedNames pinned) '',''
      in if mget state key = cur then (False, state) else (True, mput key cur state))"

definition clearRetentionUnreachable :: "string \<Rightarrow> smap \<Rightarrow> smap" where
  "clearRetentionUnreachable key state = mdel key state"

definition report_limit :: "bool \<Rightarrow> string \<Rightarrow> string list \<Rightarrow> 'w RetentionState \<Rightarrow> 'w RetentionState" where
  "report_limit breached key pinned s =
     (if breached then
        (case logRetentionUnreachableChanged key pinned (rUnreachable s) of
           (changed, t) \<Rightarrow> s\<lparr>rUnreachable := t, rLog := rLog s @ (if changed then [key] else [])\<rparr>)
      else s\<lparr>rUnreachable := clearRetentionUnreachable key (rUnreachable s)\<rparr>)"

subsection \<open>One level\<close>

definition policy_disabled :: "Policy \<Rightarrow> bool" where
  "policy_disabled policy \<longleftrightarrow>
     MaxCheckpoints policy \<le> 0 \<or> Value (MaxCheckpointSize policy) \<le> 0 \<or>
     Value (MaxTotalSize policy) \<le> 0"

text \<open>The limits, for the archives of the level; \<open>pinned\<close> are those pinned at the start.\<close>

definition enforce_limits ::
  "slice_sort \<Rightarrow> checkpointDetails \<Rightarrow> string \<Rightarrow> Policy \<Rightarrow> string list \<Rightarrow> string list \<Rightarrow>
     'w RetentionState \<Rightarrow> 'w RetentionState" where
  "enforce_limits sortSlice details level policy filteredArchives pinned s =
     (let scope = level_scope details level;
          countKey = level @ ''|count|'' @ scope;
          sizeKey = level @ ''|size|'' @ scope;
          p1 = count_phase sortSlice policy (size_pass policy filteredArchives (rFS s));
          s1 = report_limit (spCounter p1 > MaxCheckpoints policy) countKey pinned s;
          p2 = bytes_phase sortSlice policy p1;
          s2 = report_limit (Cmp (MaxTotalSize policy) (spTotal p2) < 0) sizeKey pinned s1
      in s2\<lparr>rFS := spFS p2\<rparr>)"

definition handleCheckpointsForLevel ::
  "slice_sort \<Rightarrow> (FS \<Rightarrow> ArchiveEnv) \<Rightarrow> 'w ClusterReader \<Rightarrow> policySnapshot \<Rightarrow> checkpointDetails \<Rightarrow>
     string \<Rightarrow> Policy \<Rightarrow> 'w RetentionState \<Rightarrow> 'w RetentionState" where
  "handleCheckpointsForLevel sortSlice archives reader policies details level policy s =
     (if policy_disabled policy then s
      else case level_archives archives policies details level (rFS s) of
        None \<Rightarrow> s
      | Some filteredArchives \<Rightarrow>
          (case partitionArchives (rFS s) filteredArchives of
             (_, pinned) \<Rightarrow>
               if RetainOrphan policy then
                 enforce_limits sortSlice details level policy filteredArchives pinned s
               else
                 (case resourceExistsInCluster reader level details (rCluster s) of
                    ((exist, _), w1) \<Rightarrow>
                      if \<not> exist then
                        s\<lparr>rCluster := w1, rFS := delete_orphans filteredArchives (rFS s)\<rparr>
                      else enforce_limits sortSlice details level policy filteredArchives pinned
                             (s\<lparr>rCluster := w1\<rparr>))))"

subsection \<open>Entry points\<close>

definition applyPolicies ::
  "slice_sort \<Rightarrow> (FS \<Rightarrow> ArchiveEnv) \<Rightarrow> 'w ClusterReader \<Rightarrow> policySnapshot \<Rightarrow> checkpointDetails \<Rightarrow>
     'w RetentionState \<Rightarrow> 'w RetentionState" where
  "applyPolicies sortSlice archives reader policies details =
     fold (\<lambda>(level, policy).
             handleCheckpointsForLevel sortSlice archives reader policies details level policy)
       (policy_calls policies details)"

fun categorizeCheckpoints ::
  "(FS \<Rightarrow> ArchiveEnv) \<Rightarrow> FS \<Rightarrow> string list \<Rightarrow> (string \<times> checkpointDetails) list \<Rightarrow>
     (string \<times> checkpointDetails) list" where
  "categorizeCheckpoints archives fs [] categorized = categorized"
| "categorizeCheckpoints archives fs (checkpointFile # files) categorized =
     (case getCheckpointArchiveInformation archives fs checkpointFile of
        Inl _ \<Rightarrow> categorizeCheckpoints archives fs files categorized
      | Inr details \<Rightarrow>
          categorizeCheckpoints archives fs files
            (AList.update (dNamespace details @ ''/'' @ dPod details @ ''/'' @ dContainer details)
               details categorized))"

text \<open>Go iterates over a map in no particular order: \<open>order\<close> is the order of this run.\<close>

definition applyPoliciesImmediately ::
  "((string \<times> checkpointDetails) list \<Rightarrow> (string \<times> checkpointDetails) list) \<Rightarrow> slice_sort \<Rightarrow>
     (FS \<Rightarrow> ArchiveEnv) \<Rightarrow> 'w ClusterReader \<Rightarrow> policySnapshot \<Rightarrow>
     'w RetentionState \<Rightarrow> 'w RetentionState" where
  "applyPoliciesImmediately order sortSlice archives reader policies s =
     (case Glob (rFS s) (Join [checkpointDirectory policies, ''checkpoint-*_*-*-*.tar'']) of
        None \<Rightarrow> s
      | Some checkpointFiles \<Rightarrow>
          if length checkpointFiles = 0 then s
          else fold (\<lambda>(key, details). applyPolicies sortSlice archives reader policies details)
                 (order (categorizeCheckpoints archives (rFS s) checkpointFiles [])) s)"

definition getContainerNames :: "Pod \<Rightarrow> string list" where
  "getContainerNames pod = map ctName (podContainers pod)"

definition handlePodDeleted ::
  "slice_sort \<Rightarrow> (FS \<Rightarrow> ArchiveEnv) \<Rightarrow> 'w ClusterReader \<Rightarrow> policySnapshot \<Rightarrow> Pod \<Rightarrow>
     'w RetentionState \<Rightarrow> 'w RetentionState" where
  "handlePodDeleted sortSlice archives reader policies pod =
     fold (\<lambda>containerName. applyPolicies sortSlice archives reader policies
             \<lparr>dNamespace = podNamespace pod, dPod = podName pod, dContainer = containerName\<rparr>)
       (getContainerNames pod)"

section \<open>Lemmas\<close>

subsection \<open>Removals\<close>

definition removes :: "string list \<Rightarrow> FS \<Rightarrow> FS" where
  "removes = fold removeArchiveUnlessPinned"

definition all_tar :: "string list \<Rightarrow> bool" where
  "all_tar archives \<longleftrightarrow> (\<forall>a\<in>set archives. HasSuffix a ''.tar'')"

lemma removes_simps [simp]:
  "removes [] fs = fs" "removes (a # as) fs = removes as (removeArchiveUnlessPinned a fs)"
  "removes (as @ bs) fs = removes bs (removes as fs)"
  by (simp_all add: removes_def)

lemma remove_lookup:
  "fs_lookup (removeArchiveUnlessPinned a fs) q =
     (if q = a \<and> \<not> isCheckpointPinned fs a \<and> \<not> fsRemoveFail fs a then None else fs_lookup fs q)"
  by (auto simp: removeArchiveUnlessPinned_def os_Remove_def split: option.splits)

lemma remove_faults:
  "fsRemoveFail (removeArchiveUnlessPinned a fs) = fsRemoveFail fs"
  "fsStatFail (removeArchiveUnlessPinned a fs) = fsStatFail fs"
  using removeArchiveUnlessPinned_frame(3) [of fs a] by (auto simp: same_faultsD fun_eq_iff)

lemma remove_pinned:
  "HasSuffix a ''.tar'' \<Longrightarrow>
     isCheckpointPinned (removeArchiveUnlessPinned a fs) b = isCheckpointPinned fs b"
  using marker_apart(1) [of a b] by (auto simp: isCheckpointPinned_iff remove_lookup remove_faults)

text \<open>A sequence of removals is the removal of a set: markers are never among them.\<close>

lemma removes_effect:
  assumes "all_tar as"
  shows "fs_lookup (removes as fs) q =
      (if q \<in> set as \<and> \<not> isCheckpointPinned fs q \<and> \<not> fsRemoveFail fs q then None else fs_lookup fs q)"
    "isCheckpointPinned (removes as fs) b = isCheckpointPinned fs b"
    "fsRemoveFail (removes as fs) = fsRemoveFail fs" "fsStatFail (removes as fs) = fsStatFail fs"
  using assms
  by (induction as arbitrary: fs)
    (auto simp: all_tar_def remove_lookup remove_pinned remove_faults)

lemma os_Stat_removes:
  "all_tar as \<Longrightarrow> os_Stat (removes as fs) a =
     (if a \<in> set as \<and> \<not> isCheckpointPinned fs a \<and> \<not> fsRemoveFail fs a \<and> \<not> fsStatFail fs a
      then Inl ErrNotExist else os_Stat fs a)"
  by (auto simp: os_Stat_def removes_effect split: option.splits)

lemma delete_orphans_removes: "delete_orphans as fs = removes as fs"
  by (induction as arbitrary: fs) (auto simp: removeArchiveUnlessPinned_def)

lemma all_tar_subset: "all_tar as \<Longrightarrow> set bs \<subseteq> set as \<Longrightarrow> all_tar bs"
  by (auto simp: all_tar_def)

text \<open>Whatever fails, a phase does nothing but remove candidates.\<close>

lemma count_pass_removes:
  "\<exists>k. fst (count_pass m ds (fs, n)) = removes (take k ds) fs"
proof (induction ds arbitrary: fs n)
  case (Cons d ds)
  show ?case
  proof (cases "n - 1 \<le> m")
    case True
    then show ?thesis by (intro exI [of _ 1]) (simp add: Let_def)
  next
    case False
    obtain k where "fst (count_pass m ds (removeArchiveUnlessPinned d fs, n - 1))
        = removes (take k ds) (removeArchiveUnlessPinned d fs)" using Cons.IH by blast
    with False show ?thesis by (intro exI [of _ "Suc k"]) (simp add: Let_def)
  qed
qed simp

lemma bytes_pass_removes: "\<exists>k. spFS (bytes_pass m ds s) = removes (take k ds) (spFS s)"
proof (induction ds arbitrary: s)
  case (Cons d ds)
  let ?s = "s\<lparr>spFS := removeArchiveUnlessPinned d (spFS s),
    spTotal := spTotal s - NewQuantity (size_in (spSizes s) d), spSizes := AList.delete d (spSizes s)\<rparr>"
  show ?case
  proof (cases "Cmp m (spTotal ?s) \<ge> 0")
    case True
    then show ?thesis by (intro exI [of _ 1]) (simp add: Let_def)
  next
    case False
    obtain k where "spFS (bytes_pass m ds ?s) = removes (take k ds) (spFS ?s)"
      using Cons.IH by blast
    with False show ?thesis by (intro exI [of _ "Suc k"]) (simp add: Let_def)
  qed
qed simp

lemma size_pass_fold:
  "\<exists>ds. spFS (fold (size_pass_one policy) as s) = removes ds (spFS s) \<and> set ds \<subseteq> set as \<and>
     set (spDeletable (fold (size_pass_one policy) as s)) \<subseteq> set (spDeletable s) \<union> set as"
proof (induction as arbitrary: s)
  case (Cons a as)
  let ?s = "size_pass_one policy a s"
  have "\<exists>ds. spFS ?s = removes ds (spFS s) \<and> set ds \<subseteq> {a} \<and>
      set (spDeletable ?s) \<subseteq> set (spDeletable s) \<union> {a}"
  proof (cases "spFS ?s = spFS s")
    case True
    then show ?thesis
      by (intro exI [of _ "[]"]) (auto simp: size_pass_one_def Let_def split: sum.splits)
  next
    case False
    then have "spFS ?s = removes [a] (spFS s)" "spDeletable ?s = spDeletable s"
      by (auto simp: size_pass_one_def Let_def split: sum.splits if_splits)
    then show ?thesis by (intro exI [of _ "[a]"]) auto
  qed
  then obtain d1 where 1: "spFS ?s = removes d1 (spFS s)" "set d1 \<subseteq> {a}"
    "set (spDeletable ?s) \<subseteq> set (spDeletable s) \<union> {a}" by blast
  obtain d2 where 2: "spFS (fold (size_pass_one policy) as ?s) = removes d2 (spFS ?s)" "set d2 \<subseteq> set as"
    "set (spDeletable (fold (size_pass_one policy) as ?s)) \<subseteq> set (spDeletable ?s) \<union> set as"
    using Cons.IH by blast
  show ?case by (rule exI [of _ "d1 @ d2"]) (use 1 2 in auto)
qed (auto intro: exI [of _ "[]"])

locale archive_sorter = slice_sorter sortSlice for sortSlice :: slice_sort
begin

lemma count_phase_removes:
  "\<exists>ds. spFS (count_phase sortSlice policy s) = removes ds (spFS s) \<and> set ds \<subseteq> set (spDeletable s) \<and>
     set (spDeletable (count_phase sortSlice policy s)) = set (spDeletable s)"
proof (cases "MaxCheckpoints policy > 0 \<and> spCounter s > MaxCheckpoints policy")
  case True
  let ?ds = "sortSlice (older (spFS s)) (spDeletable s)"
  let ?td = "take (nat (spCounter s - MaxCheckpoints policy)) ?ds"
  obtain k where "fst (count_pass (MaxCheckpoints policy) ?td (spFS s, spCounter s)) = removes (take k ?td) (spFS s)"
    using count_pass_removes by blast
  moreover have "set (take k ?td) \<subseteq> set (spDeletable s)"
    using set_take_subset sort_set by (metis subset_trans)
  ultimately show ?thesis using True
    by (intro exI [of _ "take k ?td"])
      (simp add: count_phase_def selectArchivesToDelete_def Let_def case_prod_beta)
qed (auto simp: count_phase_def intro: exI [of _ "[]"])

lemma take_size_subset: "set (take_size sizes excess as) \<subseteq> set as"
  by (induction as arbitrary: excess) auto

lemma bytes_phase_removes:
  "\<exists>ds. spFS (bytes_phase sortSlice policy s) = removes ds (spFS s) \<and> set ds \<subseteq> set (spDeletable s)"
proof (cases "Cmp (MaxTotalSize policy) (spTotal s) < 0")
  case True
  let ?ds = "sortSlice (older (spFS s)) (spDeletable s)"
  let ?td = "take_size (spSizes s) (Value (spTotal s - MaxTotalSize policy)) ?ds"
  obtain k where "spFS (bytes_pass (MaxTotalSize policy) ?td (s\<lparr>spDeletable := ?ds\<rparr>))
      = removes (take k ?td) (spFS s)"
    using bytes_pass_removes [of "MaxTotalSize policy" ?td "s\<lparr>spDeletable := ?ds\<rparr>"] by auto
  moreover have "set (take k ?td) \<subseteq> set (spDeletable s)"
    using set_take_subset take_size_subset sort_set by (metis subset_trans)
  ultimately show ?thesis using True
    by (intro exI [of _ "take k ?td"])
      (simp add: bytes_phase_def selectArchivesToDelete_def Let_def case_prod_beta)
qed (auto simp: bytes_phase_def intro: exI [of _ "[]"])

lemma enforce_limits_removes:
  "\<exists>ds. rFS (enforce_limits sortSlice details level policy as pinned s) = removes ds (rFS s) \<and>
     set ds \<subseteq> set as"
proof -
  let ?p0 = "size_pass policy as (rFS s)"
  let ?p1 = "count_phase sortSlice policy ?p0"
  obtain d0 where 0: "spFS ?p0 = removes d0 (rFS s)" "set d0 \<subseteq> set as" "set (spDeletable ?p0) \<subseteq> set as"
    using size_pass_fold [of policy as "\<lparr>spFS = rFS s, spCounter = int (length as),
      spTotal = NewQuantity 0, spSizes = [], spDeletable = []\<rparr>"] by (auto simp: size_pass_def)
  obtain d1 where 1: "spFS ?p1 = removes d1 (spFS ?p0)" "set d1 \<subseteq> set as"
    "set (spDeletable ?p1) \<subseteq> set as"
    using count_phase_removes [of policy ?p0] 0(3) by auto
  obtain d2 where 2: "spFS (bytes_phase sortSlice policy ?p1) = removes d2 (spFS ?p1)" "set d2 \<subseteq> set as"
    using bytes_phase_removes [of policy ?p1] 1(3) by auto
  show ?thesis
    by (rule exI [of _ "d0 @ d1 @ d2"]) (use 0 1 2 in \<open>auto simp: enforce_limits_def Let_def\<close>)
qed

lemma handle_removes:
  "\<exists>ds. rFS (handleCheckpointsForLevel sortSlice archives reader policies details level policy s)
       = removes ds (rFS s) \<and>
     (ds = [] \<or> (\<exists>as. level_archives archives policies details level (rFS s) = Some as \<and> set ds \<subseteq> set as))"
proof (cases "policy_disabled policy \<or> level_archives archives policies details level (rFS s) = None")
  case True
  then show ?thesis by (intro exI [of _ "[]"]) (auto simp: handleCheckpointsForLevel_def)
next
  case False
  then obtain as where as: "level_archives archives policies details level (rFS s) = Some as"
    "\<not> policy_disabled policy" by auto
  let ?e = "\<lambda>s. enforce_limits sortSlice details level policy as (snd (partitionArchives (rFS s) as)) s"
  obtain exist err w where w: "resourceExistsInCluster reader level details (rCluster s) = ((exist, err), w)"
    by (metis prod.exhaust)
  have "\<exists>ds. rFS (?e s) = removes ds (rFS s) \<and> set ds \<subseteq> set as"
    "\<exists>ds. rFS (?e (s\<lparr>rCluster := w\<rparr>)) = removes ds (rFS s) \<and> set ds \<subseteq> set as"
    using enforce_limits_removes [of details level policy as _ s]
      enforce_limits_removes [of details level policy as _ "s\<lparr>rCluster := w\<rparr>"] by simp_all
  then show ?thesis using as w
    by (auto simp: handleCheckpointsForLevel_def delete_orphans_removes split: prod.splits)
qed

end

interpretation go_sort: archive_sorter insertionSort
  by unfold_locales

subsection \<open>The archives of a level\<close>

text \<open>Kubernetes names hold no slash.\<close>

definition plain_details :: "checkpointDetails \<Rightarrow> bool" where
  "plain_details d \<longleftrightarrow> slash \<notin> set (dNamespace d) \<and> slash \<notin> set (dPod d) \<and> slash \<notin> set (dContainer d)"

lemma Glob_empty: "Glob fs [] = Some []"
  by (auto simp: Glob_def file_part_def dir_entries_def)

lemma level_pattern_tar:
  assumes "plain_details d" "level \<in> {''container'', ''pod'', ''namespace''}"
  shows "\<exists>f. level_pattern policies d level = Join [checkpointDirectory policies, f @ ''*.tar''] \<and> slash \<notin> set f"
proof -
  have "\<exists>f. level_pattern policies d ''container'' = Join [checkpointDirectory policies, f @ ''*.tar''] \<and> slash \<notin> set f"
    using assms(1) by (intro exI [of _ "''checkpoint-'' @ dPod d @ ''_'' @ dNamespace d @ ''-'' @
        dContainer d @ take (length container_suffix_pattern - 5) container_suffix_pattern"])
      (simp add: level_pattern_def plain_details_def container_suffix_pattern_def)
  moreover have "\<exists>f. level_pattern policies d ''pod'' = Join [checkpointDirectory policies, f @ ''*.tar''] \<and> slash \<notin> set f"
    using assms(1) by (intro exI [of _ "''checkpoint-'' @ dPod d @ ''_'' @ dNamespace d @ ''-*-''"])
      (simp add: level_pattern_def plain_details_def)
  moreover have "\<exists>f. level_pattern policies d ''namespace'' = Join [checkpointDirectory policies, f @ ''*.tar''] \<and> slash \<notin> set f"
    using assms(1) by (intro exI [of _ "''checkpoint-*_'' @ dNamespace d @ ''-*-''"])
      (simp add: level_pattern_def plain_details_def)
  ultimately show ?thesis using assms(2) by blast
qed

lemma level_archives_tar:
  assumes "plain_details d" "IsAbs (checkpointDirectory policies)"
    "level_archives archives policies d level fs = Some as"
  shows "distinct as" "all_tar as"
    "\<forall>a\<in>set as. Dir a = Clean (checkpointDirectory policies) \<and> counts_for_level archives policies level fs a \<and>
       (fs_clean fs \<longrightarrow> fs_lookup fs a \<noteq> None)"
proof -
  obtain ps where ps: "Glob fs (level_pattern policies d level) = Some ps"
    "as = filter (counts_for_level archives policies level fs) ps"
    using assms(3) by (auto simp: level_archives_def)
  have "distinct ps \<and> (\<forall>p\<in>set ps. HasSuffix p ''.tar'' \<and> Dir p = Clean (checkpointDirectory policies) \<and>
      (fs_clean fs \<longrightarrow> fs_lookup fs p \<noteq> None))"
  proof (cases "level \<in> {''container'', ''pod'', ''namespace''}")
    case True
    then obtain f where "level_pattern policies d level = Join [checkpointDirectory policies, f @ ''*.tar'']"
      "slash \<notin> set f" using level_pattern_tar [OF assms(1)] by blast
    then show ?thesis using Glob_tar [OF assms(2), of f fs ps] ps(1) by simp
  next
    case False
    then have "level_pattern policies d level = []" by (simp add: level_pattern_def)
    then show ?thesis using ps(1) by (simp add: Glob_empty)
  qed
  then show "distinct as" "all_tar as"
    "\<forall>a\<in>set as. Dir a = Clean (checkpointDirectory policies) \<and> counts_for_level archives policies level fs a \<and>
       (fs_clean fs \<longrightarrow> fs_lookup fs a \<noteq> None)"
    using ps(2) by (auto simp: all_tar_def)
qed


subsection \<open>The limits in terms of the files\<close>

definition file_size :: "FS \<Rightarrow> string \<Rightarrow> int" where
  "file_size fs a = (case fs_lookup fs a of None \<Rightarrow> 0 | Some f \<Rightarrow> fSize f)"

definition file_time :: "FS \<Rightarrow> string \<Rightarrow> time" where
  "file_time fs a = (case fs_lookup fs a of None \<Rightarrow> 0 | Some f \<Rightarrow> fModTime f)"

text \<open>An unpinned archive above the size of one archive, and an unpinned one not above it.\<close>

definition too_big :: "Policy \<Rightarrow> FS \<Rightarrow> string \<Rightarrow> bool" where
  "too_big policy fs a \<longleftrightarrow>
     MaxCheckpointSize policy < NewQuantity (file_size fs a) \<and> \<not> isCheckpointPinned fs a"

definition rotatable :: "Policy \<Rightarrow> FS \<Rightarrow> string \<Rightarrow> bool" where
  "rotatable policy fs a \<longleftrightarrow>
     NewQuantity (file_size fs a) \<le> MaxCheckpointSize policy \<and> \<not> isCheckpointPinned fs a"

definition total_size :: "FS \<Rightarrow> string list \<Rightarrow> int" where
  "total_size fs as = sum_list (map (file_size fs) as)"

text \<open>Of \<open>kept\<close>, what remains without \<open>gone\<close> is within both limits.\<close>

definition within_limits :: "Policy \<Rightarrow> FS \<Rightarrow> string list \<Rightarrow> string list \<Rightarrow> bool" where
  "within_limits policy fs kept gone \<longleftrightarrow>
     int (length kept) - int (length gone) \<le> MaxCheckpoints policy \<and>
     NewQuantity (total_size fs kept - total_size fs gone) \<le> MaxTotalSize policy"

text \<open>No call on these archives fails.\<close>

definition files_ok :: "FS \<Rightarrow> string list \<Rightarrow> bool" where
  "files_ok fs as \<longleftrightarrow>
     (\<forall>a\<in>set as. fs_lookup fs a \<noteq> None \<and> file_size fs a \<ge> 0 \<and> \<not> fsStatFail fs a \<and> \<not> fsRemoveFail fs a)"

lemma total_size_simps [simp]:
  "total_size fs [] = 0" "total_size fs (a # as) = file_size fs a + total_size fs as"
  "total_size fs (as @ bs) = total_size fs as + total_size fs bs"
  by (simp_all add: total_size_def)

lemma NewQuantity_arith [simp]:
  "NewQuantity a + NewQuantity b = NewQuantity (a + b)" "NewQuantity a - NewQuantity b = NewQuantity (a - b)"
  "NewQuantity a \<le> NewQuantity b \<longleftrightarrow> a \<le> b" "NewQuantity 0 = 0"
  by (simp_all add: NewQuantity_def algebra_simps)

lemma Value_le_iff: "Value q \<le> n \<longleftrightarrow> q \<le> NewQuantity n"
proof -
  define k r where "k = (- q) div 1000000000" and "r = (- q) mod 1000000000"
  have "- q = 1000000000 * k + r" "0 \<le> r" "r < 1000000000" by (simp_all add: k_def r_def)
  then show ?thesis by (auto simp: Value_def NewQuantity_def simp flip: k_def)
qed

lemma size_pass_closed:
  assumes "files_ok fs as" "distinct as" "all_tar as" "all_tar d" "set d \<inter> set as = {}"
    "spFS s = removes d fs"
  shows "let r = fold (size_pass_one policy) as s in
    spFS r = removes (d @ filter (too_big policy fs) as) fs \<and>
    spCounter r = spCounter s - int (length (filter (too_big policy fs) as)) \<and>
    spTotal r = spTotal s + NewQuantity (total_size fs (filter (\<lambda>a. \<not> too_big policy fs a) as)) \<and>
    (\<forall>a. map_of (spSizes r) a =
       (if a \<in> set as \<and> \<not> too_big policy fs a then Some (file_size fs a) else map_of (spSizes s) a)) \<and>
    spDeletable r = spDeletable s @ filter (rotatable policy fs) as"
  using assms
proof (induction as arbitrary: d s)
  case (Cons a as)
  obtain f where f: "fs_lookup fs a = Some f" "\<not> fsStatFail fs a"
    using Cons.prems(1) by (auto simp: files_ok_def)
  have st: "os_Stat (spFS s) a = Inr f"
    using f Cons.prems(4,5) unfolding Cons.prems(6) os_Stat_removes [OF Cons.prems(4)]
    by (auto simp: os_Stat_def)
  have pin: "isCheckpointPinned (spFS s) a = isCheckpointPinned fs a"
    using Cons.prems(4,6) by (simp add: removes_effect)
  have sz: "fSize f = file_size fs a" using f by (simp add: file_size_def)
  let ?s = "size_pass_one policy a s"
  let ?d = "d @ (if too_big policy fs a then [a] else [])"
  have one: "spFS ?s = removes ?d fs"
    "spCounter ?s = spCounter s - (if too_big policy fs a then 1 else 0)"
    "spTotal ?s = spTotal s + (if too_big policy fs a then 0 else NewQuantity (file_size fs a))"
    "map_of (spSizes ?s) = (if too_big policy fs a then map_of (spSizes s)
       else (map_of (spSizes s))(a \<mapsto> file_size fs a))"
    "spDeletable ?s = spDeletable s @ (if rotatable policy fs a then [a] else [])"
    using st pin sz Cons.prems(6)
    by (auto simp: size_pass_one_def too_big_def rotatable_def update_conv' Let_def)
  have "all_tar ?d" "set ?d \<inter> set as = {}" "files_ok fs as" "distinct as" "all_tar as"
    using Cons.prems by (auto simp: all_tar_def files_ok_def)
  from Cons.IH [OF this(3-5) this(1,2) one(1)] one(2-5) show ?case
    unfolding Let_def using Cons.prems(2) by (auto simp: algebra_simps simp flip: NewQuantity_arith(1))
qed simp


lemma Value_diff: "Value (q - NewQuantity n) = Value q - n"
proof -
  have "- (q - n * 10 ^ 9) = - q + n * 10 ^ 9" by simp
  then show ?thesis unfolding Value_def NewQuantity_def by (simp add: algebra_simps)
qed

subsection \<open>Oldest first\<close>

lemma older_removes:
  assumes "files_ok fs [a, b]" "all_tar d"
  shows "older (removes d fs) a b \<Longrightarrow> file_time fs a < file_time fs b"
    "a \<notin> set d \<Longrightarrow> b \<notin> set d \<Longrightarrow> older (removes d fs) a b \<longleftrightarrow> file_time fs a < file_time fs b"
proof -
  obtain f g where f: "fs_lookup fs a = Some f" "fs_lookup fs b = Some g"
    using assms(1) by (auto simp: files_ok_def)
  then have "os_Stat fs a = Inr f" "os_Stat fs b = Inr g"
    using assms(1) by (auto simp: files_ok_def os_Stat_def)
  then show "older (removes d fs) a b \<Longrightarrow> file_time fs a < file_time fs b"
    "a \<notin> set d \<Longrightarrow> b \<notin> set d \<Longrightarrow> older (removes d fs) a b \<longleftrightarrow> file_time fs a < file_time fs b"
    using f by (simp_all add: older_def os_Stat_removes [OF assms(2)] file_time_def split: if_splits)
qed

lemma older_strict_weak:
  assumes "files_ok fs as" "all_tar d" "set d \<inter> set as = {}"
  shows "strict_weak_on (set as) (older (removes d fs))"
proof -
  have "older (removes d fs) a b \<longleftrightarrow> file_time fs a < file_time fs b" if "a \<in> set as" "b \<in> set as" for a b
    using that assms by (intro older_removes(2)) (auto simp: files_ok_def)
  then show ?thesis unfolding strict_weak_on_def by auto
qed

lemma no_inversion_time:
  assumes "files_ok fs as" "all_tar d" "set d \<inter> set as = {}"
    "no_inversion (older (removes d fs)) as"
  shows "sorted (map (file_time fs) as)"
proof -
  have "file_time fs a \<le> file_time fs b"
    if "a \<in> set as" "b \<in> set as" "\<not> older (removes d fs) b a" for a b
    using that assms(1-3) older_removes(2) [of fs b a d] by (force simp: files_ok_def)
  then have "sorted_wrt (\<lambda>a b. file_time fs a \<le> file_time fs b) as"
    by (rule sorted_wrt_mono_rel) (use assms(4) in \<open>auto simp: no_inversion_def\<close>)
  then show ?thesis by (simp add: sorted_map)
qed

text \<open>Archives removed meanwhile do not disturb an order: the comparison only loses pairs.\<close>

lemma no_inversion_removes:
  assumes "files_ok fs as" "all_tar d" "sorted (map (file_time fs) as)"
  shows "no_inversion (older (removes d fs)) as"
proof -
  have "\<not> older (removes d fs) b a"
    if "a \<in> set as" "b \<in> set as" "file_time fs a \<le> file_time fs b" for a b
    using that assms older_removes(1) [of fs b a d] by (force simp: files_ok_def)
  then show ?thesis unfolding no_inversion_def
    by (rule sorted_wrt_mono_rel) (use assms(3) in \<open>auto simp: sorted_map\<close>)
qed

subsection \<open>The passes, exactly\<close>

lemma count_pass_all:
  "int (length ds) \<le> n - m \<Longrightarrow> count_pass m ds (fs, n) = (removes ds fs, n - int (length ds))"
proof (induction ds arbitrary: fs n)
  case (Cons d ds)
  show ?case
  proof (cases "n - 1 \<le> m")
    case True
    with Cons.prems have "int (length (d # ds)) \<le> 1" by linarith
    then have "ds = []" by simp
    with True show ?thesis by (simp add: Let_def)
  next
    case False
    with Cons.IH [of "n - 1"] Cons.prems show ?thesis by (simp add: Let_def)
  qed
qed simp

lemma take_size_take:
  "\<exists>j. take_size sizes excess ds = take j ds \<and> j \<le> length ds \<and>
     (\<forall>i<j. 0 < i \<longrightarrow> sum_list (map (size_in sizes) (take i ds)) < excess) \<and>
     (j = length ds \<or> excess \<le> sum_list (map (size_in sizes) (take j ds)))"
proof (induction ds arbitrary: excess)
  case (Cons d ds)
  show ?case
  proof (cases "excess - size_in sizes d \<le> 0")
    case True
    then show ?thesis by (intro exI [of _ 1]) auto
  next
    case False
    obtain j where j: "take_size sizes (excess - size_in sizes d) ds = take j ds" "j \<le> length ds"
      "\<forall>i<j. 0 < i \<longrightarrow> sum_list (map (size_in sizes) (take i ds)) < excess - size_in sizes d"
      "j = length ds \<or> excess - size_in sizes d \<le> sum_list (map (size_in sizes) (take j ds))"
      using Cons.IH by blast
    have "sum_list (map (size_in sizes) (take i (d # ds))) < excess" if i: "i < Suc j" "0 < i" for i
    proof -
      obtain i' where i': "i = Suc i'" using i(2) by (cases i) auto
      with i(1) have "i' < j" by simp
      then show ?thesis using j(3) False i' by (cases "i' = 0") (auto simp: algebra_simps)
    qed
    then show ?thesis using False j(1,2,4) by (intro exI [of _ "Suc j"]) (auto simp: algebra_simps)
  qed
qed simp

lemma bytes_pass_all:
  "distinct ds \<Longrightarrow> \<forall>a\<in>set ds. size_in (spSizes s) a = size_in sizes a \<Longrightarrow>
   (let td = take_size sizes (Value (spTotal s - m)) ds; r = bytes_pass m td s
    in spFS r = removes td (spFS s) \<and> spTotal r = spTotal s - NewQuantity (sum_list (map (size_in sizes) td)))"
proof (induction ds arbitrary: s)
  case (Cons d ds)
  let ?s = "s\<lparr>spFS := removeArchiveUnlessPinned d (spFS s),
    spTotal := spTotal s - NewQuantity (size_in (spSizes s) d), spSizes := AList.delete d (spSizes s)\<rparr>"
  have c: "Value (spTotal s - m) - size_in sizes d \<le> 0 \<longleftrightarrow> spTotal s - NewQuantity (size_in sizes d) \<le> m"
    using Value_le_iff [of "spTotal s - m" "size_in sizes d"] by auto
  have v: "Value (spTotal ?s - m) = Value (spTotal s - m) - size_in sizes d"
    using Value_diff [of "spTotal s - m" "size_in sizes d"] Cons.prems(2) by (simp add: algebra_simps)
  have "\<forall>a\<in>set ds. size_in (spSizes ?s) a = size_in sizes a"
    using Cons.prems by (auto simp: size_in_def delete_conv')
  note IH = Cons.IH [OF _ this, unfolded Let_def v]
  show ?case
  proof (cases "spTotal s - NewQuantity (size_in sizes d) \<le> m")
    case True
    with c Cons.prems(2) show ?thesis by (simp add: Let_def)
  next
    case False
    let ?td = "take_size sizes (Value (spTotal s - m) - size_in sizes d) ds"
    have "take_size sizes (Value (spTotal s - m)) (d # ds) = d # ?td" using False c by simp
    moreover have "bytes_pass m (d # ?td) s = bytes_pass m ?td ?s"
      using False Cons.prems(2) by (simp add: Let_def)
    ultimately show ?thesis using IH Cons.prems
      by (simp add: Let_def algebra_simps flip: NewQuantity_arith(1))
  qed
qed simp


lemma size_pass_start:
  fixes policy :: Policy and fs as
  assumes "files_ok fs as" "distinct as" "all_tar as"
  defines "r \<equiv> size_pass policy as fs"
  shows "spFS r = removes (filter (too_big policy fs) as) fs"
    "spCounter r = int (length (filter (\<lambda>a. \<not> too_big policy fs a) as))"
    "spTotal r = NewQuantity (total_size fs (filter (\<lambda>a. \<not> too_big policy fs a) as))"
    "\<forall>a\<in>set (filter (rotatable policy fs) as). size_in (spSizes r) a = file_size fs a"
    "spDeletable r = filter (rotatable policy fs) as"
  using size_pass_closed [OF assms(1-3), of "[]" "\<lparr>spFS = fs, spCounter = int (length as),
      spTotal = NewQuantity 0, spSizes = [], spDeletable = []\<rparr>" policy]
    sum_length_filter_compl [of "too_big policy fs" as]
  by (auto simp: r_def size_pass_def Let_def all_tar_def size_in_def too_big_def rotatable_def)

context archive_sorter
begin

lemma count_phase_exact:
  assumes "MaxCheckpoints policy > 0"
  defines "r s \<equiv> count_phase sortSlice policy s"
    and "ds s \<equiv> sortSlice (older (spFS s)) (spDeletable s)"
  shows "spFS (r s) = removes (take (nat (spCounter s - MaxCheckpoints policy)) (ds s)) (spFS s)"
    "spTotal (r s) = spTotal s" "spSizes (r s) = spSizes s"
    "spDeletable (r s) = (if spCounter s > MaxCheckpoints policy then ds s else spDeletable s)"
proof -
  have "spFS (r s) = removes (take (nat (spCounter s - MaxCheckpoints policy)) (ds s)) (spFS s) \<and>
    spTotal (r s) = spTotal s \<and> spSizes (r s) = spSizes s \<and>
    spDeletable (r s) = (if spCounter s > MaxCheckpoints policy then ds s else spDeletable s)"
  proof (cases "spCounter s > MaxCheckpoints policy")
    case True
    let ?td = "take (nat (spCounter s - MaxCheckpoints policy)) (ds s)"
    have "int (length ?td) \<le> spCounter s - MaxCheckpoints policy" using True by (simp add: min_le_iff_disj le_nat_iff)
    from count_pass_all [OF this] show ?thesis using True assms(1)
      by (simp add: r_def ds_def count_phase_def selectArchivesToDelete_def Let_def)
  qed (simp add: r_def count_phase_def)
  then show "spFS (r s) = removes (take (nat (spCounter s - MaxCheckpoints policy)) (ds s)) (spFS s)"
    "spTotal (r s) = spTotal s" "spSizes (r s) = spSizes s"
    "spDeletable (r s) = (if spCounter s > MaxCheckpoints policy then ds s else spDeletable s)"
    by auto
qed

lemma bytes_phase_exact:
  fixes s policy
  defines "ds \<equiv> sortSlice (older (spFS s)) (spDeletable s)"
    and "gone i \<equiv> NewQuantity (sum_list (map (size_in (spSizes s)) (take i
                      (sortSlice (older (spFS s)) (spDeletable s)))))"
  assumes "distinct (spDeletable s)"
  shows "\<exists>j\<le>length ds. spFS (bytes_phase sortSlice policy s) = removes (take j ds) (spFS s) \<and>
    (\<forall>i<j. MaxTotalSize policy < spTotal s - gone i) \<and>
    (j = length ds \<or> spTotal s - gone j \<le> MaxTotalSize policy)"
proof (cases "MaxTotalSize policy < spTotal s")
  case True
  let ?x = "Value (spTotal s - MaxTotalSize policy)"
  obtain j where j: "take_size (spSizes s) ?x ds = take j ds" "j \<le> length ds"
    "\<forall>i<j. 0 < i \<longrightarrow> sum_list (map (size_in (spSizes s)) (take i ds)) < ?x"
    "j = length ds \<or> ?x \<le> sum_list (map (size_in (spSizes s)) (take j ds))"
    using take_size_take by blast
  have x: "?x \<le> sum_list (map (size_in (spSizes s)) (take i ds)) \<longleftrightarrow>
      spTotal s - gone i \<le> MaxTotalSize policy" for i
    unfolding Value_le_iff gone_def ds_def by auto
  have "spFS (bytes_phase sortSlice policy s) = removes (take j ds) (spFS s)"
    using bytes_pass_all [of ds "s\<lparr>spDeletable := ds\<rparr>" "spSizes s" "MaxTotalSize policy"] assms(3) True j(1)
    by (simp add: bytes_phase_def selectArchivesToDelete_def Let_def ds_def)
  moreover have "MaxTotalSize policy < spTotal s - gone i" if "i < j" for i
    using that j(3) x [of i] True by (cases "i = 0") (auto simp: gone_def)
  ultimately show ?thesis using j(2,4) x by blast
qed (auto simp: bytes_phase_def gone_def intro!: exI [of _ 0])

end


lemma files_ok_subset: "files_ok fs as \<Longrightarrow> set bs \<subseteq> set as \<Longrightarrow> files_ok fs bs"
  by (auto simp: files_ok_def)

lemma total_size_nonneg: "files_ok fs as \<Longrightarrow> 0 \<le> total_size fs as"
  by (induction as) (auto simp: files_ok_def)

lemma total_size_take_mono:
  "files_ok fs ds \<Longrightarrow> i \<le> j \<Longrightarrow> total_size fs (take i ds) \<le> total_size fs (take j ds)"
proof -
  assume a: "files_ok fs ds" "i \<le> j"
  have "take j ds = take i ds @ take (j - i) (drop i ds)"
    using a(2) by (metis le_add_diff_inverse take_add)
  moreover have "files_ok fs (take (j - i) (drop i ds))"
    by (rule files_ok_subset [OF a(1)]) (meson in_set_dropD in_set_takeD subsetI)
  ultimately show ?thesis using total_size_nonneg by simp
qed

context archive_sorter
begin

text \<open>
  The count phase takes the first \<open>k\<close> archives and the size phase the first \<open>j\<close> of the same list:
  together they take the shortest prefix that meets both limits.
\<close>

lemma both_phases:
  assumes ok: "files_ok fs ds" and j: "j \<le> length ds"
    and k: "k = nat (int (length kept) - MaxCheckpoints policy)"
    and before: "\<forall>i<j. MaxTotalSize policy < NewQuantity (total_size fs kept) - NewQuantity (total_size fs (take i ds))"
    and after: "j = length ds \<or>
      NewQuantity (total_size fs kept) - NewQuantity (total_size fs (take j ds)) \<le> MaxTotalSize policy"
  defines "m \<equiv> max (min k (length ds)) j"
  shows "m \<le> length ds" "set (take m ds) = set (take k ds) \<union> set (take j ds)"
    "within_limits policy fs kept (take m ds) \<or> m = length ds"
    "\<forall>i<m. \<not> within_limits policy fs kept (take i ds)"
proof -
  show m: "m \<le> length ds" "set (take m ds) = set (take k ds) \<union> set (take j ds)"
    using j set_take_subset_set_take [of k j ds] set_take_subset_set_take [of j k ds]
    by (auto simp: m_def max_def min_def)
  have "NewQuantity (total_size fs kept - total_size fs (take m ds))
      \<le> NewQuantity (total_size fs kept - total_size fs (take j ds))"
    using total_size_take_mono [OF ok, of j m] by (simp add: m_def)
  moreover have "m = length ds \<or> int (length kept) - int (length (take m ds)) \<le> MaxCheckpoints policy"
    using m(1) by (auto simp: m_def k)
  moreover have "m = length ds \<or> NewQuantity (total_size fs kept - total_size fs (take j ds)) \<le> MaxTotalSize policy"
    using j after m(1) by (auto simp: m_def)
  ultimately show "within_limits policy fs kept (take m ds) \<or> m = length ds"
    unfolding within_limits_def by (meson order_trans)
  show "\<forall>i<m. \<not> within_limits policy fs kept (take i ds)"
  proof (intro allI impI)
    fix i assume i: "i < m"
    show "\<not> within_limits policy fs kept (take i ds)"
    proof (cases "i < j")
      case True
      then show ?thesis using before by (auto simp: within_limits_def not_le)
    next
      case False
      then have "i < k" "i < length ds" using i by (auto simp: m_def)
      then have "\<not> int (length kept) - int (length (take i ds)) \<le> MaxCheckpoints policy"
        by (simp add: k zless_nat_eq_int_zless)
      then show ?thesis by (simp only: within_limits_def simp_thms)
    qed
  qed
qed

text \<open>
  The rotation removes the fewest oldest archives that bring the level within its limits,
  although the size phase starts from a total that still counts what the count phase removed:
  those archives come first again, and their removal is counted then.
\<close>

lemma enforce_limits_exact:
  fixes s :: "'w RetentionState" and details level pinned
  assumes ok: "files_ok fs as" "distinct as" "all_tar as" and pos: "MaxCheckpoints policy > 0"
    and fs: "rFS s = fs"
  defines "kept \<equiv> filter (\<lambda>a. \<not> too_big policy fs a) as"
    and "fs' \<equiv> rFS (enforce_limits sortSlice details level policy as pinned s)"
  shows "\<exists>ds m. mset ds = mset (filter (rotatable policy fs) as) \<and> sorted (map (file_time fs) ds) \<and>
    m \<le> length ds \<and>
    (\<forall>q. fs_lookup fs' q = (if q \<in> set as \<and> too_big policy fs q \<or> q \<in> set (take m ds)
       then None else fs_lookup fs q)) \<and>
    (within_limits policy fs kept (take m ds) \<or> m = length ds) \<and>
    (\<forall>i<m. \<not> within_limits policy fs kept (take i ds))"
proof -
  let ?big = "filter (too_big policy fs) as" and ?cand = "filter (rotatable policy fs) as"
  define p0 where "p0 = size_pass policy as fs"
  define p1 where "p1 = count_phase sortSlice policy p0"
  define ds where "ds = sortSlice (older (spFS p0)) (spDeletable p0)"
  define k where "k = nat (spCounter p0 - MaxCheckpoints policy)"
  note p0 = size_pass_start [OF ok, of policy, folded p0_def kept_def]
  have cand: "set ds = set ?cand" "mset ds = mset ?cand" "distinct ds" "length ds = length ?cand"
    using p0(5) sort_perm ok(2) by (simp_all add: ds_def)
  have sub: "files_ok fs ds" "all_tar ds" "all_tar ?big" "set ?big \<inter> set ds = {}"
    using ok(1,3) cand(1) by (auto simp: files_ok_def all_tar_def too_big_def rotatable_def)
  have "no_inversion (older (spFS p0)) ds"
    unfolding ds_def p0(1) p0(5)
    by (intro sort_ordered older_strict_weak) (use sub cand(1) in \<open>auto simp: files_ok_def\<close>)
  then have sorted: "sorted (map (file_time fs) ds)"
    using no_inversion_time [OF sub(1,3,4)] by (simp add: p0(1))
  note p1 = count_phase_exact [OF pos, of p0, folded p1_def ds_def k_def]
  have fs1: "spFS p1 = removes (?big @ take k ds) fs" using p1(1) p0(1) by simp
  have ds1: "sortSlice (older (spFS p1)) (spDeletable p1) = ds"
  proof (cases "spCounter p0 > MaxCheckpoints policy")
    case True
    have "all_tar (?big @ take k ds)"
      using sub(2,3) by (auto simp: all_tar_def dest: in_set_takeD)
    from no_inversion_removes [OF sub(1) this sorted] show ?thesis
      using True p1(4) sort_idle by (simp add: fs1)
  next
    case False
    then have "spFS p1 = spFS p0" using p1(1) by (simp add: k_def)
    with False p1(4) show ?thesis by (simp add: ds_def)
  qed
  have "distinct (spDeletable p1)" using p1(4) p0(5) ok(2) cand(3) by simp
  from bytes_phase_exact [OF this, of policy] obtain j where
    j: "j \<le> length ds" "spFS (bytes_phase sortSlice policy p1) = removes (take j ds) (spFS p1)"
      "\<forall>i<j. MaxTotalSize policy < spTotal p0 - NewQuantity (sum_list (map (size_in (spSizes p0)) (take i ds)))"
      "j = length ds \<or> spTotal p0 - NewQuantity (sum_list (map (size_in (spSizes p0)) (take j ds)))
         \<le> MaxTotalSize policy"
    unfolding ds1 p1(2,3) by blast
  have sz: "sum_list (map (size_in (spSizes p0)) (take i ds)) = total_size fs (take i ds)" for i
    unfolding total_size_def using p0(4) cand(1)
    by (intro arg_cong [where f = sum_list] map_cong refl) (auto dest: in_set_takeD)
  define m where "m = max (min k (length ds)) j"
  note m = both_phases [OF sub(1) j(1) refl j(3,4) [unfolded sz p0(3)],
      folded p0(2), folded k_def, folded m_def]
  have fs': "fs' = removes (?big @ take k ds @ take j ds) fs"
    using j(2) fs1 fs by (simp add: fs'_def enforce_limits_def Let_def p0_def p1_def)
  have tar: "all_tar (?big @ take k ds @ take j ds)"
    using sub(2,3) by (auto simp: all_tar_def dest: in_set_takeD)
  have "\<not> isCheckpointPinned fs q \<and> \<not> fsRemoveFail fs q"
    if "q \<in> set (?big @ take k ds @ take j ds)" for q
    using that ok(1) cand(1) by (auto simp: too_big_def rotatable_def files_ok_def dest!: in_set_takeD)
  then have "\<forall>q. fs_lookup fs' q =
      (if q \<in> set as \<and> too_big policy fs q \<or> q \<in> set (take m ds) then None else fs_lookup fs q)"
    unfolding fs' m(2) removes_effect(1) [OF tar] by auto
  with cand(2) sorted m(1,3,4) show ?thesis by blast
qed

end


subsection \<open>A level as a whole\<close>

lemma archive_sorterI: "slice_sorter sortSlice \<Longrightarrow> archive_sorter sortSlice"
  by (simp add: archive_sorter_def)

lemma handle_limits:
  assumes "\<not> policy_disabled policy" "level_archives archives policies details level (rFS s) = Some as"
    "RetainOrphan policy \<or> fst (fst (resourceExistsInCluster reader level details (rCluster s)))"
  shows "\<exists>s1 pinned. rFS s1 = rFS s \<and>
    handleCheckpointsForLevel sortSlice archives reader policies details level policy s
      = enforce_limits sortSlice details level policy as pinned s1"
proof -
  obtain exist err w where w: "resourceExistsInCluster reader level details (rCluster s) = ((exist, err), w)"
    by (metis prod.exhaust)
  show ?thesis
    using assms w
    by (cases "RetainOrphan policy")
      (auto simp: handleCheckpointsForLevel_def split: prod.splits,
       metis RetentionState.select_convs(1) RetentionState.surjective RetentionState.update_convs(2))
qed

text \<open>
  What a level leaves behind: no unpinned archive over the size limit, and the count and the
  total size within their limits, unless all that is left is pinned.
\<close>

definition meets_policy :: "Policy \<Rightarrow> FS \<Rightarrow> string list \<Rightarrow> bool" where
  "meets_policy policy fs left \<longleftrightarrow>
     list_all (\<lambda>a. NewQuantity (file_size fs a) \<le> MaxCheckpointSize policy \<or> isCheckpointPinned fs a) left \<and>
     (int (length left) \<le> MaxCheckpoints policy \<and> NewQuantity (total_size fs left) \<le> MaxTotalSize policy \<or>
      list_all (isCheckpointPinned fs) left)"

definition survivors :: "FS \<Rightarrow> string list \<Rightarrow> string list" where
  "survivors fs' as = filter (\<lambda>a. fs_lookup fs' a \<noteq> None) as"

lemma meets_policy_filter:
  assumes "files_ok fs left" "meets_policy policy fs left"
  shows "meets_policy policy fs (filter P left)"
proof -
  have "total_size fs (filter P left) \<le> total_size fs left"
    using assms(1) unfolding total_size_def files_ok_def by (induction left) auto
  then have "NewQuantity (total_size fs (filter P left)) \<le> NewQuantity (total_size fs left)"
    by (simp add: NewQuantity_def)
  moreover have "int (length (filter P left)) \<le> int (length left)" by simp
  moreover have "list_all Q (filter P left)" if "list_all Q left" for Q using that by (simp add: list_all_iff)
  ultimately show ?thesis using assms(2) unfolding meets_policy_def by (meson order_trans)
qed

lemma without_prefix:
  assumes "distinct kept" "distinct gone" "set gone \<subseteq> set kept"
  shows "int (length (filter (\<lambda>a. a \<notin> set gone) kept)) = int (length kept) - int (length gone)"
    "total_size fs (filter (\<lambda>a. a \<notin> set gone) kept) = total_size fs kept - total_size fs gone"
proof -
  have "mset (filter (\<lambda>a. a \<in> set gone) kept) = mset gone"
    using assms by (intro set_eq_iff_mset_eq_distinct [THEN iffD1]) auto
  then have m: "mset kept = mset gone + mset (filter (\<lambda>a. a \<notin> set gone) kept)"
    using multiset_partition [of "mset kept" "\<lambda>a. a \<in> set gone"] by simp
  from arg_cong [OF m, of size]
  show "int (length (filter (\<lambda>a. a \<notin> set gone) kept)) = int (length kept) - int (length gone)"
    by (simp only: size_mset size_union)
  from arg_cong [OF m, of "\<lambda>M. sum_mset (image_mset (file_size fs) M)"]
  show "total_size fs (filter (\<lambda>a. a \<notin> set gone) kept) = total_size fs kept - total_size fs gone"
    unfolding total_size_def by (simp only: image_mset_union sum_mset.union sum_mset_sum_list flip: mset_map)
qed

lemma level_meets_policy:
  assumes "slice_sorter sortSlice" "plain_details details" "IsAbs (checkpointDirectory policies)"
    "\<not> policy_disabled policy" "level_archives archives policies details level (rFS s) = Some as" "files_ok (rFS s) as"
    "RetainOrphan policy \<or> fst (fst (resourceExistsInCluster reader level details (rCluster s)))"
  shows "meets_policy policy (rFS s)
    (survivors (rFS (handleCheckpointsForLevel sortSlice archives reader policies details level policy s)) as)"
proof -
  let ?fs = "rFS s" and ?fs' = "rFS (handleCheckpointsForLevel sortSlice archives reader policies details level policy s)"
  define kept where "kept = filter (\<lambda>a. \<not> too_big policy ?fs a) as"
  note la = level_archives_tar [OF assms(2,3,5)]
  obtain s1 pinned where h: "rFS s1 = ?fs"
    "handleCheckpointsForLevel sortSlice archives reader policies details level policy s
      = enforce_limits sortSlice details level policy as pinned s1"
    using handle_limits [where sortSlice = sortSlice] assms(4,5,7) by metis
  have "MaxCheckpoints policy > 0" using assms(4) by (simp add: policy_disabled_def)
  from archive_sorter.enforce_limits_exact [OF archive_sorterI [OF assms(1)] assms(6) la(1,2) this h(1), of details level pinned]
  obtain ds m where d: "mset ds = mset (filter (rotatable policy ?fs) as)" "m \<le> length ds"
    "\<forall>q. fs_lookup ?fs' q = (if q \<in> set as \<and> too_big policy ?fs q \<or> q \<in> set (take m ds) then None else fs_lookup ?fs q)"
    "within_limits policy ?fs kept (take m ds) \<or> m = length ds"
    unfolding h(2) kept_def by (elim exE conjE)
  have ds: "set ds = set (filter (rotatable policy ?fs) as)" "distinct ds"
    using mset_eq_setD [OF d(1)] mset_eq_imp_distinct_iff [OF d(1)] la(1) by simp_all
  have left: "survivors ?fs' as = filter (\<lambda>a. a \<notin> set (take m ds)) kept"
    unfolding survivors_def kept_def filter_filter
    using assms(6) by (intro filter_cong refl) (simp add: d(3) files_ok_def)
  have sub: "set (take m ds) \<subseteq> set kept"
    using ds(1) by (auto simp: kept_def rotatable_def too_big_def dest!: in_set_takeD)
  have "distinct kept" using la(1) by (simp add: kept_def)
  note w = without_prefix [OF this distinct_take [OF ds(2)] sub]
  show ?thesis unfolding meets_policy_def left
  proof (intro conjI)
    show "list_all (\<lambda>a. NewQuantity (file_size ?fs a) \<le> MaxCheckpointSize policy \<or> isCheckpointPinned ?fs a)
        (filter (\<lambda>a. a \<notin> set (take m ds)) kept)"
      by (auto simp: list_all_iff kept_def too_big_def)
    show "int (length (filter (\<lambda>a. a \<notin> set (take m ds)) kept)) \<le> MaxCheckpoints policy \<and>
        NewQuantity (total_size ?fs (filter (\<lambda>a. a \<notin> set (take m ds)) kept)) \<le> MaxTotalSize policy \<or>
        list_all (isCheckpointPinned ?fs) (filter (\<lambda>a. a \<notin> set (take m ds)) kept)"
    proof (cases "m = length ds")
      case True
      have "isCheckpointPinned ?fs a" if "a \<in> set kept" "a \<notin> set ds" for a
        using that unfolding ds(1) kept_def too_big_def rotatable_def set_filter by force
      then show ?thesis using True by (simp add: list_all_iff)
    next
      case False
      then show ?thesis using d(4) unfolding w within_limits_def by blast
    qed
  qed
qed

lemma handle_changes:
  fixes s policy level reader archives
  assumes "slice_sorter sortSlice" "plain_details details" "IsAbs (checkpointDirectory policies)"
  defines "fs' \<equiv> rFS (handleCheckpointsForLevel sortSlice archives reader policies details level policy s)"
  assumes "fs_lookup fs' a \<noteq> fs_lookup (rFS s) a"
  shows "fs_lookup fs' a = None" "\<not> isCheckpointPinned (rFS s) a" "HasSuffix a ''.tar''"
    "Dir a = Clean (checkpointDirectory policies)" "counts_for_level archives policies level (rFS s) a"
proof -
  obtain ds where ds: "fs' = removes ds (rFS s)"
    "ds = [] \<or> (\<exists>as. level_archives archives policies details level (rFS s) = Some as \<and> set ds \<subseteq> set as)"
    using archive_sorter.handle_removes [OF archive_sorterI [OF assms(1)]] fs'_def by blast
  with assms(5) obtain as where as: "level_archives archives policies details level (rFS s) = Some as"
    "set ds \<subseteq> set as" by auto
  note la = level_archives_tar [OF assms(2,3) as(1)]
  have tar: "all_tar ds" using all_tar_subset la(2) as(2) by blast
  from assms(5) have "a \<in> set ds" "\<not> isCheckpointPinned (rFS s) a" "fs_lookup fs' a = None"
    unfolding ds(1) by (auto simp: removes_effect(1) [OF tar] split: if_splits)
  then show "fs_lookup fs' a = None" "\<not> isCheckpointPinned (rFS s) a" "HasSuffix a ''.tar''"
    "Dir a = Clean (checkpointDirectory policies)" "counts_for_level archives policies level (rFS s) a"
    using la(2,3) as(2) by (auto simp: all_tar_def)
qed

lemma removes_steps:
  assumes "all_tar ds"
  shows "pin_steps codec fs (map GcRemove ds) (removes ds fs)"
  using assms
proof (induction ds rule: rev_induct)
  case (snoc d ds)
  then show ?case
    using pin_steps.more [OF _ pin_step.gc [of d codec "removes ds fs"]] by (auto simp: all_tar_def)
qed (simp add: pin_steps.none)

text \<open>Everything a run does to the file system is removing archives of the directory.\<close>

abbreviation directory_archive :: "policySnapshot \<Rightarrow> string \<Rightarrow> bool" where
  "directory_archive policies a \<equiv> HasSuffix a ''.tar'' \<and> Dir a = Clean (checkpointDirectory policies)"

lemma handle_only_removes:
  assumes "slice_sorter sortSlice" "plain_details details" "IsAbs (checkpointDirectory policies)"
  shows "\<exists>ds. rFS (handleCheckpointsForLevel sortSlice archives reader policies details level policy s)
      = removes ds (rFS s) \<and> (\<forall>a\<in>set ds. directory_archive policies a)"
proof -
  obtain ds where ds: "rFS (handleCheckpointsForLevel sortSlice archives reader policies details level policy s)
      = removes ds (rFS s)"
    "ds = [] \<or> (\<exists>as. level_archives archives policies details level (rFS s) = Some as \<and> set ds \<subseteq> set as)"
    using archive_sorter.handle_removes [OF archive_sorterI [OF assms(1)]] by blast
  then have "\<forall>a\<in>set ds. directory_archive policies a"
    using level_archives_tar [OF assms(2,3)] by (auto simp: all_tar_def)
  then show ?thesis using ds(1) by blast
qed

lemma fold_only_removes:
  assumes "\<And>x s. x \<in> set xs \<Longrightarrow> \<exists>ds. rFS (g x s) = removes ds (rFS s) \<and> (\<forall>a\<in>set ds. Q a)"
  shows "\<exists>ds. rFS (fold g xs s) = removes ds (rFS s) \<and> (\<forall>a\<in>set ds. Q a)"
  using assms
proof (induction xs arbitrary: s)
  case (Cons x xs)
  obtain d1 where 1: "rFS (g x s) = removes d1 (rFS s)" "\<forall>a\<in>set d1. Q a"
    using Cons.prems [of x s] by auto
  obtain d2 where 2: "rFS (fold g xs (g x s)) = removes d2 (rFS (g x s))" "\<forall>a\<in>set d2. Q a"
    using Cons.IH [of "g x s"] Cons.prems by auto
  show ?case using 1 2 by (intro exI [of _ "d1 @ d2"]) auto
qed (auto intro: exI [of _ "[]"])

lemma applyPolicies_only_removes:
  assumes "slice_sorter sortSlice" "plain_details details" "IsAbs (checkpointDirectory policies)"
  shows "\<exists>ds. rFS (applyPolicies sortSlice archives reader policies details s) = removes ds (rFS s) \<and>
    (\<forall>a\<in>set ds. directory_archive policies a)"
  unfolding applyPolicies_def using handle_only_removes [OF assms]
  by (intro fold_only_removes) (auto split: prod.splits)

section \<open>Properties\<close>

definition ex_a1 :: string where "ex_a1 = ''/c/checkpoint-web_team-app-1.tar''"
definition ex_a2 :: string where "ex_a2 = ''/c/checkpoint-web_team-app-2.tar''"

definition ex_fs :: FS where
  "ex_fs = plain_fs [(ex_a1, \<lparr>fSize = 10, fModTime = 5, fContent = ''a''\<rparr>),
                     (ex_a2, \<lparr>fSize = 20, fModTime = 3, fContent = ''b''\<rparr>)]"

definition ex_details :: checkpointDetails where
  "ex_details = \<lparr>dNamespace = ''team'', dPod = ''web'', dContainer = ''app''\<rparr>"

definition ex_snapshot :: policySnapshot where
  "ex_snapshot = (currentPolicySnapshot initialPolicyState)\<lparr>checkpointDirectory := ''/c''\<rparr>"

definition ex_policy :: "bool \<Rightarrow> Policy" where
  "ex_policy retain = \<lparr>RetainOrphan = retain, MaxCheckpoints = 1, MaxCheckpointSize = NewQuantity 100,
     MaxTotalSize = NewQuantity 100\<rparr>"

text \<open>A cluster in which every read fails with the given error.\<close>

definition ex_reader :: "ApiError \<Rightarrow> unit ClusterReader" where
  "ex_reader err = \<lparr>getPodFromNamespace = (\<lambda>_ _ w. (Inl err, w)), getNamespace = (\<lambda>_ w. (Inl err, w))\<rparr>"

definition ex_state :: "unit RetentionState" where
  "ex_state = \<lparr>rFS = ex_fs, rCluster = (), rUnreachable = [], rLog = []\<rparr>"

lemma ex_level: "level_archives (\<lambda>_. ex_archive_env) ex_snapshot ex_details ''pod'' ex_fs = Some [ex_a1, ex_a2]"
  by code_simp

lemma ex_premises:
  "slice_sorter insertionSort" "plain_details ex_details" "IsAbs (checkpointDirectory ex_snapshot)"
  "\<not> policy_disabled (ex_policy b)" "files_ok ex_fs [ex_a1, ex_a2]"
proof -
  show "slice_sorter insertionSort" by unfold_locales
  show "plain_details ex_details" "IsAbs (checkpointDirectory ex_snapshot)" "files_ok ex_fs [ex_a1, ex_a2]"
    by code_simp+
  show "\<not> policy_disabled (ex_policy b)" by (simp add: policy_disabled_def ex_policy_def)
qed

text \<open>C9: Retention enforces its limits exactly. For a level whose policy is active and
  whose resource exists (or whose orphans are retained), if no call on its archives fails:
  every unpinned archive above the single-archive limit is removed, and of the other unpinned
  ones the \<open>m\<close> oldest, where \<open>m\<close> is the least number that brings the count and the total
  size (pinned archives included) within their limits, or all of them when pins make that
  impossible. Nothing else in the file system changes.\<close>

theorem retention_exact:
  assumes "slice_sorter sortSlice" and "plain_details details"
    and "IsAbs (checkpointDirectory policies)" and "\<not> policy_disabled policy"
    and "level_archives archives policies details level fs = Some as" and "files_ok fs as"
    and "rFS s = fs"
    and "RetainOrphan policy \<or> fst (fst (resourceExistsInCluster reader level details (rCluster s)))"
  shows "\<exists>ds m. mset ds = mset (filter (rotatable policy fs) as) \<and> sorted (map (file_time fs) ds) \<and>
    m \<le> length ds \<and>
    (\<forall>q. fs_lookup (rFS (handleCheckpointsForLevel sortSlice archives reader policies details level policy s)) q
       = (if q \<in> set as \<and> too_big policy fs q \<or> q \<in> set (take m ds) then None else fs_lookup fs q)) \<and>
    (let kept = filter (\<lambda>a. \<not> too_big policy fs a) as
     in (within_limits policy fs kept (take m ds) \<or> m = length ds) \<and>
        (\<forall>i<m. \<not> within_limits policy fs kept (take i ds)))"
proof -
  note la = level_archives_tar [OF assms(2,3,5)]
  obtain s1 pinned where h: "rFS s1 = fs"
    "handleCheckpointsForLevel sortSlice archives reader policies details level policy s
      = enforce_limits sortSlice details level policy as pinned s1"
    using handle_limits [where sortSlice = sortSlice] assms(4,5,7,8) by metis
  have "MaxCheckpoints policy > 0" using assms(4) by (simp add: policy_disabled_def)
  from archive_sorter.enforce_limits_exact [OF archive_sorterI [OF assms(1)] assms(6) la(1,2) this h(1)]
  show ?thesis unfolding h(2) Let_def by blast
qed

lemma ex_retention_run:
  "let fs' = rFS (handleCheckpointsForLevel insertionSort (\<lambda>_. ex_archive_env) (ex_reader NotFound)
       ex_snapshot ex_details ''pod'' (ex_policy True) ex_state)
   in fs_lookup fs' ex_a2 = None \<and> fs_lookup fs' ex_a1 \<noteq> None"
  by code_simp

theorem retention_exact_witness:
  "let fs' = rFS (handleCheckpointsForLevel insertionSort (\<lambda>_. ex_archive_env) (ex_reader NotFound)
       ex_snapshot ex_details ''pod'' (ex_policy True) ex_state)
   in (\<exists>ds m. mset ds = mset (filter (rotatable (ex_policy True) ex_fs) [ex_a1, ex_a2]) \<and>
        sorted (map (file_time ex_fs) ds) \<and> m \<le> length ds \<and>
        (\<forall>q. fs_lookup fs' q = (if q \<in> set [ex_a1, ex_a2] \<and> too_big (ex_policy True) ex_fs q \<or>
           q \<in> set (take m ds) then None else fs_lookup ex_fs q)) \<and>
        (let kept = filter (\<lambda>a. \<not> too_big (ex_policy True) ex_fs a) [ex_a1, ex_a2]
         in (within_limits (ex_policy True) ex_fs kept (take m ds) \<or> m = length ds) \<and>
            (\<forall>i<m. \<not> within_limits (ex_policy True) ex_fs kept (take i ds)))) \<and>
      fs_lookup fs' ex_a2 = None \<and> fs_lookup fs' ex_a1 \<noteq> None"
  unfolding Let_def [of "rFS _"]
  by (intro conjI retention_exact [OF ex_premises(1-4) ex_level ex_premises(5)])
    (use ex_retention_run in \<open>simp_all add: Let_def ex_state_def ex_policy_def\<close>)



text \<open>C12: A narrower policy shields its archives from the wider levels. An archive that the
  pod level removes is governed by no container policy, and one that the namespace level
  removes by no container policy and no pod policy; in all cases its identity is readable.\<close>

theorem narrower_policy_shields:
  assumes "slice_sorter sortSlice" and "plain_details details"
    and "IsAbs (checkpointDirectory policies)"
    and "fs_lookup (rFS (handleCheckpointsForLevel sortSlice archives reader policies details level policy s)) a
      \<noteq> fs_lookup (rFS s) a"
  shows "\<exists>d. getCheckpointArchiveInformation archives (rFS s) a = Inr d \<and>
    (level \<in> {''pod'', ''namespace''} \<longrightarrow> findContainerPolicy policies d = None) \<and>
    (level = ''namespace'' \<longrightarrow> findPodPolicy policies d = None)"
  using handle_changes(5) [OF assms] by (auto simp: counts_for_level_def split: sum.splits)

theorem narrower_policy_shields_witness:
  "\<exists>d. getCheckpointArchiveInformation (\<lambda>_. ex_archive_env) ex_fs ex_a2 = Inr d \<and>
     findContainerPolicy ex_snapshot d = None"
proof -
  have "fs_lookup (rFS (handleCheckpointsForLevel insertionSort (\<lambda>_. ex_archive_env) (ex_reader NotFound)
       ex_snapshot ex_details ''pod'' (ex_policy True) ex_state)) ex_a2 = None"
    using ex_retention_run by (simp add: Let_def)
  moreover have "fs_lookup ex_fs ex_a2 \<noteq> None" by code_simp
  ultimately show ?thesis
    using narrower_policy_shields [OF ex_premises(1-3), of "\<lambda>_. ex_archive_env" "ex_reader NotFound" "''pod''"
      "ex_policy True" ex_state ex_a2] by (auto simp: ex_state_def)
qed



text \<open>
  A resource is reported as missing without an error only on the word of the API server: it did not find
  the object, or the pod it returned has no such container. A client that cannot be made is never taken for that.
\<close>

lemma absence_confirmed:
  assumes "resourceExistsInCluster (cluster_reader api) level details w = ((False, None), w')"
  obtains c w1 where "getKubernetesClient api w = (Inr c, w1)"
    "(level = ''namespace'' \<and> kaGetNamespace api c (dNamespace details) w1 = (Inl NotFound, w')) \<or>
     (level \<in> {''pod'', ''container''} \<and> kaGetPod api c (dNamespace details) (dPod details) w1 = (Inl NotFound, w')) \<or>
     (level = ''container'' \<and> (\<exists>pod. kaGetPod api c (dNamespace details) (dPod details) w1 = (Inr pod, w') \<and>
        (\<forall>c \<in> set (podContainers pod). ctName c \<noteq> dContainer details)))"
proof (cases "getKubernetesClient api w")
  case (Pair r w1)
  then show thesis using assms that
    by (cases r) (auto simp: resourceExistsInCluster_def cluster_reader_def with_client_def read_failed_def IsNotFound_def list_ex_iff
        split: if_splits sum.splits prod.splits)
qed

text \<open>
  A failed read of the cluster is taken for a missing resource: the error is logged, and the
  archives of the level are deleted as orphans.
\<close>

lemma api_error_deletes_orphans:
  "fs_lookup (rFS (handleCheckpointsForLevel insertionSort (\<lambda>_. ex_archive_env)
     (ex_reader (OtherError ''timeout'')) ex_snapshot ex_details ''pod'' (ex_policy False) ex_state)) ex_a1 = None"
  by code_simp


text \<open>
  The archives of the namespace \<open>team-prod\<close> match the pattern of the namespace \<open>team\<close>, and the identity read from an
  archive is only compared with the policies: when \<open>team\<close> is deleted, the archives of \<open>team-prod\<close> are
  deleted as its orphans.
\<close>

definition prod_archive :: string where "prod_archive = ''/c/checkpoint-web_team-prod-app-1.tar''"

definition prod_env :: ArchiveEnv where
  "prod_env = ex_archive_env\<lparr>aeSpecJSON := (\<lambda>_. Some
     [(containerdSandboxNamespaceAnnotation, ''team-prod''), (containerdSandboxNameAnnotation, ''web''),
      (containerdContainerNameAnnotation, ''app'')])\<rparr>"

definition prod_fs :: FS where
  "prod_fs = plain_fs [(prod_archive, \<lparr>fSize = 10, fModTime = 5, fContent = ''a''\<rparr>)]"

lemma foreign_namespace_deleted:
  "getCheckpointArchiveInformation (\<lambda>_. prod_env) prod_fs prod_archive = Inr \<lparr>dNamespace = ''team-prod'', dPod = ''web'', dContainer = ''app''\<rparr>"
  "fs_lookup prod_fs prod_archive \<noteq> None"
  "fs_lookup (rFS (handleCheckpointsForLevel insertionSort (\<lambda>_. prod_env) (ex_reader NotFound) ex_snapshot ex_details ''namespace''
     (ex_policy False) (ex_state\<lparr>rFS := prod_fs\<rparr>))) prod_archive = None"
  by code_simp+

end
