(* ===== verification/Garbage_Collector.thy ===== *)
theory Garbage_Collector
  imports Retention
begin

text \<open>
  The event side of \<^verbatim>\<open>internal/controller/checkpointrestoreoperator_controller.go\<close>: the
  reconcile of the operator's resource, the reader that retries until a new archive is
  complete, and the loop of \<open>runGarbageCollector\<close> that waits for the last write of an archive
  before it is evaluated.

  The loop is a step relation over timed inputs: file system notifications, a stop (a send
  on \<open>quit\<close> or a closed watcher channel) and the expiry of a timer. The creation of the
  watcher, the pod informer and the lock that admits one collector at a time are the subject of
  \<open>Collector_Handover\<close>. Contexts, sleeping and reading are parameters of the retry loop.
\<close>

section \<open>Definitions\<close>

subsection \<open>Reading an archive that is still being written\<close>

datatype ReadError = ReadCanceled | WaitCanceled | ReadFailed ArchiveError

text \<open>
  \<open>rdErr\<close> is \<open>ctx.Err() != nil\<close>; \<open>rdSleep\<close> waits for the timer and tells whether the context
  ended first; \<open>rdRead\<close> is the archive reader.
\<close>

record 'w ReadEnv =
  rdErr :: "'w \<Rightarrow> bool"
  rdRead :: "string \<Rightarrow> 'w \<Rightarrow> (ArchiveError + checkpointDetails) \<times> 'w"
  rdSleep :: "duration \<Rightarrow> 'w \<Rightarrow> bool \<times> 'w"

text \<open>The attempt loop; \<open>n\<close> attempts are left after the current one.\<close>

fun read_attempts ::
  "'w ReadEnv \<Rightarrow> string \<Rightarrow> duration \<Rightarrow> nat \<Rightarrow> 'w \<Rightarrow> (ReadError + checkpointDetails) \<times> 'w" where
  "read_attempts env path retryDelay n w =
     (if rdErr env w then (Inl ReadCanceled, w)
      else case rdRead env path w of
        (Inr details, w1) \<Rightarrow> (Inr details, w1)
      | (Inl err, w1) \<Rightarrow>
          (case n of
             0 \<Rightarrow> (Inl (ReadFailed err), w1)
           | Suc k \<Rightarrow>
               if retryDelay \<le> 0 then read_attempts env path retryDelay k w1
               else case rdSleep env retryDelay w1 of
                 (True, w2) \<Rightarrow> (Inl WaitCanceled, w2)
               | (False, w2) \<Rightarrow> read_attempts env path retryDelay k w2))"

declare read_attempts.simps [simp del]

definition readCheckpointArchiveInformationWithRetry ::
  "'w ReadEnv \<Rightarrow> string \<Rightarrow> int \<Rightarrow> duration \<Rightarrow> 'w \<Rightarrow> (ReadError + checkpointDetails) \<times> 'w" where
  "readCheckpointArchiveInformationWithRetry env checkpointPath maxAttempts retryDelay w =
     (let attempts = (if maxAttempts < 1 then 1 else maxAttempts)
      in read_attempts env checkpointPath retryDelay (nat (attempts - 1)) w)"

definition handleWriteFinishedWithReader ::
  "'w ReadEnv \<Rightarrow> (checkpointDetails \<Rightarrow> 'w \<Rightarrow> 'w) \<Rightarrow> string \<Rightarrow> int \<Rightarrow> duration \<Rightarrow> 'w \<Rightarrow> 'w" where
  "handleWriteFinishedWithReader env applyTo name maxAttempts retryDelay w =
     (case readCheckpointArchiveInformationWithRetry env name maxAttempts retryDelay w of
        (Inl _, w1) \<Rightarrow> w1
      | (Inr details, w1) \<Rightarrow> if rdErr env w1 then w1 else applyTo details w1)"

definition checkpointArchiveReadAttempts :: int where
  "checkpointArchiveReadAttempts = 3"

definition checkpointArchiveReadRetryDelay :: duration where
  "checkpointArchiveReadRetryDelay = 2 * second"

definition handleWriteFinished ::
  "'w ReadEnv \<Rightarrow> (checkpointDetails \<Rightarrow> 'w \<Rightarrow> 'w) \<Rightarrow> string \<Rightarrow> 'w \<Rightarrow> 'w" where
  "handleWriteFinished env applyTo name =
     handleWriteFinishedWithReader env applyTo name checkpointArchiveReadAttempts
       checkpointArchiveReadRetryDelay"

subsection \<open>The event loop\<close>

definition waitFor :: duration where
  "waitFor = 1 * second"

text \<open>A timer of the table is armed with a deadline, or stopped, or has fired.\<close>

record GcLoop =
  gcTimers :: "(string \<times> time option) list"
  gcStopped :: bool

definition gc_stop :: "GcLoop \<Rightarrow> GcLoop" where
  "gc_stop s = s\<lparr>gcTimers := [], gcStopped := True\<rparr>"

definition gc_notify :: "time \<Rightarrow> bool \<Rightarrow> string \<Rightarrow> GcLoop \<Rightarrow> GcLoop" where
  "gc_notify now create_or_write path s =
     (if \<not> create_or_write then s
      else if HasSuffix path ''.keep'' \<or> HasSuffix path ''.keep.tmp'' then s
      else s\<lparr>gcTimers := AList.update path (Some (now + waitFor)) (gcTimers s)\<rparr>)"

datatype GcInput =
  Notify bool string
| WatchError
| StopLoop
| TimerFires string

text \<open>One timed step of a running loop.\<close>

inductive gc_step :: "GcLoop \<Rightarrow> time \<times> GcInput \<Rightarrow> GcLoop \<Rightarrow> bool" where
  notify: "\<not> gcStopped s \<Longrightarrow> gc_step s (now, Notify cw path) (gc_notify now cw path s)"
| watch_error: "\<not> gcStopped s \<Longrightarrow> gc_step s (now, WatchError) s"
| stop: "\<not> gcStopped s \<Longrightarrow> gc_step s (now, StopLoop) (gc_stop s)"
| fires: "map_of (gcTimers s) path = Some (Some deadline) \<Longrightarrow> deadline \<le> now \<Longrightarrow>
    gc_step s (now, TimerFires path) (s\<lparr>gcTimers := AList.update path None (gcTimers s)\<rparr>)"

inductive gc_run :: "(time \<times> GcInput) list \<Rightarrow> GcLoop \<Rightarrow> bool" where
  start: "gc_run [] \<lparr>gcTimers = [], gcStopped = False\<rparr>"
| step: "gc_run evs s \<Longrightarrow> gc_step s ev s' \<Longrightarrow> (\<forall>e\<in>set evs. fst e \<le> fst ev) \<Longrightarrow> gc_run (evs @ [ev]) s'"

inductive_simps gc_fires_iff: "gc_step s (t, TimerFires path) s'"

text \<open>The notifications for a path that count, and the firings of its timer.\<close>

definition writes_of :: "string \<Rightarrow> (time \<times> GcInput) list \<Rightarrow> time list" where
  "writes_of path evs = [t. (t, Notify cw p) \<leftarrow> evs, cw, p = path]"

subsection \<open>Reconcile\<close>

text \<open>
  The operator: its policy state, how often the collector was restarted, and the immediate
  applications started in the background, each with its snapshot.
\<close>

record OperatorState =
  oPolicies :: PolicyState
  oRestarts :: nat
  oImmediate :: "policySnapshot list"

definition restartGarbageCollector :: "OperatorState \<Rightarrow> OperatorState" where
  "restartGarbageCollector s = s\<lparr>oRestarts := oRestarts s + 1\<rparr>"

definition Reconcile_operator ::
  "ApiError + CheckpointRestoreOperatorSpec \<Rightarrow> OperatorState \<Rightarrow> (Result \<times> ApiError option) \<times> OperatorState" where
  "Reconcile_operator got s =
     (case got of
        Inl err \<Rightarrow> ((no_requeue, IgnoreNotFound err), s)
      | Inr spec \<Rightarrow>
          (case applyPolicySpec spec (oPolicies s) of
             ((policies, restart), ps) \<Rightarrow>
               let s1 = s\<lparr>oPolicies := ps\<rparr>;
                   s2 = (if restart then restartGarbageCollector s1 else s1);
                   s3 = (if ApplyPoliciesImmediately spec
                         then s2\<lparr>oImmediate := oImmediate s2 @ [policies]\<rparr> else s2)
               in ((no_requeue, None), s3)))"

section \<open>Lemmas\<close>

text \<open>An environment that counts its reads in the world.\<close>

definition counting :: "'w ReadEnv \<Rightarrow> ('w \<times> nat) ReadEnv" where
  "counting env =
     \<lparr>rdErr = (\<lambda>(w, c). rdErr env w),
      rdRead = (\<lambda>path (w, c). case rdRead env path w of (r, w1) \<Rightarrow> (r, (w1, c + 1))),
      rdSleep = (\<lambda>d (w, c). case rdSleep env d w of (b, w1) \<Rightarrow> (b, (w1, c)))\<rparr>"

lemma read_attempts_counting:
  "\<exists>k\<le>n + 1. read_attempts (counting env) path delay n (w, c)
     = (fst (read_attempts env path delay n w), (snd (read_attempts env path delay n w), c + k))"
proof (induction n arbitrary: w c)
  case 0
  then show ?case
    by (auto simp: read_attempts.simps counting_def split: prod.splits sum.splits)
next
  case (Suc n)
  obtain r w1 where r: "rdRead env path w = (r, w1)" by fastforce
  obtain b w2 where b: "rdSleep env delay w1 = (b, w2)" by fastforce
  consider "rdErr env w" | "\<not> rdErr env w" "\<exists>d. r = Inr d" | "\<not> rdErr env w" "\<exists>e. r = Inl e" "delay > 0" "b"
    | "\<not> rdErr env w" "\<exists>e. r = Inl e" "delay \<le> 0" | "\<not> rdErr env w" "\<exists>e. r = Inl e" "delay > 0" "\<not> b"
    by (cases "rdErr env w"; cases r; cases "delay \<le> 0"; cases b) auto
  then show ?case
  proof cases
    case 4
    then show ?thesis using Suc.IH [of w1 "c + 1"] r
      by (auto simp: read_attempts.simps [of _ _ _ "Suc n"] counting_def)
  next
    case 5
    then show ?thesis using Suc.IH [of w2 "c + 1"] r b
      by (auto simp: read_attempts.simps [of _ _ _ "Suc n"] counting_def)
  qed (use r b in \<open>auto simp: read_attempts.simps [of _ _ _ "Suc n"] counting_def intro: exI [of _ 0]
      exI [of _ 1]\<close>)
qed

text \<open>What a successful answer comes from: the last read, in a world that was not canceled.\<close>

lemma read_attempts_success:
  "read_attempts env path delay n w = (Inr d, w') \<Longrightarrow>
     \<exists>w0. \<not> rdErr env w0 \<and> rdRead env path w0 = (Inr d, w')"
proof (induction n arbitrary: w)
  case 0
  then show ?case by (auto simp: read_attempts.simps split: if_splits prod.splits sum.splits)
next
  case (Suc n)
  then show ?case
    by (auto simp: read_attempts.simps [of _ _ _ "Suc n"] split: if_splits prod.splits sum.splits bool.splits)
qed

subsection \<open>The event loop\<close>

lemma writes_of_simps [simp]:
  "writes_of p [] = []" "writes_of p (evs @ evs') = writes_of p evs @ writes_of p evs'"
  "writes_of p [(t, Notify cw q)] = (if cw \<and> q = p then [t] else [])"
  "writes_of p [(t, WatchError)] = []" "writes_of p [(t, StopLoop)] = []"
  "writes_of p [(t, TimerFires q)] = []"
  by (simp_all add: writes_of_def)

lemma writes_of_time: "t \<in> set (writes_of p evs) \<Longrightarrow> \<exists>e\<in>set evs. fst e = t"
  by (induction evs) (auto simp: writes_of_def split: GcInput.splits if_splits)

definition fires_of :: "string \<Rightarrow> (time \<times> GcInput) list \<Rightarrow> nat" where
  "fires_of path evs = length (filter (\<lambda>e. snd e = TimerFires path) evs)"

definition ignored :: "string \<Rightarrow> bool" where
  "ignored path \<longleftrightarrow> HasSuffix path ''.keep'' \<or> HasSuffix path ''.keep.tmp''"

definition armed :: "GcLoop \<Rightarrow> string \<Rightarrow> time option" where
  "armed s path = (case map_of (gcTimers s) path of None \<Rightarrow> None | Some d \<Rightarrow> d)"

text \<open>
  An armed timer belongs to a counted path of a running loop, its deadline is the wait after
  the latest write, and every firing has used up a write of its own.
\<close>

lemma gc_run_invariant:
  assumes "gc_run evs s"
  shows "(armed s p = Some d \<longrightarrow> \<not> ignored p \<and> \<not> gcStopped s \<and>
      (\<exists>t\<in>set (writes_of p evs). d = t + waitFor) \<and> (\<forall>t\<in>set (writes_of p evs). t + waitFor \<le> d)) \<and>
    fires_of p evs + (if armed s p = None then 0 else 1) \<le> length (writes_of p evs) \<and>
    (gcStopped s \<longleftrightarrow> StopLoop \<in> snd ` set evs)"
  using assms
proof (induction arbitrary: d rule: gc_run.induct)
  case (step evs s ev s')
  have mono: "t \<le> fst ev" if "t \<in> set (writes_of p evs)" for t
    using writes_of_time [OF that] step.hyps(3) by auto
  from step.hyps(2) show ?case
  proof cases
    case (notify now cw path)
    then show ?thesis using step.IH mono
      by (auto simp: gc_notify_def armed_def update_conv' fires_of_def ignored_def split: if_splits)
  next
    case (fires path deadline now)
    then show ?thesis using step.IH
      by (cases "path = p") (auto simp: armed_def update_conv' fires_of_def)
  qed (use step.IH in \<open>auto simp: gc_stop_def armed_def fires_of_def\<close>)
qed (simp add: armed_def fires_of_def)

lemma gc_run_last:
  assumes "gc_run (evs @ [ev]) s'"
  obtains s where "gc_run evs s" "gc_step s ev s'"
  using assms by (cases rule: gc_run.cases) auto

text \<open>Events that leave the timer of a path as it is.\<close>

definition quiet :: "string \<Rightarrow> (time \<times> GcInput) list \<Rightarrow> bool" where
  "quiet path evs \<longleftrightarrow>
     list_all (\<lambda>e. snd e \<notin> {TimerFires path, StopLoop, Notify True path}) evs"

lemma gc_step_keeps_armed:
  assumes "gc_step s ev s'" "armed s p = Some d" "quiet p [ev]"
  shows "armed s' p = Some d"
  using assms(1)
proof cases
  case (notify now cw path)
  then show ?thesis using assms(2,3) by (auto simp: gc_notify_def armed_def update_conv' quiet_def)
next
  case (fires path deadline now)
  then show ?thesis using assms(2,3) by (auto simp: armed_def update_conv' quiet_def)
qed (use assms(2,3) in \<open>auto simp: quiet_def\<close>)

lemma gc_run_keeps_armed:
  assumes "gc_run (pre @ [(t0, Notify True p)] @ post) s" "\<not> ignored p" "quiet p post"
  shows "armed s p = Some (t0 + waitFor)"
  using assms(1,3)
proof (induction post arbitrary: s rule: rev_induct)
  case Nil
  from Nil(1) obtain s0 where "gc_step s0 (t0, Notify True p) s"
    by (metis append_Nil2 gc_run_last)
  then show ?case using assms(2)
    by cases (auto simp: gc_notify_def armed_def update_conv' ignored_def)
next
  case (snoc e post)
  from snoc.prems(1) obtain s0 where "gc_run (pre @ [(t0, Notify True p)] @ post) s0" "gc_step s0 e s"
    using gc_run_last [of "pre @ [(t0, Notify True p)] @ post" e s] by auto
  then show ?case using snoc.IH [of s0] snoc.prems(2) gc_step_keeps_armed by (auto simp: quiet_def)
qed

text \<open>The path was written at this time, and the timer has been left alone since.\<close>

definition pending_write :: "string \<Rightarrow> (time \<times> GcInput) list \<Rightarrow> time \<Rightarrow> bool" where
  "pending_write path evs t0 \<longleftrightarrow> (\<exists>pre post. evs = pre @ [(t0, Notify True path)] @ post \<and> quiet path post)"

lemma pending_write_now: "pending_write p (evs @ [(t0, Notify True p)]) t0"
  unfolding pending_write_def by (intro exI [of _ evs] exI [of _ "[]"]) (simp add: quiet_def)

lemma pending_write_later:
  assumes "pending_write p evs t0" "quiet p [ev]"
  shows "pending_write p (evs @ [ev]) t0"
proof -
  obtain pre post where "evs = pre @ [(t0, Notify True p)] @ post" "quiet p post"
    using assms(1) unfolding pending_write_def by blast
  then show ?thesis using assms(2) unfolding pending_write_def
    by (intro exI [of _ pre] exI [of _ "post @ [ev]"]) (simp add: quiet_def)
qed

text \<open>A timer that is armed after a step was armed by it, or before it.\<close>

lemma gc_step_armed:
  assumes "gc_step s ev s'" "armed s' p = Some d" "\<not> ignored p"
  shows "(snd ev = Notify True p \<and> d = fst ev + waitFor) \<or> (armed s p = Some d \<and> quiet p [ev])"
  using assms(1)
proof cases
  case (notify now cw path)
  then show ?thesis using assms(2,3)
    by (auto simp: gc_notify_def armed_def update_conv' ignored_def quiet_def split: if_splits)
next
  case (fires path deadline now)
  then show ?thesis using assms(2) by (auto simp: armed_def update_conv' quiet_def split: if_splits)
qed (use assms(2) in \<open>auto simp: gc_stop_def armed_def quiet_def\<close>)

lemma gc_run_armed_iff:
  assumes "gc_run evs s"
  shows "armed s p = Some d \<longleftrightarrow> (\<exists>t0. pending_write p evs t0 \<and> d = t0 + waitFor) \<and> \<not> ignored p"
proof
  assume a: "armed s p = Some d"
  then have i: "\<not> ignored p" using gc_run_invariant [OF assms, of p d] by blast
  have "\<exists>t0. pending_write p evs t0 \<and> d = t0 + waitFor"
    using assms a
  proof (induction rule: gc_run.induct)
    case (step evs s ev s')
    from gc_step_armed [OF step.hyps(2) step.prems i] show ?case
    proof
      assume "snd ev = Notify True p \<and> d = fst ev + waitFor"
      then show ?thesis using pending_write_now [of p evs "fst ev"] by (metis prod.collapse)
    next
      assume "armed s p = Some d \<and> quiet p [ev]"
      then show ?thesis using step.IH pending_write_later by blast
    qed
  qed (simp add: armed_def)
  with i show "(\<exists>t0. pending_write p evs t0 \<and> d = t0 + waitFor) \<and> \<not> ignored p" by blast
next
  assume "(\<exists>t0. pending_write p evs t0 \<and> d = t0 + waitFor) \<and> \<not> ignored p"
  then obtain pre t0 post where "evs = pre @ [(t0, Notify True p)] @ post" "quiet p post" "d = t0 + waitFor" "\<not> ignored p"
    unfolding pending_write_def by blast
  then show "armed s p = Some d" using gc_run_keeps_armed assms by simp
qed

lemma read_attempts_exhausts:
  assumes "\<forall>w. \<not> rdErr env w" "\<forall>d w. \<not> fst (rdSleep env d w)"
    "read_attempts (counting env) path delay n (w, c) = (Inl e, (w', c'))"
  shows "c' = c + n + 1 \<and> (\<exists>err. e = ReadFailed err)"
  using assms(3)
proof (induction n arbitrary: w c)
  case 0
  then show ?case using assms(1)
    by (auto simp: read_attempts.simps counting_def split: prod.splits sum.splits)
next
  case (Suc n)
  obtain r w1 where r: "rdRead env path w = (r, w1)" by fastforce
  obtain b w2 where b: "rdSleep env delay w1 = (b, w2)" by fastforce
  have "\<not> b" using assms(2) b by (metis fst_conv)
  show ?case
  proof (cases "delay \<le> 0")
    case True
    then show ?thesis using Suc.prems Suc.IH [of w1 "c + 1"] assms(1) r
      by (auto simp: read_attempts.simps [of _ _ _ "Suc n"] counting_def split: sum.splits)
  next
    case False
    then show ?thesis using Suc.prems Suc.IH [of w2 "c + 1"] assms(1) r b \<open>\<not> b\<close>
      by (auto simp: read_attempts.simps [of _ _ _ "Suc n"] counting_def split: sum.splits)
  qed
qed

section \<open>Properties\<close>

text \<open>C15: An archive is evaluated after its last write, and no write is lost. The timer of a
  path can fire at a time exactly if the path is no marker file and was written at least the
  waiting time ago, and since then it was neither written again nor evaluated, and the loop
  was not stopped. There are never more evaluations of a path than writes of it.\<close>

theorem evaluated_after_last_write:
  assumes "gc_run evs s"
  shows "((\<exists>s'. gc_step s (t, TimerFires path) s') \<longleftrightarrow>
      (\<exists>t0. pending_write path evs t0 \<and> t0 + waitFor \<le> t) \<and>
      \<not> HasSuffix path ''.keep'' \<and> \<not> HasSuffix path ''.keep.tmp'') \<and>
    fires_of path evs \<le> length (writes_of path evs)"
proof -
  have "(\<exists>s'. gc_step s (t, TimerFires path) s') \<longleftrightarrow> (\<exists>d. armed s path = Some d \<and> d \<le> t)"
    by (auto simp: gc_fires_iff armed_def split: option.splits)
  also have "\<dots> \<longleftrightarrow> (\<exists>t0. pending_write path evs t0 \<and> t0 + waitFor \<le> t) \<and> \<not> ignored path"
    unfolding gc_run_armed_iff [OF assms] by blast
  finally show ?thesis using gc_run_invariant [OF assms, of path 0] by (simp add: ignored_def)
qed

text \<open>One archive, written once.\<close>

lemma ex_trace_run:
  "gc_run ([] @ [(0, Notify True ''/c/a.tar'')]) (gc_notify 0 True ''/c/a.tar'' \<lparr>gcTimers = [], gcStopped = False\<rparr>)"
  by (rule gc_run.step [OF gc_run.start gc_step.notify]) simp_all

theorem evaluated_after_last_write_witness:
  "\<exists>s'. gc_step (gc_notify 0 True ''/c/a.tar'' \<lparr>gcTimers = [], gcStopped = False\<rparr>)
     (second, TimerFires ''/c/a.tar'') s'"
proof -
  have "\<not> HasSuffix ''/c/a.tar'' ''.keep''" "\<not> HasSuffix ''/c/a.tar'' ''.keep.tmp''" "0 + waitFor \<le> second"
    by code_simp+
  then show ?thesis
    using evaluated_after_last_write [OF ex_trace_run, of second "''/c/a.tar''"] pending_write_now [of "''/c/a.tar''" "[]" 0]
    by blast
qed

text \<open>C16: The policies are applied to an archive exactly if its identity was read while
  the collector was running and the collector is still running, and then with that identity.
  Reading is bounded: the reader runs at most \<open>maxAttempts\<close> times (once if that is less than
  one), and, if the collector is not stopped, gives up only after all attempts have failed.\<close>

theorem archive_read_retried:
  "(let run = readCheckpointArchiveInformationWithRetry (counting env) path maxAttempts delay (w, 0)
    in snd (snd run) \<le> nat (max 1 maxAttempts) \<and>
       ((\<forall>w. \<not> rdErr env w) \<and> (\<forall>d w. \<not> fst (rdSleep env d w)) \<and> isl (fst run) \<longrightarrow>
          snd (snd run) = nat (max 1 maxAttempts))) \<and>
    (let r = readCheckpointArchiveInformationWithRetry env path maxAttempts delay w;
         w' = handleWriteFinishedWithReader env applyTo path maxAttempts delay w
     in if isl (fst r) \<or> rdErr env (snd r) then w' = snd r
        else \<exists>d w0. \<not> rdErr env w0 \<and> rdRead env path w0 = (Inr d, snd r) \<and> w' = applyTo d (snd r))"
proof -
  define run where "run = readCheckpointArchiveInformationWithRetry (counting env) path maxAttempts delay (w, 0)"
  define n where "n = nat ((if maxAttempts < 1 then 1 else maxAttempts) - 1)"
  have n: "nat (max 1 maxAttempts) = n + 1" by (auto simp: n_def max_def)
  have run: "run = read_attempts (counting env) path delay n (w, 0)"
    by (simp add: run_def readCheckpointArchiveInformationWithRetry_def n_def Let_def)
  have "snd (snd run) \<le> n + 1"
    using read_attempts_counting [of n env path delay w 0] unfolding run by auto
  moreover have "snd (snd run) = n + 1"
    if "\<forall>w. \<not> rdErr env w" "\<forall>d w. \<not> fst (rdSleep env d w)" "isl (fst run)"
    using read_attempts_exhausts [OF that(1,2), of path delay n w 0 "projl (fst run)" "fst (snd run)" "snd (snd run)"] that(3)
    unfolding run by (cases "fst (read_attempts (counting env) path delay n (w, 0))") (auto simp: prod_eq_iff)
  moreover have "if isl (fst r) \<or> rdErr env (snd r) then w' = snd r
      else \<exists>d w0. \<not> rdErr env w0 \<and> rdRead env path w0 = (Inr d, snd r) \<and> w' = applyTo d (snd r)"
    if "r = readCheckpointArchiveInformationWithRetry env path maxAttempts delay w"
      "w' = handleWriteFinishedWithReader env applyTo path maxAttempts delay w" for r w'
  proof (cases "fst r")
    case (Inl e)
    then show ?thesis using that
      by (simp add: handleWriteFinishedWithReader_def split: prod.splits)
  next
    case (Inr d)
    then have "read_attempts env path delay n w = (Inr d, snd r)"
      using that(1) by (simp add: readCheckpointArchiveInformationWithRetry_def n_def Let_def prod_eq_iff)
    from read_attempts_success [OF this] show ?thesis using that Inr
      by (auto simp: handleWriteFinishedWithReader_def split: prod.splits)
  qed
  ultimately show ?thesis unfolding n Let_def run_def [symmetric] by blast
qed

theorem archive_read_retried_witness:
  "let env = \<lparr>rdErr = (\<lambda>_. False), rdRead = (\<lambda>_ w. (Inl DumpUnreadable, w)), rdSleep = (\<lambda>_ w. (False, w))\<rparr>
   in snd (snd (readCheckpointArchiveInformationWithRetry (counting env) ''a.tar'' 3 second ((), 0))) = 3"
proof -
  define env :: "unit ReadEnv" where
    "env = \<lparr>rdErr = (\<lambda>_. False), rdRead = (\<lambda>_ w. (Inl DumpUnreadable, w)), rdSleep = (\<lambda>_ w. (False, w))\<rparr>"
  have "isl (fst (readCheckpointArchiveInformationWithRetry (counting env) ''a.tar'' 3 second ((), 0)))"
    unfolding env_def by code_simp
  then show ?thesis
    using archive_read_retried [of env "''a.tar''" 3 second "()"] unfolding Let_def env_def [symmetric]
    by (simp add: env_def)
qed

end
