(* ===== verification/Checksum.thy ===== *)
theory Checksum
  imports Checkpoint_Creator
begin

text \<open>
  \<^verbatim>\<open>internal/controller/checksum.go\<close>: the checksum of an archive is computed by a helper
  pod on the node of the archive, whose log is parsed. The Kubernetes API, the clock and the
  sleeps are parameters (\<open>ChecksumEnv\<close>). The lemmas show how the helper pod is polled and
  that it is removed on every path, and that the parser inverts the output format of
  \<^verbatim>\<open>sha256sum\<close>.
\<close>

section \<open>Definitions\<close>

datatype ChecksumError =
  CreateHelperFailed ApiError
| GetHelperFailed ApiError
| HelperFailed string
| HelperTimedOut
| StreamFailed string
| LogReadFailed
| NoHelperOutput

subsection \<open>Parsing the log\<close>

text \<open>The lines of a \<open>bufio.Scanner\<close>: a last line without newline counts when not empty.\<close>

fun scan_lines :: "string \<Rightarrow> string list" where
  "scan_lines [] = []"
| "scan_lines (c # s) =
     (if c = CHR 0x0A then [] # scan_lines s
      else case scan_lines s of
        [] \<Rightarrow> [[c]]
      | l # ls \<Rightarrow> if s \<noteq> [] \<and> hd s = CHR 0x0A then [c] # ls else (c # l) # ls)"

definition drop_cr :: "string \<Rightarrow> string" where
  "drop_cr l = (if l \<noteq> [] \<and> last l = CHR 0x0D then butlast l else l)"

definition MaxScanTokenSize :: int where
  "MaxScanTokenSize = 65536"

text \<open>The scan loop; \<open>readErr\<close> is a read error after the given lines.\<close>

fun scan_hash :: "string list \<Rightarrow> bool \<Rightarrow> ChecksumError + string" where
  "scan_hash [] readErr = Inl (if readErr then LogReadFailed else NoHelperOutput)"
| "scan_hash (l # ls) readErr =
     (if int (length l) \<ge> MaxScanTokenSize then Inl LogReadFailed
      else let fields = Fields (TrimSpace (drop_cr l))
           in if length fields \<ge> 2 then Inr (fields ! 0) else scan_hash ls readErr)"

definition parseSHA256FromLogs :: "string \<times> bool \<Rightarrow> ChecksumError + string" where
  "parseSHA256FromLogs r = (case r of (content, readErr) \<Rightarrow> scan_hash (scan_lines content) readErr)"

subsection \<open>The helper pod\<close>

record HelperPod =
  hpName :: string
  hpNamespace :: string
  hpNodeName :: string
  hpRestartPolicy :: string
  hpHostPath :: string
  hpContainerName :: string
  hpImage :: string
  hpCommand :: "string list"
  hpMountPath :: string
  hpReadOnly :: bool

definition helper_pod :: "string \<Rightarrow> string \<Rightarrow> string \<Rightarrow> string \<Rightarrow> HelperPod" where
  "helper_pod name ns node snapshotPath =
     \<lparr>hpName = name, hpNamespace = ns, hpNodeName = node, hpRestartPolicy = ''Never'',
      hpHostPath = ''/var/lib/kubelet/checkpoints'', hpContainerName = ''checksum-helper'',
      hpImage = ''alpine:latest'', hpCommand = [''sh'', ''-c'', ''sha256sum '' @ snapshotPath],
      hpMountPath = ''/var/lib/kubelet/checkpoints'', hpReadOnly = True\<rparr>"

definition helper_name :: "int \<Rightarrow> string" where
  "helper_name nanos = ''checksum-helper-'' @ Itoa nanos"

text \<open>\<open>ckLogs\<close> opens the log stream: an error, or the content and whether reading it ends in one.\<close>

record 'w ChecksumEnv =
  ckUnixNano :: "'w \<Rightarrow> int \<times> 'w"
  ckCreate :: "HelperPod \<Rightarrow> 'w \<Rightarrow> ApiError option \<times> 'w"
  ckDelete :: "HelperPod \<Rightarrow> 'w \<Rightarrow> ApiError option \<times> 'w"
  ckSleep :: "duration \<Rightarrow> 'w \<Rightarrow> 'w"
  ckGet :: "string \<Rightarrow> string \<Rightarrow> 'w \<Rightarrow> (ApiError + Pod) \<times> 'w"
  ckLogs :: "string \<Rightarrow> string \<Rightarrow> 'w \<Rightarrow> (string + string \<times> bool) \<times> 'w"

text \<open>The polling loop; \<open>n\<close> rounds are left after the current one. \<open>None\<close> is success.\<close>

primrec poll_helper ::
  "'w ChecksumEnv \<Rightarrow> string \<Rightarrow> string \<Rightarrow> nat \<Rightarrow> 'w \<Rightarrow> ChecksumError option \<times> 'w" where
  "poll_helper env ns name 0 w =
     (case ckGet env ns name (ckSleep env (2 * second) w) of
        (Inl err, w1) \<Rightarrow> (Some (GetHelperFailed err), w1)
      | (Inr pod, w1) \<Rightarrow>
          if podPhase pod = PodSucceeded then (None, w1)
          else if podPhase pod = PodFailed then (Some (HelperFailed (podMessage pod)), w1)
          else (Some HelperTimedOut, w1))"
| "poll_helper env ns name (Suc n) w =
     (case ckGet env ns name (ckSleep env (2 * second) w) of
        (Inl err, w1) \<Rightarrow> (Some (GetHelperFailed err), w1)
      | (Inr pod, w1) \<Rightarrow>
          if podPhase pod = PodSucceeded then (None, w1)
          else if podPhase pod = PodFailed then (Some (HelperFailed (podMessage pod)), w1)
          else poll_helper env ns name n w1)"

definition computeChecksum ::
  "'w ChecksumEnv \<Rightarrow> string \<Rightarrow> string \<Rightarrow> string \<Rightarrow> 'w \<Rightarrow> (ChecksumError + string) \<times> 'w" where
  "computeChecksum env ns node snapshotPath w =
     (case ckUnixNano env w of
        (nanos, w0) \<Rightarrow>
          let name = helper_name nanos;
              helperPod = helper_pod name ns node snapshotPath
          in case ckCreate env helperPod w0 of
               (Some err, w1) \<Rightarrow> (Inl (CreateHelperFailed err), w1)
             | (None, w1) \<Rightarrow>
                 (case (case poll_helper env ns name 29 w1 of
                          (Some err, w2) \<Rightarrow> (Inl err, w2)
                        | (None, w2) \<Rightarrow>
                            (case ckLogs env ns name w2 of
                               (Inl err, w3) \<Rightarrow> (Inl (StreamFailed err), w3)
                             | (Inr stream, w3) \<Rightarrow> (parseSHA256FromLogs stream, w3))) of
                    (r, w4) \<Rightarrow> (r, snd (ckDelete env helperPod w4))))"

section \<open>Lemmas\<close>

text \<open>An environment that records its calls.\<close>

datatype CkCall = CkCreate HelperPod | CkDelete HelperPod | CkGet string string | CkLogs string string

definition recording :: "'w ChecksumEnv \<Rightarrow> ('w \<times> CkCall list) ChecksumEnv" where
  "recording env =
     \<lparr>ckUnixNano = (\<lambda>(w, tr). case ckUnixNano env w of (n, w1) \<Rightarrow> (n, (w1, tr))),
      ckCreate = (\<lambda>p (w, tr). case ckCreate env p w of (e, w1) \<Rightarrow> (e, (w1, tr @ [CkCreate p]))),
      ckDelete = (\<lambda>p (w, tr). case ckDelete env p w of (e, w1) \<Rightarrow> (e, (w1, tr @ [CkDelete p]))),
      ckSleep = (\<lambda>d (w, tr). (ckSleep env d w, tr)),
      ckGet = (\<lambda>ns name (w, tr). case ckGet env ns name w of (r, w1) \<Rightarrow> (r, (w1, tr @ [CkGet ns name]))),
      ckLogs = (\<lambda>ns name (w, tr). case ckLogs env ns name w of (r, w1) \<Rightarrow> (r, (w1, tr @ [CkLogs ns name])))\<rparr>"

lemma recording_simps [simp]:
  "ckUnixNano (recording env) (w, tr) = (fst (ckUnixNano env w), (snd (ckUnixNano env w), tr))"
  "ckCreate (recording env) p (w, tr) = (fst (ckCreate env p w), (snd (ckCreate env p w), tr @ [CkCreate p]))"
  "ckDelete (recording env) p (w, tr) = (fst (ckDelete env p w), (snd (ckDelete env p w), tr @ [CkDelete p]))"
  "ckSleep (recording env) d (w, tr) = (ckSleep env d w, tr)"
  "ckGet (recording env) ns n (w, tr) = (fst (ckGet env ns n w), (snd (ckGet env ns n w), tr @ [CkGet ns n]))"
  "ckLogs (recording env) ns n (w, tr) = (fst (ckLogs env ns n w), (snd (ckLogs env ns n w), tr @ [CkLogs ns n]))"
  by (simp_all add: recording_def split: prod.splits)

lemma poll_recording:
  "\<exists>k. k \<le> n + 1 \<and> 0 < k \<and> poll_helper (recording env) ns name n (w, tr) =
     (fst (poll_helper env ns name n w), (snd (poll_helper env ns name n w), tr @ replicate k (CkGet ns name)))"
proof (induction n arbitrary: w tr)
  case 0
  obtain r w1 where g: "ckGet env ns name (ckSleep env (2 * second) w) = (r, w1)" by fastforce
  then show ?case by (intro exI [of _ 1]) (auto split: sum.splits)
next
  case (Suc n)
  obtain r w1 where g: "ckGet env ns name (ckSleep env (2 * second) w) = (r, w1)" by fastforce
  obtain k where k: "k \<le> n + 1" "poll_helper (recording env) ns name n (w1, tr @ [CkGet ns name]) =
     (fst (poll_helper env ns name n w1), (snd (poll_helper env ns name n w1),
       (tr @ [CkGet ns name]) @ replicate k (CkGet ns name)))"
    using Suc.IH [of w1 "tr @ [CkGet ns name]"] by blast
  show ?case
  proof (cases "\<exists>pod. r = Inr pod \<and> podPhase pod \<noteq> PodSucceeded \<and> podPhase pod \<noteq> PodFailed")
    case True
    then show ?thesis using k g by (intro exI [of _ "Suc k"]) auto
  next
    case False
    then show ?thesis using g by (intro exI [of _ 1]) (auto split: sum.splits)
  qed
qed

lemma fields_aux_word:
  "\<forall>c\<in>set h. \<not> isSpace c \<Longrightarrow> fields_aux cur (h @ s) = fields_aux (rev h @ cur) s"
  by (induction h arbitrary: cur) auto

lemma fields_aux_nonempty: "\<exists>c\<in>set s. \<not> isSpace c \<Longrightarrow> fields_aux [] s \<noteq> []"
proof -
  have 1: "cur \<noteq> [] \<Longrightarrow> fields_aux cur s \<noteq> []" for cur s by (induction s arbitrary: cur) auto
  show "\<exists>c\<in>set s. \<not> isSpace c \<Longrightarrow> fields_aux [] s \<noteq> []" by (induction s) (auto simp: 1)
qed

lemma Fields_two:
  assumes "h \<noteq> []" "\<forall>c\<in>set h. \<not> isSpace c" "isSpace b" "\<exists>c\<in>set r. \<not> isSpace c"
  shows "length (Fields (h @ b # r)) \<ge> 2" "Fields (h @ b # r) ! 0 = h"
proof -
  have "Fields (h @ b # r) = h # fields_aux [] r"
    using assms(1-3) by (simp add: Fields_def fields_aux_word)
  moreover have "fields_aux [] r \<noteq> []" using assms(4) by (rule fields_aux_nonempty)
  ultimately show "length (Fields (h @ b # r)) \<ge> 2" "Fields (h @ b # r) ! 0 = h"
    by (cases "fields_aux [] r"; simp)+
qed

lemma TrimSpace_id:
  assumes "s \<noteq> []" "\<not> isSpace (hd s)" "\<not> isSpace (last s)"
  shows "TrimSpace s = s"
proof -
  have "dropWhile isSpace s = s" using assms(1,2) by (cases s) auto
  moreover have "dropWhile isSpace (rev s) = rev s"
    using assms(1,3) by (cases "rev s") (auto simp: last_rev hd_rev)
  ultimately show ?thesis by (simp add: TrimSpace_def)
qed

lemma scan_lines_line: "CHR 0x0A \<notin> set l \<Longrightarrow> scan_lines (l @ CHR 0x0A # r) = l # scan_lines r"
proof (induction l)
  case (Cons c l)
  then show ?case by (cases l) auto
qed simp

text \<open>A run by what its calls return.\<close>

lemma checksum_run:
  assumes "ckUnixNano env w = (n, w0)" "ckCreate env (helper_pod (helper_name n) ns node path) w0 = (e, w1)"
    "poll_helper env ns (helper_name n) 29 w1 = (p, w2)" "ckLogs env ns (helper_name n) w2 = (g, w3)"
  shows "computeChecksum env ns node path w = (case e of
      Some err \<Rightarrow> (Inl (CreateHelperFailed err), w1)
    | None \<Rightarrow> (case p of
        Some err \<Rightarrow> (Inl err, snd (ckDelete env (helper_pod (helper_name n) ns node path) w2))
      | None \<Rightarrow> (case g of Inl err \<Rightarrow> Inl (StreamFailed err) | Inr st \<Rightarrow> parseSHA256FromLogs st,
          snd (ckDelete env (helper_pod (helper_name n) ns node path) w3))))"
  using assms by (simp add: computeChecksum_def Let_def split: option.splits sum.splits)

section \<open>Properties\<close>

text \<open>C20: The helper pod never outlives the checksum. If it was created, it is polled at most
  thirty times, its log is read only if it succeeded, and its deletion is the last call, on
  every path; if it could not be created, nothing else is called. No other object is touched.\<close>

theorem helper_pod_removed:
  "let helper = helper_pod (helper_name (fst (ckUnixNano env w))) ns node path;
       run = computeChecksum (recording env) ns node path (w, [])
   in fst run = fst (computeChecksum env ns node path w) \<and>
      (if fst (ckCreate env helper (snd (ckUnixNano env w))) \<noteq> None
       then snd (snd run) = [CkCreate helper] \<and> isl (fst run)
       else \<exists>k logs. 0 < k \<and> k \<le> 30 \<and>
         snd (snd run) = CkCreate helper # replicate k (CkGet ns (hpName helper)) @ logs @ [CkDelete helper] \<and>
         logs \<in> {[], [CkLogs ns (hpName helper)]} \<and> (logs = [] \<longrightarrow> isl (fst run)))"
proof -
  obtain n w0 where n: "ckUnixNano env w = (n, w0)" by fastforce
  define name helper where "name = helper_name n"
    and "helper = helper_pod name ns node path"
  obtain e w1 where e: "ckCreate env helper w0 = (e, w1)" by fastforce
  obtain p w2 where p: "poll_helper env ns name 29 w1 = (p, w2)" by fastforce
  obtain g w3 where g: "ckLogs env ns name w2 = (g, w3)" by fastforce
  obtain k where k: "k \<le> 29 + 1" "0 < k" "poll_helper (recording env) ns name 29 (w1, [CkCreate helper])
      = (p, (w2, CkCreate helper # replicate k (CkGet ns name)))"
    using poll_recording [of 29 env ns name w1 "[CkCreate helper]"] p by auto
  note c = checksum_run [OF n e [unfolded helper_def name_def] p [unfolded name_def] g [unfolded name_def],
      folded name_def, folded helper_def]
  have r: "computeChecksum (recording env) ns node path (w, []) = (case e of
        Some err \<Rightarrow> (Inl (CreateHelperFailed err), (w1, [CkCreate helper]))
      | None \<Rightarrow> (case p of
          Some err \<Rightarrow> (Inl err, (snd (ckDelete env helper w2),
            CkCreate helper # replicate k (CkGet ns name) @ [CkDelete helper]))
        | None \<Rightarrow> (case g of Inl err \<Rightarrow> Inl (StreamFailed err) | Inr st \<Rightarrow> parseSHA256FromLogs st,
            (snd (ckDelete env helper w3),
              CkCreate helper # replicate k (CkGet ns name) @ [CkLogs ns name, CkDelete helper]))))"
    using checksum_run [of "recording env" "(w, [])" n "(w0, [])" ns node path e "(w1, [CkCreate helper])" p
      "(w2, CkCreate helper # replicate k (CkGet ns name))" g
      "(w3, CkCreate helper # replicate k (CkGet ns name) @ [CkLogs ns name])"] n e k(3) g
    by (simp add: recording_def flip: name_def helper_def split: option.splits sum.splits prod.splits)
  have hn: "hpName helper = name" by (simp add: helper_def helper_pod_def)
  show ?thesis
  proof (cases e)
    case None
    show ?thesis
    proof (cases p)
      case None
      then show ?thesis using \<open>e = None\<close> k(1,2) n e hn
        by (auto simp: c r Let_def simp flip: name_def helper_def split: sum.splits
            intro!: exI [of _ k] exI [of _ "[CkLogs ns name]"])
    next
      case (Some err)
      then show ?thesis using \<open>e = None\<close> k(1,2) n e hn
        by (auto simp: c r Let_def simp flip: name_def helper_def intro!: exI [of _ k] exI [of _ "[]"])
    qed
  next
    case (Some err)
    then show ?thesis using n e by (simp add: c r Let_def flip: name_def helper_def)
  qed
qed

definition ex_pod :: Pod where
  "ex_pod = \<lparr>podName = ''h'', podNamespace = ''ns'', podLabels = [], podAnnotations = [], podController = None,
     podDeletionTimestamp = None, podNodeName = ''n'', podContainers = [], podPhase = PodSucceeded,
     podReason = [], podMessage = [], podConditions = []\<rparr>"

definition ex_checksum_env :: "unit ChecksumEnv" where
  "ex_checksum_env =
     \<lparr>ckUnixNano = (\<lambda>w. (7, w)), ckCreate = (\<lambda>_ w. (None, w)), ckDelete = (\<lambda>_ w. (None, w)),
      ckSleep = (\<lambda>_ w. w), ckGet = (\<lambda>_ _ w. (Inr ex_pod, w)),
      ckLogs = (\<lambda>_ _ w. (Inr (''ab  /c/x.tar'' @ [CHR 0x0A], False), w))\<rparr>"

theorem helper_pod_removed_witness:
  "\<exists>k logs. 0 < k \<and> k \<le> 30 \<and>
     snd (snd (computeChecksum (recording ex_checksum_env) ''ns'' ''n'' ''/c/x.tar'' ((), []))) =
       CkCreate (helper_pod (helper_name 7) ''ns'' ''n'' ''/c/x.tar'') #
       replicate k (CkGet ''ns'' (helper_name 7)) @ logs @
       [CkDelete (helper_pod (helper_name 7) ''ns'' ''n'' ''/c/x.tar'')]"
  using helper_pod_removed [of ex_checksum_env "()" "''ns''" "''n''" "''/c/x.tar''"]
  by (simp add: Let_def ex_checksum_env_def helper_pod_def) blast

text \<open>C21: Parsing inverts \<^verbatim>\<open>sha256sum\<close>. From a log whose first line is a digest, two blanks and
  a path, the parser returns the digest, whatever follows that line.\<close>

theorem checksum_line_parsed:
  assumes "digest \<noteq> []" and "list_all (\<lambda>c. \<not> isSpace c) digest" and "path \<noteq> []"
    and "CHR 0x0A \<notin> set path" and "\<not> isSpace (last path)"
    and "int (length digest + length path) + 2 < MaxScanTokenSize"
  shows "parseSHA256FromLogs (digest @ ''  '' @ path @ [CHR 0x0A] @ rest, readErr) = Inr digest"
proof -
  let ?l = "digest @ ''  '' @ path"
  have d: "\<forall>c\<in>set digest. \<not> isSpace c" using assms(2) by (simp add: list_all_iff)
  have n: "CHR 0x0A \<notin> set ?l" using assms(4) d by (auto simp: isSpace_def)
  have s: "scan_lines (?l @ CHR 0x0A # rest) = ?l # scan_lines rest" using scan_lines_line [OF n] .
  have cr: "drop_cr ?l = ?l" using assms(3,5) by (auto simp: drop_cr_def isSpace_def)
  have t: "TrimSpace ?l = ?l"
    by (rule TrimSpace_id) (use assms(1,3,5) d in \<open>auto simp: hd_append\<close>)
  have f: "length (Fields ?l) \<ge> 2" "Fields ?l ! 0 = digest"
  proof -
    have "isSpace (CHR '' '')" by (simp add: isSpace_def)
    moreover have "\<exists>c\<in>set ('' '' @ path). \<not> isSpace c"
      by (rule bexI [of _ "last path"]) (use assms(3,5) in auto)
    ultimately show "length (Fields ?l) \<ge> 2" "Fields ?l ! 0 = digest"
      using Fields_two [OF assms(1) d, of "CHR '' ''" "'' '' @ path"] by simp_all
  qed
  have len: "\<not> int (length ?l) \<ge> MaxScanTokenSize" using assms(6) by simp
  have "parseSHA256FromLogs (?l @ CHR 0x0A # rest, readErr) = Inr digest"
    unfolding parseSHA256FromLogs_def prod.case s scan_hash.simps if_not_P [OF len] cr t Let_def
    using f by simp
  then show ?thesis by simp
qed

theorem checksum_line_parsed_witness:
  "parseSHA256FromLogs (''ab12'' @ ''  '' @ ''/c/x.tar'' @ [CHR 0x0A] @ ''more'', True) = Inr ''ab12''"
proof -
  have p: "''ab12'' \<noteq> []" "''/c/x.tar'' \<noteq> []" "list_all (\<lambda>c. \<not> isSpace c) ''ab12''"
    "CHR 0x0A \<notin> set ''/c/x.tar''" "\<not> isSpace (last ''/c/x.tar'')"
    "int (length ''ab12'' + length ''/c/x.tar'') + 2 < MaxScanTokenSize"
    by code_simp+
  show ?thesis by (rule checksum_line_parsed [OF p(1,3,2,4,5,6)])
qed


end
