(* ===== verification/Forensic_Chain.thy ===== *)
theory Forensic_Chain
  imports Checksum
begin

text \<open>
  \<^verbatim>\<open>api/v1/forensicsnapshotchain_types.go\<close> and
  \<^verbatim>\<open>internal/controller/forensicsnapshotchain_controller.go\<close>: the phase machine of a forensic
  snapshot chain. A reconcile reads the chain, and depending on its phase initialises it,
  starts it, or runs one capture round, and persists the outcome.

  The API server, the checkpointer, the checksum and the clock are parameters
  (\<open>ForensicEnv\<close>), each call threading the world. A status mutation reads the clock once.
  The counters of the status are 32 bit integers.
\<close>

section \<open>API types\<close>

record CaptureSpec =
  Interval :: "duration option"
  MaxSnapshots :: "int option"
  MaxDuration :: "duration option"

record SnapshotChainRecord =
  srIndex :: int
  srPodName :: string
  srContainerName :: string
  srCheckpointPath :: string
  srSnapshotTime :: time
  srSHA256Hash :: string
  srPreviousSHA256Hash :: string

record ForensicSnapshotChainSpec =
  fcNamespace :: string
  fcSelector :: LabelSelector
  fcContainerNames :: "string list"
  fcCapture :: CaptureSpec
  fcHashAlgorithm :: string
  fcPostSnapshotAction :: string

record ForensicSnapshotChainStatus =
  fcConditions :: "Condition list"
  fcPhase :: string
  fcSnapshotCount :: int
  fcAttemptCount :: int
  fcFailureCount :: int
  fcStartTime :: "time option"
  fcLastSnapshotTime :: "time option"
  fcCompletionTime :: "time option"
  fcErrorMessage :: string
  fcObservedGeneration :: int
  fcRecords :: "SnapshotChainRecord list"

record ForensicSnapshotChain =
  fcObjectNamespace :: string
  fcName :: string
  fcGeneration :: int
  fcSpec :: ForensicSnapshotChainSpec
  fcStatus :: ForensicSnapshotChainStatus

definition PhasePending :: string where "PhasePending = ''Pending''"
definition PhaseRunning :: string where "PhaseRunning = ''Running''"
definition PhaseCompleted :: string where "PhaseCompleted = ''Completed''"
definition PhaseFailed :: string where "PhaseFailed = ''Failed''"
definition PostSnapshotActionDeletePod :: string where "PostSnapshotActionDeletePod = ''DeletePod''"

definition DefaultInterval :: duration where "DefaultInterval = 30 * second"
definition maxConsecutiveCheckpointFailures :: int where "maxConsecutiveCheckpointFailures = 5"

abbreviation chain_phase :: "ForensicSnapshotChain \<Rightarrow> string" where
  "chain_phase c \<equiv> fcPhase (fcStatus c)"

definition captureInterval :: "ForensicSnapshotChain \<Rightarrow> duration" where
  "captureInterval chain =
     (case Interval (fcCapture (fcSpec chain)) of None \<Rightarrow> DefaultInterval | Some d \<Rightarrow> d)"

section \<open>The environment\<close>

datatype ForensicError = ChainApi ApiError | BadAlgorithm string | ChainCheckpoint CheckpointError

record 'w ForensicEnv =
  feGet :: "string \<Rightarrow> string \<Rightarrow> 'w \<Rightarrow> (ApiError + ForensicSnapshotChain) \<times> 'w"
  feUpdateStatus :: "ForensicSnapshotChain \<Rightarrow> 'w \<Rightarrow> ApiError option \<times> 'w"
  feNow :: "'w \<Rightarrow> time \<times> 'w"
  fePods :: "'w PodLister"
  feCheckpoint :: "string \<Rightarrow> string \<Rightarrow> string \<Rightarrow> string \<Rightarrow> 'w \<Rightarrow> (CheckpointError + string) \<times> 'w"
  feChecksum :: "string \<Rightarrow> string \<Rightarrow> string \<Rightarrow> 'w \<Rightarrow> (ChecksumError + string) \<times> 'w"
  feChecksumText :: "ChecksumError \<Rightarrow> string"
  feDelete :: "Pod \<Rightarrow> 'w \<Rightarrow> ApiError option \<times> 'w"

section \<open>Status updates\<close>

definition set_condition ::
  "time \<Rightarrow> string \<Rightarrow> string \<Rightarrow> string \<Rightarrow> string \<Rightarrow> ForensicSnapshotChainStatus \<Rightarrow> ForensicSnapshotChainStatus" where
  "set_condition now ctype status reason message st =
     st\<lparr>fcConditions := SetStatusCondition now (fcConditions st)
          \<lparr>cType = ctype, cStatus = status, cObservedGeneration = 0, cLastTransitionTime = now,
           cReason = reason, cMessage = message\<rparr>\<rparr>"

abbreviation on_status ::
  "(ForensicSnapshotChainStatus \<Rightarrow> ForensicSnapshotChainStatus) \<Rightarrow> ForensicSnapshotChain \<Rightarrow> ForensicSnapshotChain" where
  "on_status f c \<equiv> c\<lparr>fcStatus := f (fcStatus c)\<rparr>"

definition running_message :: string where
  "running_message = ''ForensicSnapshotChain is running, snapshot chain is in progress''"

definition to_pending :: "time \<Rightarrow> ForensicSnapshotChain \<Rightarrow> ForensicSnapshotChain" where
  "to_pending now chain =
     on_status (\<lambda>st. (set_condition now ''Ready'' ConditionFalse ''Pending''
         ''ForensicSnapshotChain is pending, waiting to start snapshot chain'' (st\<lparr>fcPhase := PhasePending\<rparr>))
       \<lparr>fcStartTime := Some now, fcObservedGeneration := fcGeneration chain\<rparr>) chain"

definition to_running :: "time \<Rightarrow> ForensicSnapshotChain \<Rightarrow> ForensicSnapshotChain" where
  "to_running now chain =
     on_status (\<lambda>st. (set_condition now ''Ready'' ConditionFalse ''Running'' running_message
         (st\<lparr>fcPhase := PhaseRunning\<rparr>))\<lparr>fcObservedGeneration := fcGeneration chain\<rparr>) chain"

definition mutate_bad_algorithm ::
  "string \<Rightarrow> time \<Rightarrow> ForensicSnapshotChainStatus \<Rightarrow> ForensicSnapshotChainStatus" where
  "mutate_bad_algorithm message now st =
     set_condition now ''Ready'' ConditionFalse ''Failed'' message
       (st\<lparr>fcPhase := PhaseFailed, fcErrorMessage := message, fcCompletionTime := Some now\<rparr>)"

definition mutate_max_duration ::
  "time \<Rightarrow> ForensicSnapshotChainStatus \<Rightarrow> ForensicSnapshotChainStatus" where
  "mutate_max_duration now st =
     set_condition now ''Ready'' ConditionTrue ''MaxDurationReached''
       ''Snapshot chain stopped as it reached the maximum duration''
       (st\<lparr>fcCompletionTime := Some now, fcPhase := PhaseCompleted\<rparr>)"

definition mutate_failure ::
  "bool \<Rightarrow> string \<Rightarrow> time \<Rightarrow> ForensicSnapshotChainStatus \<Rightarrow> ForensicSnapshotChainStatus" where
  "mutate_failure giveUp message now st =
     (let st1 = st\<lparr>fcFailureCount := wrap32 (fcFailureCount st + 1), fcErrorMessage := message\<rparr>;
          st2 = (if giveUp then st1\<lparr>fcPhase := PhaseFailed, fcCompletionTime := Some now\<rparr> else st1)
      in set_condition now ''Ready'' ConditionFalse
           (if giveUp then ''CheckpointFailed'' else ''CheckpointError'') message st2)"

text \<open>What a capture round has collected so far.\<close>

record Round =
  roRecords :: "SnapshotChainRecord list"
  roCaptured :: int
  roIntegrityFailed :: bool
  roIntegrityMessage :: string
  roPreviousHash :: string

definition appendRoundRecords ::
  "time \<Rightarrow> Round \<Rightarrow> bool \<Rightarrow> ForensicSnapshotChainStatus \<Rightarrow> ForensicSnapshotChainStatus" where
  "appendRoundRecords now rd hashingEnabled st =
     (if length (roRecords rd) = 0 then st
      else let st1 = st\<lparr>fcRecords := fcRecords st @ roRecords rd\<rparr>
           in if \<not> hashingEnabled then st1
              else if roIntegrityFailed rd then
                set_condition now ''IntegrityVerified'' ConditionFalse ''HashGenerationFailed''
                  (roIntegrityMessage rd) st1
              else set_condition now ''IntegrityVerified'' ConditionTrue ''HashGenerationSucceeded''
                     ''all snapshots successfully hashed'' st1)"

definition mutate_done ::
  "time \<Rightarrow> string \<Rightarrow> string \<Rightarrow> Round \<Rightarrow> bool \<Rightarrow> time \<Rightarrow> ForensicSnapshotChainStatus \<Rightarrow> ForensicSnapshotChainStatus" where
  "mutate_done roundTime reason message rd hashingEnabled now st =
     (let st1 = st\<lparr>fcLastSnapshotTime := Some roundTime, fcAttemptCount := wrap32 (fcAttemptCount st + 1),
                   fcFailureCount := 0\<rparr>;
          st2 = (if roCaptured rd > 0
                 then st1\<lparr>fcSnapshotCount := wrap32 (fcSnapshotCount st1 + 1), fcErrorMessage := []\<rparr> else st1);
          st3 = set_condition now ''Ready'' ConditionTrue reason message
                  (st2\<lparr>fcCompletionTime := Some roundTime, fcPhase := PhaseCompleted\<rparr>)
      in appendRoundRecords now rd hashingEnabled st3)"

definition mutate_continue ::
  "time \<Rightarrow> Round \<Rightarrow> bool \<Rightarrow> time \<Rightarrow> ForensicSnapshotChainStatus \<Rightarrow> ForensicSnapshotChainStatus" where
  "mutate_continue roundTime rd hashingEnabled now st =
     (let st1 = st\<lparr>fcLastSnapshotTime := Some roundTime, fcAttemptCount := wrap32 (fcAttemptCount st + 1),
                   fcFailureCount := 0\<rparr>;
          st2 = (if roCaptured rd > 0 then
                   (let st' = st1\<lparr>fcSnapshotCount := wrap32 (fcSnapshotCount st1 + 1)\<rparr>
                    in if fcErrorMessage st' \<noteq> [] then
                         set_condition now ''Ready'' ConditionFalse ''Running'' running_message
                           (st'\<lparr>fcErrorMessage := []\<rparr>)
                       else st')
                 else st1)
      in appendRoundRecords now rd hashingEnabled st2)"

definition updateChainStatus ::
  "'w ForensicEnv \<Rightarrow> ForensicSnapshotChain \<Rightarrow>
     (time \<Rightarrow> ForensicSnapshotChainStatus \<Rightarrow> ForensicSnapshotChainStatus) \<Rightarrow> 'w \<Rightarrow> ApiError option \<times> 'w" where
  "updateChainStatus env chain mutate =
     RetryOnConflict DefaultRetry_steps
       (\<lambda>w. case feGet env (fcObjectNamespace chain) (fcName chain) w of
          (Inl err, w1) \<Rightarrow> (Some err, w1)
        | (Inr latest, w1) \<Rightarrow>
            (case feNow env w1 of
               (now, w2) \<Rightarrow>
                 feUpdateStatus env
                   (on_status (\<lambda>st. (mutate now st)\<lparr>fcObservedGeneration := fcGeneration latest\<rparr>) latest) w2))"

section \<open>One round\<close>

fun delete_pods :: "'w ForensicEnv \<Rightarrow> Pod list \<Rightarrow> 'w \<Rightarrow> ApiError option \<times> 'w" where
  "delete_pods env [] w = (None, w)"
| "delete_pods env (pod # pods) w =
     (case feDelete env pod w of
        (None, w1) \<Rightarrow> delete_pods env pods w1
      | (Some e, w1) \<Rightarrow>
          (case IgnoreNotFound e of None \<Rightarrow> delete_pods env pods w1 | Some err \<Rightarrow> (Some err, w1)))"

definition executePostSnapshotAction ::
  "'w ForensicEnv \<Rightarrow> ForensicSnapshotChain \<Rightarrow> Pod list \<Rightarrow> int \<Rightarrow> 'w \<Rightarrow> ApiError option \<times> 'w" where
  "executePostSnapshotAction env chain pods snapshotCount w =
     (if fcPostSnapshotAction (fcSpec chain) \<noteq> PostSnapshotActionDeletePod then (None, w)
      else if snapshotCount = 0 then (None, w)
      else delete_pods env pods w)"

definition new_record :: "ForensicSnapshotChain \<Rightarrow> Round \<Rightarrow> Pod \<Rightarrow> Container \<Rightarrow> time \<Rightarrow> string \<Rightarrow> SnapshotChainRecord" where
  "new_record chain rd pod container now checkpointPath =
     \<lparr>srIndex = wrap32 (int (length (fcRecords (fcStatus chain)) + length (roRecords rd))),
      srPodName = podName pod, srContainerName = ctName container, srCheckpointPath = checkpointPath,
      srSnapshotTime = now, srSHA256Hash = [], srPreviousSHA256Hash = []\<rparr>"

text \<open>The two nested loops, over the selected containers of the pods in order.\<close>

fun capture_round ::
  "'w ForensicEnv \<Rightarrow> ForensicSnapshotChain \<Rightarrow> bool \<Rightarrow> (Pod \<times> Container) list \<Rightarrow> Round \<Rightarrow> 'w \<Rightarrow>
     (CheckpointError + Round) \<times> 'w" where
  "capture_round env chain hashingEnabled [] rd w = (Inr rd, w)"
| "capture_round env chain hashingEnabled ((pod, container) # targets) rd w =
     (case feCheckpoint env (fcNamespace (fcSpec chain)) (podName pod) (ctName container) (podNodeName pod) w of
        (Inl err, w1) \<Rightarrow> (Inl err, w1)
      | (Inr checkpointPath, w1) \<Rightarrow>
          (case feNow env w1 of
             (now, w2) \<Rightarrow>
               let record = new_record chain rd pod container now checkpointPath;
                   rd1 = rd\<lparr>roCaptured := roCaptured rd + 1\<rparr>
               in if \<not> hashingEnabled then
                    capture_round env chain hashingEnabled targets
                      (rd1\<lparr>roRecords := roRecords rd @ [record]\<rparr>) w2
                  else
                    (case feChecksum env (fcNamespace (fcSpec chain)) (podNodeName pod) checkpointPath w2 of
                       (Inl err, w3) \<Rightarrow>
                         capture_round env chain hashingEnabled targets
                           (rd1\<lparr>roIntegrityFailed := True,
                               roIntegrityMessage := ''snapshot '' @ Itoa (srIndex record) @ '': '' @ feChecksumText env err,
                               roRecords := roRecords rd @ [record]\<rparr>) w3
                     | (Inr hash, w3) \<Rightarrow>
                         capture_round env chain hashingEnabled targets
                           (rd1\<lparr>roPreviousHash := hash,
                               roRecords := roRecords rd @
                                 [record\<lparr>srPreviousSHA256Hash := roPreviousHash rd, srSHA256Hash := hash\<rparr>]\<rparr>) w3)))"

definition round_start :: "ForensicSnapshotChain \<Rightarrow> Round" where
  "round_start chain =
     \<lparr>roRecords = [], roCaptured = 0, roIntegrityFailed = False, roIntegrityMessage = [],
      roPreviousHash = (let rs = fcRecords (fcStatus chain) in if rs = [] then [] else srSHA256Hash (last rs))\<rparr>"

definition round_targets :: "ForensicSnapshotChain \<Rightarrow> Pod list \<Rightarrow> (Pod \<times> Container) list" where
  "round_targets chain pods =
     concat (map (\<lambda>pod. map (\<lambda>c. (pod, c)) (filterContainers pod (fcContainerNames (fcSpec chain)))) pods)"

text \<open>Whether a round completes the chain: the reason and message of the completion.\<close>

definition round_done :: "ForensicSnapshotChain \<Rightarrow> int \<Rightarrow> (string \<times> string) option" where
  "round_done chain captured =
     (let st = fcStatus chain;
          attemptCount = wrap32 (fcAttemptCount st + 1);
          snapshotCount = (if captured > 0 then wrap32 (fcSnapshotCount st + 1) else fcSnapshotCount st)
      in case MaxSnapshots (fcCapture (fcSpec chain)) of
           None \<Rightarrow> None
         | Some limit \<Rightarrow>
             if snapshotCount \<ge> limit then
               Some (''MaxSnapshotsReached'',
                 ''Snapshot chain completed as it reached the maximum number of snapshots'')
             else if captured = 0 \<and> MaxDuration (fcCapture (fcSpec chain)) = None \<and> attemptCount \<ge> limit then
               Some (''NoMatchingPods'',
                 ''Snapshot chain completed without capturing the requested number of snapshots because no pods matched the selector'')
             else None)"

section \<open>Reconcile\<close>

abbreviation (input) chain_ok :: "ForensicError + Result" where "chain_ok \<equiv> Inr no_requeue"

text \<open>The result of a status write that ends a reconcile.\<close>

definition ended :: "ApiError option \<times> 'w \<Rightarrow> ForensicError + Result \<Rightarrow> (ForensicError + Result) \<times> 'w" where
  "ended u r = (case u of (Some err, w) \<Rightarrow> (Inl (ChainApi err), w) | (None, w) \<Rightarrow> (r, w))"

definition complete_chain ::
  "'w ForensicEnv \<Rightarrow> ForensicSnapshotChain \<Rightarrow> Pod list \<Rightarrow> int \<Rightarrow>
     (time \<Rightarrow> ForensicSnapshotChainStatus \<Rightarrow> ForensicSnapshotChainStatus) \<Rightarrow> 'w \<Rightarrow> (ForensicError + Result) \<times> 'w" where
  "complete_chain env chain pods snapshotCount mutate w =
     (case updateChainStatus env chain mutate w of
        (Some err, w1) \<Rightarrow> (Inl (ChainApi err), w1)
      | (None, w1) \<Rightarrow> (chain_ok, snd (executePostSnapshotAction env chain pods snapshotCount w1)))"

definition capture_and_record ::
  "'w ForensicEnv \<Rightarrow> ForensicSnapshotChain \<Rightarrow> bool \<Rightarrow> Pod list \<Rightarrow> 'w \<Rightarrow> (ForensicError + Result) \<times> 'w" where
  "capture_and_record env chain hashingEnabled pods w =
     (case capture_round env chain hashingEnabled (round_targets chain pods) (round_start chain) w of
        (Inl err, w1) \<Rightarrow>
          (let failureCount = wrap32 (fcFailureCount (fcStatus chain) + 1);
               giveUp = (MaxDuration (fcCapture (fcSpec chain)) = None \<and>
                         failureCount \<ge> maxConsecutiveCheckpointFailures)
           in ended (updateChainStatus env chain (mutate_failure giveUp (error_text err)) w1)
                (if giveUp then chain_ok else Inl (ChainCheckpoint err)))
      | (Inr rd, w1) \<Rightarrow>
          (case feNow env w1 of
             (now, w2) \<Rightarrow>
               (case round_done chain (roCaptured rd) of
                  Some (reason, message) \<Rightarrow>
                    complete_chain env chain pods
                      (if roCaptured rd > 0 then wrap32 (fcSnapshotCount (fcStatus chain) + 1)
                       else fcSnapshotCount (fcStatus chain))
                      (mutate_done now reason message rd hashingEnabled) w2
                | None \<Rightarrow>
                    ended (updateChainStatus env chain (mutate_continue now rd hashingEnabled) w2)
                      (Inr (requeue_after (captureInterval chain))))))"

text \<open>After the time backstop: wait for the interval, or run a round.\<close>

definition run_round ::
  "'w ForensicEnv \<Rightarrow> ForensicSnapshotChain \<Rightarrow> bool \<Rightarrow> 'w \<Rightarrow> (ForensicError + Result) \<times> 'w" where
  "run_round env chain hashingEnabled w =
     (let (early, w1) =
        (case fcLastSnapshotTime (fcStatus chain) of
           None \<Rightarrow> (None, w)
         | Some last_time \<Rightarrow>
             (case feNow env w of
                (now, w1) \<Rightarrow>
                  let next = last_time + captureInterval chain
                  in (if now < next then Some (next - now) else None, w1)))
      in case early of
           Some d \<Rightarrow> (Inr (requeue_after d), w1)
         | None \<Rightarrow>
             (case getMatchingPods (fePods env) (fcNamespace (fcSpec chain)) (fcSelector (fcSpec chain)) w1 of
                (Inl err, w2) \<Rightarrow> (Inl (ChainApi err), w2)
              | (Inr pods, w2) \<Rightarrow> capture_and_record env chain hashingEnabled pods w2))"

definition stop_at_max_duration ::
  "'w ForensicEnv \<Rightarrow> ForensicSnapshotChain \<Rightarrow> 'w \<Rightarrow> (ForensicError + Result) \<times> 'w" where
  "stop_at_max_duration env chain w =
     (case (if fcPostSnapshotAction (fcSpec chain) = PostSnapshotActionDeletePod
            then getMatchingPods (fePods env) (fcNamespace (fcSpec chain)) (fcSelector (fcSpec chain)) w
            else (Inr [], w)) of
        (Inl err, w1) \<Rightarrow> (Inl (ChainApi err), w1)
      | (Inr pods, w1) \<Rightarrow>
          complete_chain env chain pods (fcSnapshotCount (fcStatus chain)) mutate_max_duration w1)"

definition reconcile_running ::
  "'w ForensicEnv \<Rightarrow> ForensicSnapshotChain \<Rightarrow> 'w \<Rightarrow> (ForensicError + Result) \<times> 'w" where
  "reconcile_running env chain w =
     (let algorithm = fcHashAlgorithm (fcSpec chain)
      in if algorithm \<noteq> [] \<and> algorithm \<noteq> ''sha256'' then
           (let message = ''unsupported hash algorithm: '' @ algorithm
            in ended (updateChainStatus env chain (mutate_bad_algorithm message) w) (Inl (BadAlgorithm message)))
         else
           (let hashingEnabled = (algorithm = ''sha256'')
            in case (MaxDuration (fcCapture (fcSpec chain)), fcStartTime (fcStatus chain)) of
                 (Some maxDuration, Some start) \<Rightarrow>
                   (case feNow env w of
                      (now, w1) \<Rightarrow>
                        if now - start > maxDuration then stop_at_max_duration env chain w1
                        else run_round env chain hashingEnabled w1)
               | _ \<Rightarrow> run_round env chain hashingEnabled w))"

definition Reconcile_chain ::
  "'w ForensicEnv \<Rightarrow> string \<Rightarrow> string \<Rightarrow> 'w \<Rightarrow> (ForensicError + Result) \<times> 'w" where
  "Reconcile_chain env ns name w =
     (case feGet env ns name w of
        (Inl err, w1) \<Rightarrow>
          ((case IgnoreNotFound err of None \<Rightarrow> chain_ok | Some e \<Rightarrow> Inl (ChainApi e)), w1)
      | (Inr chain, w1) \<Rightarrow>
          if chain_phase chain = PhaseCompleted then (chain_ok, w1)
          else if chain_phase chain = PhaseFailed then (chain_ok, w1)
          else if chain_phase chain = [] then
            (case feNow env w1 of
               (now, w2) \<Rightarrow> ended (feUpdateStatus env (to_pending now chain) w2) chain_ok)
          else if chain_phase chain = PhasePending then
            (case feNow env w1 of
               (now, w2) \<Rightarrow> ended (feUpdateStatus env (to_running now chain) w2) chain_ok)
          else if chain_phase chain = PhaseRunning then reconcile_running env chain w1
          else (chain_ok, w1))"

section \<open>The chain as a state machine\<close>

text \<open>The rounds that capturing can lead to: a record per checkpoint, hashed or not.\<close>

inductive round_of :: "ForensicSnapshotChain \<Rightarrow> bool \<Rightarrow> Round \<Rightarrow> bool" for chain hashing where
  start: "round_of chain hashing (round_start chain)"
| unhashed: "round_of chain hashing rd \<Longrightarrow>
    round_of chain hashing (rd\<lparr>roCaptured := roCaptured rd + 1,
      roIntegrityFailed := f, roIntegrityMessage := m,
      roRecords := roRecords rd @ [new_record chain rd pod container now path]\<rparr>)"
| hashed: "round_of chain hashing rd \<Longrightarrow> hashing \<Longrightarrow>
    round_of chain hashing (rd\<lparr>roCaptured := roCaptured rd + 1, roPreviousHash := hash,
      roRecords := roRecords rd @ [(new_record chain rd pod container now path)
        \<lparr>srPreviousSHA256Hash := roPreviousHash rd, srSHA256Hash := hash\<rparr>]\<rparr>)"

definition written_status ::
  "(time \<Rightarrow> ForensicSnapshotChainStatus \<Rightarrow> ForensicSnapshotChainStatus) \<Rightarrow> time \<Rightarrow>
     ForensicSnapshotChain \<Rightarrow> ForensicSnapshotChain" where
  "written_status mutate now c =
     on_status (\<lambda>st. (mutate now st)\<lparr>fcObservedGeneration := fcGeneration c\<rparr>) c"

definition gives_up :: "ForensicSnapshotChain \<Rightarrow> bool" where
  "gives_up c \<longleftrightarrow> MaxDuration (fcCapture (fcSpec c)) = None \<and>
     wrap32 (fcFailureCount (fcStatus c) + 1) \<ge> maxConsecutiveCheckpointFailures"

text \<open>The steps of a chain: what one reconcile can make of the stored object.\<close>

inductive chain_step :: "ForensicSnapshotChain \<Rightarrow> ForensicSnapshotChain \<Rightarrow> bool" where
  pending: "chain_phase c = [] \<Longrightarrow> chain_step c (to_pending now c)"
| running: "chain_phase c = PhasePending \<Longrightarrow> chain_step c (to_running now c)"
| bad_algorithm: "chain_phase c = PhaseRunning \<Longrightarrow> fcHashAlgorithm (fcSpec c) \<notin> {[], ''sha256''} \<Longrightarrow>
    chain_step c (written_status (mutate_bad_algorithm message) now c)"
| expired: "chain_phase c = PhaseRunning \<Longrightarrow> MaxDuration (fcCapture (fcSpec c)) \<noteq> None \<Longrightarrow>
    chain_step c (written_status mutate_max_duration now c)"
| failure: "chain_phase c = PhaseRunning \<Longrightarrow>
    chain_step c (written_status (mutate_failure (gives_up c) message) now c)"
| finished: "chain_phase c = PhaseRunning \<Longrightarrow> round_of c hashing rd \<Longrightarrow>
    round_done c (roCaptured rd) = Some (reason, message) \<Longrightarrow>
    chain_step c (written_status (mutate_done t reason message rd hashing) now c)"
| continued: "chain_phase c = PhaseRunning \<Longrightarrow> round_of c hashing rd \<Longrightarrow>
    round_done c (roCaptured rd) = None \<Longrightarrow>
    chain_step c (written_status (mutate_continue t rd hashing) now c)"

inductive_cases chain_stepE: "chain_step c c'"

text \<open>A chain as it is created, with an empty status, and what it can become.\<close>

definition fresh_chain :: "ForensicSnapshotChain \<Rightarrow> bool" where
  "fresh_chain c \<longleftrightarrow> chain_phase c = [] \<and> fcSnapshotCount (fcStatus c) = 0 \<and> fcAttemptCount (fcStatus c) = 0 \<and>
     fcFailureCount (fcStatus c) = 0 \<and> fcRecords (fcStatus c) = []"

inductive chain_reachable :: "ForensicSnapshotChain \<Rightarrow> bool" where
  created: "fresh_chain c \<Longrightarrow> chain_reachable c"
| step: "chain_reachable c \<Longrightarrow> chain_step c c' \<Longrightarrow> chain_reachable c'"

section \<open>Lemmas\<close>

lemma phase_names [simp]:
  "[] \<noteq> PhasePending" "[] \<noteq> PhaseRunning" "[] \<noteq> PhaseCompleted" "[] \<noteq> PhaseFailed"
  "PhasePending \<noteq> []" "PhaseRunning \<noteq> []" "PhaseCompleted \<noteq> []" "PhaseFailed \<noteq> []"
  "PhasePending \<noteq> PhaseRunning" "PhaseRunning \<noteq> PhasePending" "PhaseCompleted \<noteq> PhaseRunning"
  "PhaseRunning \<noteq> PhaseCompleted" "PhaseFailed \<noteq> PhaseRunning" "PhaseRunning \<noteq> PhaseFailed"
  "PhaseCompleted \<noteq> PhaseFailed" "PhaseFailed \<noteq> PhaseCompleted" "PhasePending \<noteq> PhaseCompleted"
  "PhaseCompleted \<noteq> PhasePending" "PhasePending \<noteq> PhaseFailed" "PhaseFailed \<noteq> PhasePending"
  by (simp_all add: PhasePending_def PhaseRunning_def PhaseCompleted_def PhaseFailed_def)

lemma set_condition_fields [simp]:
  "fcPhase (set_condition now t s r m st) = fcPhase st"
  "fcSnapshotCount (set_condition now t s r m st) = fcSnapshotCount st"
  "fcAttemptCount (set_condition now t s r m st) = fcAttemptCount st"
  "fcFailureCount (set_condition now t s r m st) = fcFailureCount st"
  "fcRecords (set_condition now t s r m st) = fcRecords st"
  "fcErrorMessage (set_condition now t s r m st) = fcErrorMessage st"
  by (simp_all add: set_condition_def)

lemma append_fields [simp]:
  "fcPhase (appendRoundRecords now rd h st) = fcPhase st"
  "fcSnapshotCount (appendRoundRecords now rd h st) = fcSnapshotCount st"
  "fcAttemptCount (appendRoundRecords now rd h st) = fcAttemptCount st"
  "fcFailureCount (appendRoundRecords now rd h st) = fcFailureCount st"
  "fcRecords (appendRoundRecords now rd h st) = fcRecords st @ roRecords rd"
  by (simp_all add: appendRoundRecords_def Let_def)

lemma written_status_fields [simp]:
  "fcSpec (written_status m now c) = fcSpec c" "fcGeneration (written_status m now c) = fcGeneration c"
  "fcPhase (fcStatus (written_status m now c)) = fcPhase (m now (fcStatus c))"
  "fcSnapshotCount (fcStatus (written_status m now c)) = fcSnapshotCount (m now (fcStatus c))"
  "fcAttemptCount (fcStatus (written_status m now c)) = fcAttemptCount (m now (fcStatus c))"
  "fcFailureCount (fcStatus (written_status m now c)) = fcFailureCount (m now (fcStatus c))"
  "fcRecords (fcStatus (written_status m now c)) = fcRecords (m now (fcStatus c))"
  by (simp_all add: written_status_def)

lemma mutate_fields [simp]:
  "fcPhase (mutate_bad_algorithm m now st) = PhaseFailed"
  "fcRecords (mutate_bad_algorithm m now st) = fcRecords st"
  "fcSnapshotCount (mutate_bad_algorithm m now st) = fcSnapshotCount st"
  "fcAttemptCount (mutate_bad_algorithm m now st) = fcAttemptCount st"
  "fcFailureCount (mutate_bad_algorithm m now st) = fcFailureCount st"
  "fcPhase (mutate_max_duration now st) = PhaseCompleted"
  "fcRecords (mutate_max_duration now st) = fcRecords st"
  "fcSnapshotCount (mutate_max_duration now st) = fcSnapshotCount st"
  "fcAttemptCount (mutate_max_duration now st) = fcAttemptCount st"
  "fcFailureCount (mutate_max_duration now st) = fcFailureCount st"
  "fcPhase (mutate_failure g m now st) = (if g then PhaseFailed else fcPhase st)"
  "fcRecords (mutate_failure g m now st) = fcRecords st"
  "fcSnapshotCount (mutate_failure g m now st) = fcSnapshotCount st"
  "fcAttemptCount (mutate_failure g m now st) = fcAttemptCount st"
  "fcFailureCount (mutate_failure g m now st) = wrap32 (fcFailureCount st + 1)"
  "fcPhase (mutate_done t r m rd h now st) = PhaseCompleted"
  "fcRecords (mutate_done t r m rd h now st) = fcRecords st @ roRecords rd"
  "fcSnapshotCount (mutate_done t r m rd h now st) =
     (if roCaptured rd > 0 then wrap32 (fcSnapshotCount st + 1) else fcSnapshotCount st)"
  "fcAttemptCount (mutate_done t r m rd h now st) = wrap32 (fcAttemptCount st + 1)"
  "fcFailureCount (mutate_done t r m rd h now st) = 0"
  "fcPhase (mutate_continue t rd h now st) = fcPhase st"
  "fcRecords (mutate_continue t rd h now st) = fcRecords st @ roRecords rd"
  "fcSnapshotCount (mutate_continue t rd h now st) =
     (if roCaptured rd > 0 then wrap32 (fcSnapshotCount st + 1) else fcSnapshotCount st)"
  "fcAttemptCount (mutate_continue t rd h now st) = wrap32 (fcAttemptCount st + 1)"
  "fcFailureCount (mutate_continue t rd h now st) = 0"
  by (simp_all add: mutate_bad_algorithm_def mutate_max_duration_def mutate_failure_def mutate_done_def
      mutate_continue_def Let_def)

lemma start_fields [simp]:
  "fcSpec (to_pending now c) = fcSpec c" "fcSpec (to_running now c) = fcSpec c"
  "chain_phase (to_pending now c) = PhasePending" "chain_phase (to_running now c) = PhaseRunning"
  "fcRecords (fcStatus (to_pending now c)) = fcRecords (fcStatus c)"
  "fcRecords (fcStatus (to_running now c)) = fcRecords (fcStatus c)"
  "fcSnapshotCount (fcStatus (to_pending now c)) = fcSnapshotCount (fcStatus c)"
  "fcSnapshotCount (fcStatus (to_running now c)) = fcSnapshotCount (fcStatus c)"
  "fcAttemptCount (fcStatus (to_pending now c)) = fcAttemptCount (fcStatus c)"
  "fcAttemptCount (fcStatus (to_running now c)) = fcAttemptCount (fcStatus c)"
  "fcFailureCount (fcStatus (to_pending now c)) = fcFailureCount (fcStatus c)"
  "fcFailureCount (fcStatus (to_running now c)) = fcFailureCount (fcStatus c)"
  by (simp_all add: to_pending_def to_running_def)

lemma chain_step_spec: "chain_step c c' \<Longrightarrow> fcSpec c' = fcSpec c"
  by (cases rule: chain_step.cases) auto

subsection \<open>Records\<close>

text \<open>Each record carries its position.\<close>

definition indexed :: "SnapshotChainRecord list \<Rightarrow> bool" where
  "indexed rs \<longleftrightarrow> (\<forall>i<length rs. srIndex (rs ! i) = wrap32 (int i))"

text \<open>
  A hashed record refers to the hash of the record before it, if that one is hashed; the first
  refers to none.
\<close>

definition hash_linked :: "SnapshotChainRecord list \<Rightarrow> bool" where
  "hash_linked rs \<longleftrightarrow>
     (\<forall>i<length rs. srSHA256Hash (rs ! i) \<noteq> [] \<longrightarrow>
        (if i = 0 then srPreviousSHA256Hash (rs ! i) = []
         else srSHA256Hash (rs ! (i - 1)) \<noteq> [] \<longrightarrow>
                srPreviousSHA256Hash (rs ! i) = srSHA256Hash (rs ! (i - 1))))"

lemma indexed_snoc: "indexed (rs @ [r]) \<longleftrightarrow> indexed rs \<and> srIndex r = wrap32 (int (length rs))"
  by (auto simp: indexed_def nth_append less_Suc_eq)

lemma hash_linked_snoc:
  "hash_linked (rs @ [r]) \<longleftrightarrow> hash_linked rs \<and>
     (srSHA256Hash r \<noteq> [] \<longrightarrow>
        (if rs = [] then srPreviousSHA256Hash r = []
         else srSHA256Hash (last rs) \<noteq> [] \<longrightarrow> srPreviousSHA256Hash r = srSHA256Hash (last rs)))"
proof (cases "rs = []")
  case True
  then show ?thesis by (auto simp: hash_linked_def)
next
  case False
  then have "(rs @ [r]) ! (length rs - 1) = last rs" by (simp add: nth_append last_conv_nth)
  moreover have "(rs @ [r]) ! (i - 1) = rs ! (i - 1)" if "i < length rs" for i
    using that by (simp add: nth_append)
  ultimately show ?thesis using False
    by (auto simp: hash_linked_def nth_append less_Suc_eq)
qed

text \<open>The hash a round links to is that of the last record, when that one is hashed.\<close>

definition links_to_last :: "SnapshotChainRecord list \<Rightarrow> string \<Rightarrow> bool" where
  "links_to_last rs h \<longleftrightarrow>
     (if rs = [] then h = [] else srSHA256Hash (last rs) \<noteq> [] \<longrightarrow> h = srSHA256Hash (last rs))"

lemma round_of_records:
  assumes "round_of c hashing rd" "indexed (fcRecords (fcStatus c))" "hash_linked (fcRecords (fcStatus c))"
  shows "roCaptured rd = int (length (roRecords rd)) \<and>
    indexed (fcRecords (fcStatus c) @ roRecords rd) \<and> hash_linked (fcRecords (fcStatus c) @ roRecords rd) \<and>
    links_to_last (fcRecords (fcStatus c) @ roRecords rd) (roPreviousHash rd)"
  using assms(1)
proof induction
  case start
  then show ?case using assms(2,3) by (simp add: round_start_def links_to_last_def Let_def)
next
  case (unhashed rd pod container now path m f)
  let ?rs = "fcRecords (fcStatus c) @ roRecords rd" and ?r = "new_record c rd pod container now path"
  have "indexed (?rs @ [?r])" "hash_linked (?rs @ [?r])"
    using unhashed.IH by (simp_all add: indexed_snoc hash_linked_snoc new_record_def del: append_assoc)
  then show ?case using unhashed.IH by (simp add: links_to_last_def new_record_def)
next
  case (hashed rd hash pod container now path)
  let ?rs = "fcRecords (fcStatus c) @ roRecords rd"
  let ?r = "(new_record c rd pod container now path)
    \<lparr>srPreviousSHA256Hash := roPreviousHash rd, srSHA256Hash := hash\<rparr>"
  have "indexed (?rs @ [?r])" "hash_linked (?rs @ [?r])"
    using hashed.IH
    by (auto simp: indexed_snoc hash_linked_snoc new_record_def links_to_last_def simp del: append_assoc)
  then show ?case using hashed.IH by (simp add: links_to_last_def)
qed

lemma capture_round_round_of:
  assumes "capture_round env c hashing targets rd w = (Inr rd', w')" "round_of c hashing rd"
  shows "round_of c hashing rd'"
  using assms
proof (induction targets arbitrary: rd w)
  case (Cons t targets)
  obtain pod container where t: "t = (pod, container)" by fastforce
  obtain p w1 where p: "feCheckpoint env (fcNamespace (fcSpec c)) (podName pod) (ctName container)
      (podNodeName pod) w = (Inr p, w1)"
    using Cons.prems(1) t by (auto split: prod.splits sum.splits)
  obtain now w2 where n: "feNow env w1 = (now, w2)" by fastforce
  obtain h w3 where h: "feChecksum env (fcNamespace (fcSpec c)) (podNodeName pod) p w2 = (h, w3)" by fastforce
  show ?case
  proof (cases hashing)
    case False
    then show ?thesis
      using Cons.prems(1) Cons.IH t p n
        round_of.unhashed [OF Cons.prems(2), of pod container now p "roIntegrityMessage rd" "roIntegrityFailed rd"]
      by (simp add: Let_def)
  next
    case True
    then show ?thesis
      using Cons.prems(1) Cons.IH t p n h
        round_of.unhashed [OF Cons.prems(2), of pod container now p _ True]
        round_of.hashed [OF Cons.prems(2) True, of _ pod container now p]
      by (cases h) (simp_all add: Let_def)
  qed
qed simp

lemma chain_step_records:
  assumes "chain_step c c'" "indexed (fcRecords (fcStatus c))" "hash_linked (fcRecords (fcStatus c))"
  shows "indexed (fcRecords (fcStatus c'))" "hash_linked (fcRecords (fcStatus c'))"
    "\<exists>rs. fcRecords (fcStatus c') = fcRecords (fcStatus c) @ rs"
  using assms by (cases; auto dest: round_of_records)+

subsection \<open>Counters and termination\<close>

lemma wrap32_id: "- (2 ^ 31) \<le> x \<Longrightarrow> x < 2 ^ 31 \<Longrightarrow> wrap32 x = x"
  by (simp add: wrap32_def)

definition terminal :: "ForensicSnapshotChain \<Rightarrow> bool" where
  "terminal c \<longleftrightarrow> chain_phase c \<in> {PhaseCompleted, PhaseFailed}"

lemma terminal_no_step: "terminal c \<Longrightarrow> \<not> chain_step c c'"
  by (auto simp: terminal_def elim!: chain_stepE)

lemma round_of_captured: "round_of c h rd \<Longrightarrow> roCaptured rd \<ge> 0"
  by (induction rule: round_of.induct) (simp_all add: round_start_def)

text \<open>The snapshot count stays within its limit, and below it while the chain is active.\<close>

lemma snapshot_count_inv:
  assumes "chain_reachable c" "MaxSnapshots (fcCapture (fcSpec c)) = Some limit" "1 \<le> limit" "limit < 2 ^ 31"
  shows "0 \<le> fcSnapshotCount (fcStatus c) \<and> fcSnapshotCount (fcStatus c) \<le> limit \<and>
    (\<not> terminal c \<longrightarrow> fcSnapshotCount (fcStatus c) < limit)"
  using assms
proof (induction rule: chain_reachable.induct)
  case (created c)
  then show ?case by (simp add: fresh_chain_def)
next
  case (step c c')
  note spec = chain_step_spec [OF step.hyps(2)]
  have nt: "\<not> terminal c" using step.hyps(2) terminal_no_step by blast
  have IH: "0 \<le> fcSnapshotCount (fcStatus c)" "fcSnapshotCount (fcStatus c) < limit"
    using step.IH step.prems spec nt by auto
  have w: "wrap32 (fcSnapshotCount (fcStatus c) + 1) = fcSnapshotCount (fcStatus c) + 1"
    using IH step.prems(3) by (intro wrap32_id) auto
  from step.hyps(2) show ?case
  proof cases
    case (continued hashing rd t now)
    then show ?thesis using IH w step.prems(1) spec
      by (auto simp: round_done_def Let_def split: if_splits)
  next
    case (finished hashing rd reason message t now)
    then show ?thesis using IH w by (auto simp: terminal_def)
  qed (use IH in \<open>auto simp: terminal_def\<close>)
qed

text \<open>Without a time limit: attempts and failures of an active chain.\<close>

lemma attempt_count_inv:
  assumes "chain_reachable c" "MaxSnapshots (fcCapture (fcSpec c)) = Some limit" "1 \<le> limit" "limit < 2 ^ 30"
    "MaxDuration (fcCapture (fcSpec c)) = None" "\<not> terminal c"
  shows "0 \<le> fcAttemptCount (fcStatus c) \<and> fcAttemptCount (fcStatus c) \<le> limit + fcSnapshotCount (fcStatus c) \<and>
    0 \<le> fcFailureCount (fcStatus c) \<and> fcFailureCount (fcStatus c) \<le> 4"
  using assms
proof (induction rule: chain_reachable.induct)
  case (created c)
  then show ?case by (simp add: fresh_chain_def)
next
  case (step c c')
  note spec = chain_step_spec [OF step.hyps(2)]
  have nt: "\<not> terminal c" using step.hyps(2) terminal_no_step by blast
  have lim: "limit < 2 ^ 31" using step.prems(3) by simp
  have sc: "0 \<le> fcSnapshotCount (fcStatus c)" "fcSnapshotCount (fcStatus c) < limit"
    using snapshot_count_inv [OF step.hyps(1) _ step.prems(2) lim] step.prems(1) spec nt by auto
  have IH: "0 \<le> fcAttemptCount (fcStatus c)" "fcAttemptCount (fcStatus c) \<le> limit + fcSnapshotCount (fcStatus c)"
    "0 \<le> fcFailureCount (fcStatus c)" "fcFailureCount (fcStatus c) \<le> 4"
    using step.IH step.prems spec nt by auto
  have w: "wrap32 (fcSnapshotCount (fcStatus c) + 1) = fcSnapshotCount (fcStatus c) + 1"
    "wrap32 (fcAttemptCount (fcStatus c) + 1) = fcAttemptCount (fcStatus c) + 1"
    "wrap32 (fcFailureCount (fcStatus c) + 1) = fcFailureCount (fcStatus c) + 1"
    using IH sc step.prems(3) by (auto intro!: wrap32_id)
  from step.hyps(2) show ?case
  proof cases
    case (continued hashing rd t now)
    then show ?thesis using IH sc w step.prems(1,4) spec round_of_captured [OF continued(3)]
      by (auto simp: round_done_def Let_def split: if_splits)
  next
    case (failure message now)
    then show ?thesis using IH w step.prems(4,5) spec
      by (auto simp: gives_up_def maxConsecutiveCheckpointFailures_def terminal_def split: if_splits)
  qed (use IH step.prems(5) in \<open>auto simp: terminal_def\<close>)
qed

definition chain_potential :: "int \<Rightarrow> ForensicSnapshotChain \<Rightarrow> int" where
  "chain_potential limit c =
     (if terminal c then 0
      else 6 * ((limit - min limit (fcAttemptCount (fcStatus c))) + (limit - fcSnapshotCount (fcStatus c)))
        + (5 - fcFailureCount (fcStatus c))
        + (if chain_phase c = [] then 3 else if chain_phase c = PhasePending then 2 else 1))"

lemma chain_potential_decreases:
  assumes "chain_reachable c" "MaxSnapshots (fcCapture (fcSpec c)) = Some limit" "1 \<le> limit" "limit < 2 ^ 30"
    "MaxDuration (fcCapture (fcSpec c)) = None" "chain_step c c'"
  shows "0 \<le> chain_potential limit c' \<and> chain_potential limit c' < chain_potential limit c"
proof -
  note spec = chain_step_spec [OF assms(6)]
  have nt: "\<not> terminal c" using assms(6) terminal_no_step by blast
  have lim: "limit < 2 ^ 31" using assms(4) by simp
  have r': "chain_reachable c'" using assms(1,6) chain_reachable.step by blast
  have sc: "0 \<le> fcSnapshotCount (fcStatus c)" "fcSnapshotCount (fcStatus c) < limit"
    using snapshot_count_inv [OF assms(1,2,3) lim] nt by auto
  note ac = attempt_count_inv [OF assms(1-5) nt]
  have w: "wrap32 (fcSnapshotCount (fcStatus c) + 1) = fcSnapshotCount (fcStatus c) + 1"
    "wrap32 (fcAttemptCount (fcStatus c) + 1) = fcAttemptCount (fcStatus c) + 1"
    "wrap32 (fcFailureCount (fcStatus c) + 1) = fcFailureCount (fcStatus c) + 1"
    using ac sc assms(4) by (auto intro!: wrap32_id)
  have nn: "0 \<le> chain_potential limit d" if "d = c \<or> d = c'" for d
  proof (cases "terminal d")
    case False
    have d: "chain_reachable d" "fcSpec d = fcSpec c" using that assms(1) r' spec by auto
    have "fcSnapshotCount (fcStatus d) < limit" using snapshot_count_inv [OF d(1) _ assms(3) lim] d(2) assms(2) False by simp
    moreover have "fcFailureCount (fcStatus d) \<le> 4"
      using attempt_count_inv [OF d(1) _ assms(3,4) _ False] d(2) assms(2,5) by simp
    ultimately show ?thesis using False by (simp add: chain_potential_def)
  qed (simp add: chain_potential_def)
  have pos: "0 < chain_potential limit c" using nt sc ac by (auto simp: chain_potential_def min_def)
  from assms(6) show ?thesis
  proof cases
    case (pending now)
    then show ?thesis using nn [of c'] nt by (auto simp: chain_potential_def terminal_def)
  next
    case (running now)
    then show ?thesis using nn [of c'] nt by (auto simp: chain_potential_def terminal_def)
  next
    case (failure message now)
    show ?thesis
    proof (cases "terminal c'")
      case True
      then show ?thesis using pos by (simp add: chain_potential_def)
    next
      case False
      then show ?thesis using failure nn [of c'] nt w
        by (auto simp: chain_potential_def terminal_def)
    qed
  next
    case (continued hashing rd t now)
    have "roCaptured rd \<ge> 0" using round_of_captured [OF continued(3)] .
    then show ?thesis using continued nn [of c'] nt w ac sc assms(2,5)
      by (auto simp: chain_potential_def terminal_def round_done_def Let_def min_def split: if_splits)
  qed (use pos in \<open>auto simp: chain_potential_def terminal_def\<close>)
qed


subsection \<open>The API server\<close>

text \<open>
  What the reconciler relies on of the API server: a read answers with the stored object or
  an error, a status update has the outcomes of a write, and no other call of the reconciler
  changes the chain. The reconciler is the only writer of the status.
\<close>

locale chain_store =
  fixes env :: "'w ForensicEnv" and stored :: "'w \<Rightarrow> ForensicSnapshotChain option" and ns name :: string
  assumes get_stored: "feGet env ns name w = (r, w') \<Longrightarrow> stored w' = stored w"
    and get_result: "feGet env ns name w = (Inr c, w') \<Longrightarrow> stored w = Some c"
    and get_missing: "feGet env ns name w = (Inl err, w') \<Longrightarrow> IsNotFound err \<Longrightarrow> stored w = None"
    and stored_key: "stored w = Some c \<Longrightarrow> fcObjectNamespace c = ns \<and> fcName c = name"
    and update_stored: "feUpdateStatus env d w = (e, w') \<Longrightarrow> stored w = Some c \<Longrightarrow>
      fcObjectNamespace d = ns \<Longrightarrow> fcName d = name \<Longrightarrow> write_outcome e c (c\<lparr>fcStatus := fcStatus d\<rparr>) (stored w')"
    and now_stored: "stored (snd (feNow env w)) = stored w"
    and list_stored: "stored (snd (plList (fePods env) a b w)) = stored w"
    and checkpoint_stored: "stored (snd (feCheckpoint env a1 a2 a3 a4 w)) = stored w"
    and checksum_stored: "stored (snd (feChecksum env b1 b2 b3 w)) = stored w"
    and delete_stored: "stored (snd (feDelete env pod w)) = stored w"
begin

lemma now_eq: "feNow env w = (now, w') \<Longrightarrow> stored w' = stored w"
  using now_stored [of w] by simp

lemma pods_eq: "getMatchingPods (fePods env) a b w = (r, w') \<Longrightarrow> stored w' = stored w"
  using list_stored [of a b w] by (auto simp: getMatchingPods_def split: option.splits sum.splits prod.splits)

lemma delete_pods_eq: "stored (snd (delete_pods env pods w)) = stored w"
proof (induction pods arbitrary: w)
  case (Cons pod pods)
  then show ?case using delete_stored [of pod w] by (auto split: prod.splits option.splits)
qed simp

lemma capture_eq: "capture_round env c h targets rd w = (r, w') \<Longrightarrow> stored w' = stored w"
proof (induction targets arbitrary: rd w)
  case (Cons t targets)
  obtain pod container where t: "t = (pod, container)" by fastforce
  obtain p w1 where p: "feCheckpoint env (fcNamespace (fcSpec c)) (podName pod) (ctName container)
      (podNodeName pod) w = (p, w1)" by fastforce
  obtain now w2 where n: "feNow env w1 = (now, w2)" by fastforce
  have s: "stored w1 = stored w" "stored w2 = stored w"
    using checkpoint_stored [of "fcNamespace (fcSpec c)" "podName pod" "ctName container" "podNodeName pod" w]
      now_eq [OF n] p by auto
  show ?case
  proof (cases p)
    case (Inr path)
    obtain x w3 where x: "feChecksum env (fcNamespace (fcSpec c)) (podNodeName pod) path w2 = (x, w3)" by fastforce
    have "stored w3 = stored w" using checksum_stored [of "fcNamespace (fcSpec c)" "podNodeName pod" path w2] x s by simp
    then show ?thesis using Cons t p n x Inr s
      by (cases h; cases x) (auto simp: Let_def)
  qed (use Cons.prems t p s in auto)
qed simp

lemma update_status:
  assumes "stored w = Some c" "updateChainStatus env c m w = (e, w')"
  shows "\<exists>now. write_outcome e c (written_status m now c) (stored w')"
proof -
  define fn where "fn = (\<lambda>w. case feGet env (fcObjectNamespace c) (fcName c) w of
          (Inl err, w1) \<Rightarrow> (Some err, w1)
        | (Inr latest, w1) \<Rightarrow>
            (case feNow env w1 of
               (now, w2) \<Rightarrow>
                 feUpdateStatus env
                   (on_status (\<lambda>st. (m now st)\<lparr>fcObservedGeneration := fcGeneration latest\<rparr>) latest) w2))"
  have key: "fcObjectNamespace c = ns" "fcName c = name" using stored_key [OF assms(1)] by auto
  have one: "\<exists>now. write_outcome e2 c (written_status m now c) (stored w2)"
    if s: "stored w1 = Some c" "fn w1 = (e2, w2)" for w1 e2 w2
  proof -
    obtain r w3 where g: "feGet env ns name w1 = (r, w3)" by fastforce
    have s3: "stored w3 = Some c" using get_stored [OF g] s(1) by simp
    show ?thesis
    proof (cases r)
      case (Inl err)
      then show ?thesis using s(2) g s3 key by (auto simp: fn_def write_outcome_def)
    next
      case (Inr latest)
      have l: "latest = c" using get_result g Inr s(1) by fastforce
      obtain now w4 where n: "feNow env w3 = (now, w4)" by fastforce
      have "stored w4 = Some c" using now_eq [OF n] s3 by simp
      from update_stored [OF _ this, of "on_status (\<lambda>st. (m now st)\<lparr>fcObservedGeneration := fcGeneration c\<rparr>) c" e2 w2]
      show ?thesis using s(2) g Inr l n key by (simp add: fn_def written_status_def) blast
    qed
  qed
  have r: "RetryOnConflict (Suc 4) fn w = (e, w')"
    using assms(2) by (simp add: updateChainStatus_def DefaultRetry_steps_def fn_def numeral_eq_Suc)
  show ?thesis
    by (rule RetryOnConflict_outcome [where I = "\<lambda>w. stored w = Some c", OF r assms(1)])
       (use one in \<open>fastforce simp: write_outcome_def\<close>)
qed

end


text \<open>One reconcile and the stored chain: a step of the machine, or no change for a reason.\<close>

definition reconcile_outcome ::
  "ForensicSnapshotChain \<Rightarrow> ForensicError + Result \<Rightarrow> ForensicSnapshotChain option \<Rightarrow> bool" where
  "reconcile_outcome c r stored' \<longleftrightarrow>
     (\<exists>c'. stored' = Some c' \<and> chain_step c c') \<or>
     (stored' = Some c \<and>
        ((\<exists>e. r = Inl (ChainApi e)) \<or> (\<exists>d>0. r = Inr (requeue_after d)) \<or>
         chain_phase c \<notin> {[], PhasePending, PhaseRunning}))"

lemma reconcile_outcomeI:
  "chain_step c c' \<Longrightarrow> reconcile_outcome c r (Some c')"
  "reconcile_outcome c (Inl (ChainApi e)) (Some c)"
  "0 < d \<Longrightarrow> reconcile_outcome c (Inr (requeue_after d)) (Some c)"
  by (auto simp: reconcile_outcome_def)

context chain_store
begin

lemma ended_outcome:
  assumes "stored w = Some c" "ended (updateChainStatus env c m w) r0 = (r, w')"
    "\<And>now. chain_step c (written_status m now c)"
  shows "reconcile_outcome c r (stored w')"
proof -
  obtain e w1 where u: "updateChainStatus env c m w = (e, w1)" by fastforce
  obtain now where "write_outcome e c (written_status m now c) (stored w1)"
    using update_status [OF assms(1) u] by blast
  then show ?thesis using assms(2,3) u
    by (cases e) (auto simp: ended_def reconcile_outcomeI write_outcome_def split: if_splits)
qed

lemma complete_outcome:
  assumes "stored w = Some c" "complete_chain env c pods n m w = (r, w')"
    "\<And>now. chain_step c (written_status m now c)"
  shows "reconcile_outcome c r (stored w')"
proof -
  obtain e w1 where u: "updateChainStatus env c m w = (e, w1)" by fastforce
  obtain now where s: "write_outcome e c (written_status m now c) (stored w1)"
    using update_status [OF assms(1) u] by blast
  have "stored (snd (executePostSnapshotAction env c pods n w1)) = stored w1"
    by (simp add: executePostSnapshotAction_def delete_pods_eq)
  then show ?thesis using assms(2,3) u s
    by (cases e) (auto simp: complete_chain_def reconcile_outcomeI write_outcome_def split: if_splits)
qed

lemma capture_outcome:
  assumes "stored w = Some c" "chain_phase c = PhaseRunning" "capture_and_record env c h pods w = (r, w')"
  shows "reconcile_outcome c r (stored w')"
proof -
  obtain x w1 where x: "capture_round env c h (round_targets c pods) (round_start c) w = (x, w1)" by fastforce
  have s1: "stored w1 = Some c" using capture_eq [OF x] assms(1) by simp
  show ?thesis
  proof (cases x)
    case (Inl err)
    then show ?thesis
      using assms(3) x ended_outcome [OF s1, of "mutate_failure (gives_up c) (error_text err)"]
        chain_step.failure [OF assms(2)]
      by (simp add: capture_and_record_def Let_def gives_up_def)
  next
    case (Inr rd)
    have rd: "round_of c h rd" using capture_round_round_of [OF _ round_of.start] x Inr by simp
    obtain now w2 where n: "feNow env w1 = (now, w2)" by fastforce
    have s2: "stored w2 = Some c" using now_eq [OF n] s1 by simp
    show ?thesis
    proof (cases "round_done c (roCaptured rd)")
      case None
      then show ?thesis
        using assms(3) x Inr n ended_outcome [OF s2, of "mutate_continue now rd h"]
          chain_step.continued [OF assms(2) rd]
        by (simp add: capture_and_record_def)
    next
      case (Some rm)
      then obtain reason message where "rm = (reason, message)" by fastforce
      with Some show ?thesis
        using assms(3) x Inr n complete_outcome [OF s2, of pods _ "mutate_done now reason message rd h"]
          chain_step.finished [OF assms(2) rd]
        by (simp add: capture_and_record_def)
    qed
  qed
qed

lemma run_round_outcome:
  assumes "stored w = Some c" "chain_phase c = PhaseRunning" "run_round env c h w = (r, w')"
  shows "reconcile_outcome c r (stored w')"
proof -
  have rest: "reconcile_outcome c r (stored w')"
    if "stored w1 = Some c" "(case getMatchingPods (fePods env) (fcNamespace (fcSpec c)) (fcSelector (fcSpec c)) w1 of
        (Inl err, w2) \<Rightarrow> (Inl (ChainApi err), w2)
      | (Inr pods, w2) \<Rightarrow> capture_and_record env c h pods w2) = (r, w')" for w1
  proof -
    obtain p w2 where p: "getMatchingPods (fePods env) (fcNamespace (fcSpec c)) (fcSelector (fcSpec c)) w1 = (p, w2)"
      by fastforce
    have "stored w2 = Some c" using pods_eq [OF p] that(1) by simp
    then show ?thesis using that(2) p capture_outcome [OF _ assms(2)]
      by (cases p) (auto simp: reconcile_outcomeI)
  qed
  show ?thesis
  proof (cases "fcLastSnapshotTime (fcStatus c)")
    case None
    then show ?thesis using assms(1,3) rest [of w] by (simp add: run_round_def)
  next
    case (Some t)
    obtain now w1 where n: "feNow env w = (now, w1)" by fastforce
    have "stored w1 = Some c" using now_eq [OF n] assms(1) by simp
    then show ?thesis using assms(3) rest [of w1] Some n
      by (cases "now < t + captureInterval c") (auto simp: run_round_def Let_def reconcile_outcomeI)
  qed
qed

lemma stop_outcome:
  assumes "stored w = Some c" "chain_phase c = PhaseRunning" "MaxDuration (fcCapture (fcSpec c)) \<noteq> None"
    "stop_at_max_duration env c w = (r, w')"
  shows "reconcile_outcome c r (stored w')"
proof -
  obtain p w1 where p: "(if fcPostSnapshotAction (fcSpec c) = PostSnapshotActionDeletePod
            then getMatchingPods (fePods env) (fcNamespace (fcSpec c)) (fcSelector (fcSpec c)) w
            else (Inr [], w)) = (p, w1)" by fastforce
  have "stored w1 = Some c"
    using p assms(1) pods_eq [of "fcNamespace (fcSpec c)" "fcSelector (fcSpec c)" w p w1] by (auto split: if_splits)
  then show ?thesis
    using assms(4) p complete_outcome [of w1 c _ _ mutate_max_duration] chain_step.expired [OF assms(2,3)]
    unfolding stop_at_max_duration_def p by (cases p) (auto simp: reconcile_outcomeI)
qed

lemma running_outcome:
  assumes "stored w = Some c" "chain_phase c = PhaseRunning" "reconcile_running env c w = (r, w')"
  shows "reconcile_outcome c r (stored w')"
proof (cases "fcHashAlgorithm (fcSpec c) \<notin> {[], ''sha256''}")
  case True
  then show ?thesis
    using assms(3) ended_outcome [OF assms(1)] chain_step.bad_algorithm [OF assms(2) True]
    by (auto simp: reconcile_running_def Let_def)
next
  case False
  let ?h = "fcHashAlgorithm (fcSpec c) = ''sha256''"
  show ?thesis
  proof (cases "\<exists>d t. MaxDuration (fcCapture (fcSpec c)) = Some d \<and> fcStartTime (fcStatus c) = Some t")
    case True
    then obtain d t where dt: "MaxDuration (fcCapture (fcSpec c)) = Some d" "fcStartTime (fcStatus c) = Some t" by blast
    obtain now w1 where n: "feNow env w = (now, w1)" by fastforce
    have "stored w1 = Some c" using now_eq [OF n] assms(1) by simp
    then show ?thesis
      using assms(3) False dt n stop_outcome [OF _ assms(2)] run_round_outcome [OF _ assms(2)]
      by (auto simp: reconcile_running_def Let_def split: if_splits)
  next
    case no: False
    then have "reconcile_running env c w = run_round env c ?h w"
      using False by (auto simp: reconcile_running_def Let_def split: option.splits)
    then show ?thesis using assms(3) run_round_outcome [OF assms(1,2)] by simp
  qed
qed

lemma reconcile_refines:
  assumes "stored w = Some c" "Reconcile_chain env ns name w = (r, w')"
  shows "reconcile_outcome c r (stored w')"
proof -
  obtain x w1 where x: "feGet env ns name w = (x, w1)" by fastforce
  have s1: "stored w1 = Some c" using get_stored [OF x] assms(1) by simp
  show ?thesis
  proof (cases x)
    case (Inl e)
    then have "\<not> IsNotFound e" using get_missing x assms(1) by fastforce
    then show ?thesis using assms(2) x Inl s1
      by (auto simp: Reconcile_chain_def IgnoreNotFound_def reconcile_outcomeI)
  next
    case (Inr d)
    then have d: "d = c" using get_result x assms(1) by fastforce
    have start: "reconcile_outcome c r (stored w')"
      if "(case feNow env w1 of (now, w2) \<Rightarrow> ended (feUpdateStatus env (f now c) w2) chain_ok) = (r, w')"
        "\<And>now. chain_step c (f now c)" "\<And>now. f now c = c\<lparr>fcStatus := fcStatus (f now c)\<rparr>" for f
    proof -
      obtain now w2 where n: "feNow env w1 = (now, w2)" by fastforce
      obtain e w3 where u: "feUpdateStatus env (f now c) w2 = (e, w3)" by fastforce
      have "fcObjectNamespace (f now c) = ns" "fcName (f now c) = name"
        using stored_key [OF s1] arg_cong [OF that(3) [of now], of fcObjectNamespace]
          arg_cong [OF that(3) [of now], of fcName] by simp_all
      then have "write_outcome e c (f now c) (stored w3)"
        using update_stored [OF u] now_eq [OF n] s1 that(3) by metis
      then show ?thesis using that(1,2) n u
        by (cases e) (auto simp: ended_def reconcile_outcomeI write_outcome_def split: if_splits)
    qed
    consider "chain_phase c = []" | "chain_phase c = PhasePending" | "chain_phase c = PhaseRunning"
      | "chain_phase c \<notin> {[], PhasePending, PhaseRunning}" by blast
    then show ?thesis
    proof cases
      case 1
      then show ?thesis using assms(2) x Inr d start [of to_pending] chain_step.pending [OF 1]
        by (simp add: Reconcile_chain_def to_pending_def)
    next
      case 2
      then show ?thesis using assms(2) x Inr d start [of to_running] chain_step.running [OF 2]
        by (simp add: Reconcile_chain_def to_running_def)
    next
      case 3
      then show ?thesis using assms(2) x Inr d running_outcome [OF s1 3]
        by (simp add: Reconcile_chain_def)
    next
      case 4
      then show ?thesis using assms(2) x Inr d s1
        by (auto simp: Reconcile_chain_def reconcile_outcome_def split: if_splits)
    qed
  qed
qed

end

subsection \<open>When pods are deleted\<close>

text \<open>A stored chain for which the post-snapshot action may run.\<close>

definition deletes_pods :: "ForensicSnapshotChain \<Rightarrow> bool" where
  "deletes_pods c \<longleftrightarrow> chain_phase c = PhaseCompleted \<and>
     fcPostSnapshotAction (fcSpec c) = PostSnapshotActionDeletePod \<and> fcSnapshotCount (fcStatus c) \<noteq> 0"

text \<open>
  Replacing the pod deletion in the worlds where the chain is not yet stored as completed
  changes nothing: there it is not called.
\<close>

context chain_store
begin

lemma other_delete:
  "updateChainStatus (env\<lparr>feDelete := del\<rparr>) c m w = updateChainStatus env c m w"
  "capture_round (env\<lparr>feDelete := del\<rparr>) c h targets rd w = capture_round env c h targets rd w"
proof -
  show "updateChainStatus (env\<lparr>feDelete := del\<rparr>) c m w = updateChainStatus env c m w"
    by (simp add: updateChainStatus_def cong: prod.case_cong sum.case_cong)
  show "capture_round (env\<lparr>feDelete := del\<rparr>) c h targets rd w = capture_round env c h targets rd w"
  proof (induction targets arbitrary: rd w)
    case (Cons t targets)
    then show ?case by (cases t) (auto simp: Let_def split: prod.splits sum.splits)
  qed simp
qed

lemma delete_pods_cong:
  assumes "stored w = Some c" "\<And>pod v. stored v = Some c \<Longrightarrow> del pod v = feDelete env pod v"
  shows "delete_pods (env\<lparr>feDelete := del\<rparr>) pods w = delete_pods env pods w"
  using assms(1)
proof (induction pods arbitrary: w)
  case (Cons pod pods)
  obtain e w1 where d: "feDelete env pod w = (e, w1)" by fastforce
  have "stored w1 = Some c" using delete_stored [of pod w] d Cons.prems by simp
  then show ?case using Cons d assms(2) [of w pod] by (simp split: option.splits)
qed simp

lemma complete_other_delete:
  assumes "stored w = Some c" "\<And>pod v d. stored v = Some d \<Longrightarrow> deletes_pods d \<Longrightarrow> del pod v = feDelete env pod v"
    "\<And>now. fcPhase (m now (fcStatus c)) = PhaseCompleted" "\<And>now. fcSnapshotCount (m now (fcStatus c)) = n"
  shows "complete_chain (env\<lparr>feDelete := del\<rparr>) c pods n m w = complete_chain env c pods n m w"
proof -
  obtain e w1 where u: "updateChainStatus env c m w = (e, w1)" by fastforce
  obtain now where s: "write_outcome e c (written_status m now c) (stored w1)"
    using update_status [OF assms(1) u] by blast
  have "delete_pods (env\<lparr>feDelete := del\<rparr>) pods w1 = delete_pods env pods w1"
    if "e = None" "fcPostSnapshotAction (fcSpec c) = PostSnapshotActionDeletePod" "n \<noteq> 0"
  proof (rule delete_pods_cong)
    show "stored w1 = Some (written_status m now c)" using s that by (simp add: write_outcome_def)
    have "deletes_pods (written_status m now c)" using assms(3,4) that by (simp add: deletes_pods_def)
    then show "del pod v = feDelete env pod v" if "stored v = Some (written_status m now c)" for pod v
      using assms(2) that by blast
  qed
  then show ?thesis using u
    by (cases e) (auto simp: complete_chain_def other_delete executePostSnapshotAction_def)
qed

lemma capture_other_delete:
  assumes "stored w = Some c" "\<And>pod v d. stored v = Some d \<Longrightarrow> deletes_pods d \<Longrightarrow> del pod v = feDelete env pod v"
  shows "capture_and_record (env\<lparr>feDelete := del\<rparr>) c h pods w = capture_and_record env c h pods w"
proof -
  obtain x w1 where x: "capture_round env c h (round_targets c pods) (round_start c) w = (x, w1)" by fastforce
  obtain now w2 where n: "feNow env w1 = (now, w2)" by fastforce
  have s2: "stored w2 = Some c" using now_eq [OF n] capture_eq [OF x] assms(1) by simp
  show ?thesis
  proof (cases "\<exists>rd reason message. x = Inr rd \<and> round_done c (roCaptured rd) = Some (reason, message)")
    case True
    then obtain rd reason message where d: "x = Inr rd" "round_done c (roCaptured rd) = Some (reason, message)"
      by blast
    show ?thesis
      using x n d complete_other_delete [OF s2 assms(2), where m = "mutate_done now reason message rd h"]
      by (simp add: capture_and_record_def other_delete)
  next
    case False
    then show ?thesis using x n
      by (cases x) (auto simp: capture_and_record_def other_delete split: option.splits)
  qed
qed

lemma run_round_other_delete:
  assumes "stored w = Some c" "\<And>pod v d. stored v = Some d \<Longrightarrow> deletes_pods d \<Longrightarrow> del pod v = feDelete env pod v"
  shows "run_round (env\<lparr>feDelete := del\<rparr>) c h w = run_round env c h w"
proof -
  have rest: "(case getMatchingPods (fePods env) (fcNamespace (fcSpec c)) (fcSelector (fcSpec c)) w1 of
        (Inl err, w2) \<Rightarrow> (Inl (ChainApi err), w2)
      | (Inr pods, w2) \<Rightarrow> capture_and_record (env\<lparr>feDelete := del\<rparr>) c h pods w2) =
    (case getMatchingPods (fePods env) (fcNamespace (fcSpec c)) (fcSelector (fcSpec c)) w1 of
        (Inl err, w2) \<Rightarrow> (Inl (ChainApi err), w2)
      | (Inr pods, w2) \<Rightarrow> capture_and_record env c h pods w2)" if "stored w1 = Some c" for w1
  proof -
    obtain p w2 where p: "getMatchingPods (fePods env) (fcNamespace (fcSpec c)) (fcSelector (fcSpec c)) w1 = (p, w2)"
      by fastforce
    have "stored w2 = Some c" using pods_eq [OF p] that by simp
    then show ?thesis using p capture_other_delete [OF _ assms(2)] by (cases p) auto
  qed
  show ?thesis
  proof (cases "fcLastSnapshotTime (fcStatus c)")
    case None
    then show ?thesis using assms(1) rest [of w] by (simp add: run_round_def)
  next
    case (Some t)
    obtain now w1 where n: "feNow env w = (now, w1)" by fastforce
    have "stored w1 = Some c" using now_eq [OF n] assms(1) by simp
    then show ?thesis using rest [of w1] Some n by (simp add: run_round_def Let_def)
  qed
qed

lemma stop_other_delete:
  assumes "stored w = Some c" "\<And>pod v d. stored v = Some d \<Longrightarrow> deletes_pods d \<Longrightarrow> del pod v = feDelete env pod v"
  shows "stop_at_max_duration (env\<lparr>feDelete := del\<rparr>) c w = stop_at_max_duration env c w"
proof -
  obtain p w1 where p: "(if fcPostSnapshotAction (fcSpec c) = PostSnapshotActionDeletePod
      then getMatchingPods (fePods env) (fcNamespace (fcSpec c)) (fcSelector (fcSpec c)) w
      else (Inr [], w)) = (p, w1)" by fastforce
  have s: "stored w1 = Some c"
    using p assms(1) pods_eq [of "fcNamespace (fcSpec c)" "fcSelector (fcSpec c)" w p w1]
    by (auto split: if_splits)
  have fe: "fePods (env\<lparr>feDelete := del\<rparr>) = fePods env" by simp
  show ?thesis using complete_other_delete [OF s assms(2), where m = mutate_max_duration]
    unfolding stop_at_max_duration_def fe p by (cases p) simp_all
qed

lemma running_other_delete:
  assumes "stored w = Some c" "\<And>pod v d. stored v = Some d \<Longrightarrow> deletes_pods d \<Longrightarrow> del pod v = feDelete env pod v"
  shows "reconcile_running (env\<lparr>feDelete := del\<rparr>) c w = reconcile_running env c w"
proof -
  obtain now w1 where n: "feNow env w = (now, w1)" by fastforce
  have "stored w1 = Some c" using now_eq [OF n] assms(1) by simp
  then show ?thesis
    using n stop_other_delete [OF _ assms(2)] run_round_other_delete [OF _ assms(2)] assms(1)
    by (simp add: reconcile_running_def Let_def other_delete split: option.splits)
qed

lemma reconcile_other_delete:
  assumes "stored w = Some c"
    "\<And>pod v d. \<not> terminal c \<Longrightarrow> stored v = Some d \<Longrightarrow> deletes_pods d \<Longrightarrow> del pod v = feDelete env pod v"
  shows "Reconcile_chain (env\<lparr>feDelete := del\<rparr>) ns name w = Reconcile_chain env ns name w"
proof -
  obtain x w1 where x: "feGet env ns name w = (x, w1)" by fastforce
  have s1: "stored w1 = Some c" using get_stored [OF x] assms(1) by simp
  have c: "d = c" if "x = Inr d" for d using get_result x assms(1) that by fastforce
  have r: "reconcile_running (env\<lparr>feDelete := del\<rparr>) c w1 = reconcile_running env c w1" if "\<not> terminal c"
    using running_other_delete [OF s1] assms(2) that by blast
  show ?thesis
  proof (cases x)
    case (Inr d)
    then show ?thesis using x c [OF Inr] r
      by (auto simp: Reconcile_chain_def terminal_def)
  qed (use x in \<open>simp add: Reconcile_chain_def\<close>)
qed

end

end
