(* ===== verification/Forensic_Evidence.thy ===== *)
theory Forensic_Evidence
  imports Forensic_Chain
begin

text \<open>
  What a forensic snapshot chain promises, stated over the reconciler
  (\<^verbatim>\<open>internal/controller/forensicsnapshotchain_controller.go\<close>) against any API server that
  meets the laws of \<open>chain_store\<close>. An in-memory server with scripted conflicts and failures
  shows that the laws can be met, and runs the witnesses.
\<close>

section \<open>An in-memory API server\<close>

text \<open>
  The chains of the cluster, a clock that advances by a second with every reading, the pods,
  how many of the next status updates conflict, and the answers of the next checkpoints and
  checksums; an empty script means success.
\<close>

record ForensicWorld =
  fwChains :: "ForensicSnapshotChain list"
  fwClock :: time
  fwPods :: "Pod list"
  fwConflicts :: nat
  fwCheckpoints :: "CheckpointError option list"
  fwChecksums :: "ChecksumError option list"
  fwDeleted :: "string list"

definition mem_stored :: "string \<Rightarrow> string \<Rightarrow> ForensicWorld \<Rightarrow> ForensicSnapshotChain option" where
  "mem_stored ns name w = find (\<lambda>c. fcObjectNamespace c = ns \<and> fcName c = name) (fwChains w)"

definition mem_update :: "ForensicSnapshotChain \<Rightarrow> ForensicWorld \<Rightarrow> ApiError option \<times> ForensicWorld" where
  "mem_update d w =
     (if fwConflicts w > 0 then (Some Conflict, w\<lparr>fwConflicts := fwConflicts w - 1\<rparr>)
      else if mem_stored (fcObjectNamespace d) (fcName d) w = None then (Some NotFound, w)
      else (None, w\<lparr>fwChains := map (\<lambda>c. if fcObjectNamespace c = fcObjectNamespace d \<and> fcName c = fcName d
                                    then c\<lparr>fcStatus := fcStatus d\<rparr> else c) (fwChains w)\<rparr>))"

fun scripted :: "'e option list \<Rightarrow> 'a \<Rightarrow> 'e + 'a" where
  "scripted (Some e # es) x = Inl e"
| "scripted es x = Inr x"

definition mem_env :: "ForensicWorld ForensicEnv" where
  "mem_env =
     \<lparr>feGet = (\<lambda>ns name w. (case mem_stored ns name w of None \<Rightarrow> Inl NotFound | Some c \<Rightarrow> Inr c, w)),
      feUpdateStatus = mem_update,
      feNow = (\<lambda>w. (fwClock w, w\<lparr>fwClock := fwClock w + second\<rparr>)),
      fePods = \<lparr>plSelector = (\<lambda>s. None), plList = (\<lambda>ns s w. (Inr (fwPods w), w))\<rparr>,
      feCheckpoint = (\<lambda>ns pod container node w.
        (scripted (fwCheckpoints w) (''/ckpt/'' @ pod @ ''.tar''), w\<lparr>fwCheckpoints := tl (fwCheckpoints w)\<rparr>)),
      feChecksum = (\<lambda>ns node path w.
        (scripted (fwChecksums w) (''hash of '' @ path), w\<lparr>fwChecksums := tl (fwChecksums w)\<rparr>)),
      feChecksumText = (\<lambda>e. ''checksum failed''),
      feDelete = (\<lambda>pod w. (None, w\<lparr>fwDeleted := podName pod # fwDeleted w\<rparr>))\<rparr>"

interpretation mem: chain_store mem_env "mem_stored ns name" ns name for ns name
proof
  fix d c :: ForensicSnapshotChain and w w' :: ForensicWorld and e
  assume u: "feUpdateStatus mem_env d w = (e, w')" and s: "mem_stored ns name w = Some c"
    and k: "fcObjectNamespace d = ns" "fcName d = name"
  have "mem_stored ns name
      (w\<lparr>fwChains := map (\<lambda>c. if fcObjectNamespace c = ns \<and> fcName c = name
         then c\<lparr>fcStatus := fcStatus d\<rparr> else c) (fwChains w)\<rparr>) = Some (c\<lparr>fcStatus := fcStatus d\<rparr>)"
    using find_map_key [OF s [unfolded mem_stored_def],
        of "\<lambda>c. if fcObjectNamespace c = ns \<and> fcName c = name then c\<lparr>fcStatus := fcStatus d\<rparr> else c"] s
    by (auto simp: mem_stored_def find_Some_iff)
  then show "write_outcome e c (c\<lparr>fcStatus := fcStatus d\<rparr>) (mem_stored ns name w')"
    using u s k by (auto simp: mem_env_def mem_update_def write_outcome_def mem_stored_def split: if_splits)
qed (auto simp: mem_env_def mem_stored_def find_Some_iff split: option.splits)

section \<open>Runs\<close>

text \<open>
  The life of a chain: reconciles, with anything in between that leaves the stored chain as it
  is. The number counts the reconciles that changed the stored chain.
\<close>

inductive chain_run ::
  "'w ForensicEnv \<Rightarrow> ('w \<Rightarrow> ForensicSnapshotChain option) \<Rightarrow> string \<Rightarrow> string \<Rightarrow> nat \<Rightarrow> 'w \<Rightarrow> 'w \<Rightarrow> bool"
  for env stored ns name where
  start: "chain_run env stored ns name 0 w w"
| elsewhere: "chain_run env stored ns name n w v \<Longrightarrow> stored v' = stored v \<Longrightarrow> chain_run env stored ns name n w v'"
| reconciled: "chain_run env stored ns name n w v \<Longrightarrow> Reconcile_chain env ns name v = (r, v') \<Longrightarrow>
    chain_run env stored ns name (if stored v' = stored v then n else Suc n) w v'"

context chain_store
begin

lemma run_refines:
  assumes "chain_run env stored ns name n w v" "stored w = Some c"
  shows "\<exists>c'. stored v = Some c' \<and> (\<exists>m\<ge>n. (chain_step ^^ m) c c')"
  using assms
proof induction
  case (start w)
  then show ?case by (intro exI [of _ c]) (auto intro!: exI [of _ 0])
next
  case (reconciled n w v r v')
  then obtain c1 m where c1: "stored v = Some c1" "n \<le> m" "(chain_step ^^ m) c c1" by blast
  have "reconcile_outcome c1 r (stored v')" using reconcile_refines [OF c1(1) reconciled.hyps(2)] .
  then consider "stored v' = Some c1" | c2 where "stored v' = Some c2" "chain_step c1 c2"
    by (auto simp: reconcile_outcome_def)
  then show ?case
  proof cases
    case 1
    then show ?thesis using c1 by auto
  next
    case 2
    then have "(chain_step ^^ Suc m) c c2" using c1 by auto
    then show ?thesis using 2 c1(2) by (intro exI [of _ c2] conjI) (auto intro!: exI [of _ "Suc m"])
  qed
qed auto

end

lemma steps_reachable: "(chain_step ^^ m) c c' \<Longrightarrow> chain_reachable c \<Longrightarrow> chain_reachable c' \<and> fcSpec c' = fcSpec c"
  by (induction m arbitrary: c') (auto intro: chain_reachable.step dest: chain_step_spec)

lemma steps_bounded:
  assumes "(chain_step ^^ m) c c'" "fresh_chain c" "MaxSnapshots (fcCapture (fcSpec c)) = Some limit"
    "1 \<le> limit" "limit < 2 ^ 30" "MaxDuration (fcCapture (fcSpec c)) = None"
  shows "int m \<le> 12 * limit + 8"
proof -
  have "int m + chain_potential limit c' \<le> chain_potential limit c \<and> 0 \<le> chain_potential limit c'"
    using assms(1)
  proof (induction m arbitrary: c')
    case 0
    then show ?case using assms(2,4) by (auto simp: chain_potential_def fresh_chain_def terminal_def)
  next
    case (Suc m)
    then obtain c1 where c1: "(chain_step ^^ m) c c1" "chain_step c1 c'" by auto
    have r: "chain_reachable c1" "fcSpec c1 = fcSpec c"
      using steps_reachable [OF c1(1)] assms(2) chain_reachable.created by blast+
    show ?case using Suc.IH [OF c1(1)] chain_potential_decreases [OF r(1) _ assms(4,5) _ c1(2)] r(2) assms(3,6)
      by auto
  qed
  moreover have "chain_potential limit c \<le> 12 * limit + 8"
    using assms(2,4) by (auto simp: chain_potential_def fresh_chain_def)
  ultimately show ?thesis by linarith
qed

lemma reachable_phase:
  "chain_reachable c \<Longrightarrow> terminal c \<or> chain_phase c \<in> {[], PhasePending, PhaseRunning}"
proof (induction rule: chain_reachable.induct)
  case (step c c')
  from step.hyps(2) show ?case by cases (auto simp: terminal_def)
qed (simp add: fresh_chain_def)

section \<open>A failing round\<close>

context chain_store
begin

lemma ended_checkpoint:
  assumes "stored w = Some c" "ended (updateChainStatus env c m w) r0 = (Inl (ChainCheckpoint e), w')"
  shows "r0 = Inl (ChainCheckpoint e) \<and> (\<exists>now. stored w' = Some (written_status m now c))"
proof -
  obtain x w1 where u: "updateChainStatus env c m w = (x, w1)" by fastforce
  obtain now where "write_outcome x c (written_status m now c) (stored w1)"
    using update_status [OF assms(1) u] by blast
  then show ?thesis using assms(2) u by (cases x) (auto simp: ended_def write_outcome_def)
qed

lemma complete_no_checkpoint: "complete_chain env c pods n m w \<noteq> (Inl (ChainCheckpoint e), w')"
  by (auto simp: complete_chain_def split: prod.splits option.splits)

lemma capture_failed:
  assumes "stored w = Some c" "capture_and_record env c h pods w = (Inl (ChainCheckpoint e), w')"
  shows "\<not> gives_up c \<and> (\<exists>now. stored w' = Some (written_status (mutate_failure False (error_text e)) now c))"
proof -
  obtain x w1 where x: "capture_round env c h (round_targets c pods) (round_start c) w = (x, w1)" by fastforce
  have s1: "stored w1 = Some c" using capture_eq [OF x] assms(1) by simp
  show ?thesis
  proof (cases x)
    case (Inl err)
    then show ?thesis using assms(2) x
      by (auto simp: capture_and_record_def gives_up_def Let_def split: if_splits dest!: ended_checkpoint [OF s1])
  next
    case (Inr rd)
    obtain now w2 where n: "feNow env w1 = (now, w2)" by fastforce
    have s2: "stored w2 = Some c" using now_eq [OF n] s1 by simp
    from ended_checkpoint [OF s2] show ?thesis using assms(2) x Inr n complete_no_checkpoint
      by (fastforce simp: capture_and_record_def split: option.splits)
  qed
qed

lemma run_failed:
  assumes "stored w = Some c" "run_round env c h w = (Inl (ChainCheckpoint e), w')"
  shows "\<not> gives_up c \<and> (\<exists>now. stored w' = Some (written_status (mutate_failure False (error_text e)) now c))"
proof -
  have rest: "\<not> gives_up c \<and> (\<exists>now. stored w' = Some (written_status (mutate_failure False (error_text e)) now c))"
    if "stored w1 = Some c" "(case getMatchingPods (fePods env) (fcNamespace (fcSpec c)) (fcSelector (fcSpec c)) w1 of
        (Inl err, w2) \<Rightarrow> (Inl (ChainApi err), w2)
      | (Inr pods, w2) \<Rightarrow> capture_and_record env c h pods w2) = (Inl (ChainCheckpoint e), w')" for w1
  proof -
    obtain p w2 where p: "getMatchingPods (fePods env) (fcNamespace (fcSpec c)) (fcSelector (fcSpec c)) w1 = (p, w2)"
      by fastforce
    have "stored w2 = Some c" using pods_eq [OF p] that(1) by simp
    then show ?thesis using that(2) p capture_failed by (cases p) auto
  qed
  show ?thesis
  proof (cases "fcLastSnapshotTime (fcStatus c)")
    case None
    then show ?thesis using assms rest [of w] by (simp add: run_round_def)
  next
    case (Some t)
    obtain now w1 where n: "feNow env w = (now, w1)" by fastforce
    have "stored w1 = Some c" using now_eq [OF n] assms(1) by simp
    then show ?thesis using rest [of w1] assms(2) Some n
      by (auto simp: run_round_def Let_def split: if_splits)
  qed
qed

lemma running_failed:
  assumes "stored w = Some c" "reconcile_running env c w = (Inl (ChainCheckpoint e), w')"
  shows "\<not> gives_up c \<and> (\<exists>now. stored w' = Some (written_status (mutate_failure False (error_text e)) now c))"
proof -
  obtain now w1 where n: "feNow env w = (now, w1)" by fastforce
  have s1: "stored w1 = Some c" using now_eq [OF n] assms(1) by simp
  have "stop_at_max_duration env c w1 \<noteq> (Inl (ChainCheckpoint e), w')"
    using complete_no_checkpoint by (auto simp: stop_at_max_duration_def split: prod.splits sum.splits)
  then show ?thesis
    using assms(2) n run_failed [OF assms(1)] run_failed [OF s1]
    by (auto simp: reconcile_running_def Let_def split: if_splits option.splits
        dest!: ended_checkpoint [OF assms(1)])
qed

lemma reconcile_failed:
  assumes "stored w = Some c" "Reconcile_chain env ns name w = (Inl (ChainCheckpoint e), w')"
  shows "chain_phase c = PhaseRunning \<and> \<not> gives_up c \<and>
    (\<exists>now. stored w' = Some (written_status (mutate_failure False (error_text e)) now c))"
proof -
  obtain x w1 where x: "feGet env ns name w = (x, w1)" by fastforce
  have s1: "stored w1 = Some c" using get_stored [OF x] assms(1) by simp
  show ?thesis
  proof (cases x)
    case (Inr d)
    then have d: "d = c" using get_result x assms(1) by fastforce
    have no: "ended u chain_ok \<noteq> (Inl (ChainCheckpoint e), w')" for u
      by (auto simp: ended_def split: prod.splits option.splits)
    show ?thesis using assms(2) x Inr d no running_failed [OF s1]
      by (auto simp: Reconcile_chain_def case_prod_beta split: if_splits)
  qed (use assms(2) x in \<open>auto simp: Reconcile_chain_def split: option.splits\<close>)
qed

end

section \<open>Properties\<close>

subsection \<open>A concrete cluster\<close>

definition ex_forensic_pod :: "string \<Rightarrow> Pod" where
  "ex_forensic_pod n =
     \<lparr>podName = n, podNamespace = ''ns'', podLabels = [], podAnnotations = [], podController = None,
      podDeletionTimestamp = None, podNodeName = ''node'',
      podContainers = [\<lparr>ctName = ''app'', ctImage = ''img'', ctLimits = []\<rparr>], podPhase = PodRunning,
      podReason = [], podMessage = [], podConditions = []\<rparr>"

definition ex_status :: "string \<Rightarrow> int \<Rightarrow> SnapshotChainRecord list \<Rightarrow> ForensicSnapshotChainStatus" where
  "ex_status phase snapshots rs =
     \<lparr>fcConditions = [], fcPhase = phase, fcSnapshotCount = snapshots, fcAttemptCount = snapshots, fcFailureCount = 0,
      fcStartTime = None, fcLastSnapshotTime = None, fcCompletionTime = None, fcErrorMessage = [],
      fcObservedGeneration = 0, fcRecords = rs\<rparr>"

definition ex_chain :: "ForensicSnapshotChainStatus \<Rightarrow> ForensicSnapshotChain" where
  "ex_chain st =
     \<lparr>fcObjectNamespace = ''ns'', fcName = ''chain'', fcGeneration = 1,
      fcSpec = \<lparr>fcNamespace = ''ns'', fcSelector = \<lparr>matchLabels = [], matchExpressions = []\<rparr>, fcContainerNames = [],
        fcCapture = \<lparr>Interval = None, MaxSnapshots = Some 2, MaxDuration = None\<rparr>,
        fcHashAlgorithm = ''sha256'', fcPostSnapshotAction = PostSnapshotActionDeletePod\<rparr>,
      fcStatus = st\<rparr>"

definition ex_record :: SnapshotChainRecord where
  "ex_record = \<lparr>srIndex = 0, srPodName = ''a'', srContainerName = ''app'', srCheckpointPath = ''/ckpt/a.tar'',
     srSnapshotTime = 5, srSHA256Hash = ''h0'', srPreviousSHA256Hash = []\<rparr>"

definition ex_world :: "ForensicSnapshotChainStatus \<Rightarrow> CheckpointError option list \<Rightarrow> ForensicWorld" where
  "ex_world st checkpoints =
     \<lparr>fwChains = [ex_chain st], fwClock = 100 * second, fwPods = [ex_forensic_pod ''a'', ex_forensic_pod ''b''],
      fwConflicts = 2, fwCheckpoints = checkpoints, fwChecksums = [], fwDeleted = []\<rparr>"

lemma ex_world_stored [simp]: "mem_stored ''ns'' ''chain'' (ex_world st cs) = Some (ex_chain st)"
  by (simp add: mem_stored_def ex_world_def ex_chain_def)

subsection \<open>Refinement\<close>



subsection \<open>Evidence\<close>

text \<open>C23: Evidence is append-only and tamper-evident. A reconcile never changes or drops a
  record of the chain: the new records follow the old ones, every record carries its position,
  and every hashed record refers to the hash of the record before it where that one is hashed.
  A chain that has ended is not changed at all.\<close>

theorem evidence_only_grows:
  assumes "chain_store env stored ns name" "stored w = Some c" "Reconcile_chain env ns name w = (r, w')"
    "indexed (fcRecords (fcStatus c))" "hash_linked (fcRecords (fcStatus c))"
  shows "\<exists>c' rs. stored w' = Some c' \<and> fcRecords (fcStatus c') = fcRecords (fcStatus c) @ rs \<and>
    indexed (fcRecords (fcStatus c')) \<and> hash_linked (fcRecords (fcStatus c')) \<and> (terminal c \<longrightarrow> c' = c)"
  using chain_store.reconcile_refines [OF assms(1-3)] chain_step_records [OF _ assms(4,5)] assms(4,5)
    terminal_no_step [of c]
  unfolding reconcile_outcome_def by blast

theorem evidence_only_grows_witness:
  "\<exists>r w' c' rs.
     Reconcile_chain mem_env ''ns'' ''chain'' (ex_world (ex_status PhaseRunning 1 [ex_record]) []) = (r, w') \<and>
     mem_stored ''ns'' ''chain'' w' = Some c' \<and> fcRecords (fcStatus c') = ex_record # rs \<and>
     indexed (ex_record # rs) \<and> hash_linked (ex_record # rs)"
proof -
  obtain r w' where r:
    "Reconcile_chain mem_env ''ns'' ''chain'' (ex_world (ex_status PhaseRunning 1 [ex_record]) []) = (r, w')"
    by fastforce
  have "indexed [ex_record]" "hash_linked [ex_record]"
    by (simp_all add: indexed_def hash_linked_def ex_record_def wrap32_def)
  then show ?thesis
    using evidence_only_grows [OF mem.chain_store_axioms ex_world_stored r] r
    by (auto simp: ex_chain_def ex_status_def)
qed



subsection \<open>Progress and limits\<close>

lemma run_reachable:
  assumes "chain_store env stored ns name" "stored w = Some c" "fresh_chain c" "chain_run env stored ns name n w v"
  shows "\<exists>c' m. stored v = Some c' \<and> n \<le> m \<and> (chain_step ^^ m) c c' \<and> chain_reachable c' \<and> fcSpec c' = fcSpec c"
  using chain_store.run_refines [OF assms(1,4,2)] steps_reachable chain_reachable.created [OF assms(3)] by blast

text \<open>C25: A chain with a snapshot limit and no time limit ends. Over its whole life at most
  12 * limit + 8 reconciles change it, whatever the API server, the kubelets and the helper pods
  do; and every reconcile of a chain that has not ended changes it, unless the API server fails
  or the next round is not due yet.\<close>

theorem chain_terminates:
  assumes "chain_store env stored ns name" "stored w = Some c" "fresh_chain c"
    "MaxSnapshots (fcCapture (fcSpec c)) = Some limit" "1 \<le> limit" "limit < 2 ^ 30"
    "MaxDuration (fcCapture (fcSpec c)) = None" "chain_run env stored ns name n w v"
  shows "int n \<le> 12 * limit + 8 \<and>
    (\<exists>c'. stored v = Some c' \<and>
      (\<forall>r v'. Reconcile_chain env ns name v = (r, v') \<longrightarrow>
         terminal c' \<or> stored v' \<noteq> stored v \<or> (\<exists>e. r = Inl (ChainApi e)) \<or> (\<exists>d>0. r = Inr (requeue_after d))))"
proof -
  obtain c' m where c': "stored v = Some c'" "n \<le> m" "(chain_step ^^ m) c c'" "chain_reachable c'" "fcSpec c' = fcSpec c"
    using run_reachable [OF assms(1-3,8)] by blast
  have "int m \<le> 12 * limit + 8" using steps_bounded [OF c'(3) assms(3-7)] .
  moreover have "terminal c' \<or> stored v' \<noteq> stored v \<or> (\<exists>e. r = Inl (ChainApi e)) \<or> (\<exists>d>0. r = Inr (requeue_after d))"
    if r: "Reconcile_chain env ns name v = (r, v')" for r v'
  proof -
    have "d \<noteq> c'" if "chain_step c' d" for d
      using chain_potential_decreases [OF c'(4) _ assms(5,6) _ that] c'(5) assms(4,7) by auto
    then show ?thesis
      using chain_store.reconcile_refines [OF assms(1) c'(1) r] reachable_phase [OF c'(4)] c'(1)
      unfolding reconcile_outcome_def by auto
  qed
  ultimately show ?thesis using c'(1,2) by auto
qed

text \<open>The first reconcile of a new chain, as a run.\<close>

lemma ex_run:
  "\<exists>n v. chain_run mem_env (mem_stored ''ns'' ''chain'') ''ns'' ''chain'' n (ex_world (ex_status [] 0 []) []) v"
  using chain_run.reconciled [OF chain_run.start] by (metis prod.exhaust)

lemma ex_chain_fresh: "fresh_chain (ex_chain (ex_status [] 0 []))"
  by (simp add: fresh_chain_def ex_chain_def ex_status_def)

lemma ex_chain_limits:
  "MaxSnapshots (fcCapture (fcSpec (ex_chain st))) = Some 2" "MaxDuration (fcCapture (fcSpec (ex_chain st))) = None"
  by (simp_all add: ex_chain_def)

theorem chain_terminates_witness:
  "\<exists>n v. chain_run mem_env (mem_stored ''ns'' ''chain'') ''ns'' ''chain'' n (ex_world (ex_status [] 0 []) []) v \<and>
     int n \<le> 32"
proof -
  obtain n v where run:
    "chain_run mem_env (mem_stored ''ns'' ''chain'') ''ns'' ''chain'' n (ex_world (ex_status [] 0 []) []) v"
    using ex_run by blast
  have "int n \<le> 12 * 2 + 8"
    by (rule chain_terminates [OF mem.chain_store_axioms ex_world_stored ex_chain_fresh ex_chain_limits(1) _ _
          ex_chain_limits(2) run, THEN conjunct1]) simp_all
  then show ?thesis using run by auto
qed

text \<open>The snapshot limit is kept. Over any run of a new chain the snapshot count is never
  negative and never exceeds the limit, the 32 bit counter does not wrap, and a chain that has
  reached the limit has ended.\<close>

lemma snapshots_within_limit:
  assumes "chain_store env stored ns name" "stored w = Some c" "fresh_chain c"
    "MaxSnapshots (fcCapture (fcSpec c)) = Some limit" "1 \<le> limit" "limit < 2 ^ 31"
    "chain_run env stored ns name n w v"
  shows "\<exists>c'. stored v = Some c' \<and> 0 \<le> fcSnapshotCount (fcStatus c') \<and> fcSnapshotCount (fcStatus c') \<le> limit \<and>
    (fcSnapshotCount (fcStatus c') = limit \<longrightarrow> terminal c')"
proof -
  obtain c' where c': "stored v = Some c'" "chain_reachable c'" "fcSpec c' = fcSpec c"
    using run_reachable [OF assms(1-3,7)] by blast
  show ?thesis using snapshot_count_inv [OF c'(2) _ assms(5,6)] c' assms(4) by auto
qed

lemma snapshots_within_limit_witness:
  "\<exists>n v c'. chain_run mem_env (mem_stored ''ns'' ''chain'') ''ns'' ''chain'' n (ex_world (ex_status [] 0 []) []) v \<and>
     mem_stored ''ns'' ''chain'' v = Some c' \<and> 0 \<le> fcSnapshotCount (fcStatus c') \<and> fcSnapshotCount (fcStatus c') \<le> 2"
proof -
  obtain n v where run:
    "chain_run mem_env (mem_stored ''ns'' ''chain'') ''ns'' ''chain'' n (ex_world (ex_status [] 0 []) []) v"
    using ex_run by blast
  have "\<exists>c'. mem_stored ''ns'' ''chain'' v = Some c' \<and> 0 \<le> fcSnapshotCount (fcStatus c') \<and>
      fcSnapshotCount (fcStatus c') \<le> 2 \<and> (fcSnapshotCount (fcStatus c') = 2 \<longrightarrow> terminal c')"
    by (rule snapshots_within_limit [OF mem.chain_store_axioms ex_world_stored ex_chain_fresh ex_chain_limits(1) _ _ run])
       simp_all
  then show ?thesis using run by blast
qed

subsection \<open>The post-snapshot action\<close>

text \<open>C26: Pods are only deleted once the chain is durably completed. A pod deletion that differs
  from the real one everywhere except while the API server holds the chain as completed, with
  the DeletePod action and at least one snapshot, gives the very same reconcile: elsewhere it is
  never called. A reconcile of a chain that had already ended deletes nothing.\<close>

theorem pods_deleted_after_completion:
  assumes "chain_store env stored ns name" "stored w = Some c"
    "\<And>pod v d. \<not> terminal c \<Longrightarrow> stored v = Some d \<Longrightarrow> deletes_pods d \<Longrightarrow> del pod v = feDelete env pod v"
  shows "Reconcile_chain (env\<lparr>feDelete := del\<rparr>) ns name w = Reconcile_chain env ns name w"
  using chain_store.reconcile_other_delete [OF assms(1,2)] assms(3) by blast

text \<open>A deletion that is only allowed while the chain is completed.\<close>

definition guarded_delete :: "Pod \<Rightarrow> ForensicWorld \<Rightarrow> ApiError option \<times> ForensicWorld" where
  "guarded_delete pod w =
     (case mem_stored ''ns'' ''chain'' w of
        Some d \<Rightarrow> if deletes_pods d then feDelete mem_env pod w else (Some (OtherError ''forbidden''), w)
      | None \<Rightarrow> (Some (OtherError ''forbidden''), w))"

theorem pods_deleted_after_completion_witness:
  "Reconcile_chain (mem_env\<lparr>feDelete := guarded_delete\<rparr>) ''ns'' ''chain'' (ex_world (ex_status PhaseRunning 1 []) []) =
     Reconcile_chain mem_env ''ns'' ''chain'' (ex_world (ex_status PhaseRunning 1 []) []) \<and>
   fwDeleted (snd (Reconcile_chain mem_env ''ns'' ''chain'' (ex_world (ex_status PhaseRunning 1 []) []))) = [''b'', ''a'']"
proof
  show "Reconcile_chain (mem_env\<lparr>feDelete := guarded_delete\<rparr>) ''ns'' ''chain'' (ex_world (ex_status PhaseRunning 1 []) []) =
      Reconcile_chain mem_env ''ns'' ''chain'' (ex_world (ex_status PhaseRunning 1 []) [])"
  proof (rule pods_deleted_after_completion [where stored = "mem_stored ''ns'' ''chain''",
        OF mem.chain_store_axioms ex_world_stored])
    fix pod v d
    assume "mem_stored ''ns'' ''chain'' v = Some d" "deletes_pods d"
    then show "guarded_delete pod v = feDelete mem_env pod v" by (simp add: guarded_delete_def)
  qed
qed code_simp

end
