(* ===== verification/PodRestore_Controller.thy ===== *)
theory PodRestore_Controller
  imports Checkpoint_Pinning Checkpoint_Archive Api_PodRestore
begin

text \<open>
  \<^verbatim>\<open>internal/controller/podrestore_controller.go\<close>: the controller that turns a PodRestore into
  a pod annotated for the CRI proxy. It checks the spec, pins the archives, renders and creates
  the pod, and reports the pod's state as conditions.

  The API server is a parameter (\<open>RestoreEnv\<close>), each call threading the world; the archives
  and their markers live in a file system that is passed on beside it. The world includes the
  clock, which \<open>reNow\<close> reads. \<open>reText\<close> formats the messages that carry a value.
\<close>

section \<open>Definitions\<close>

definition podRestoreFinalizer :: string where
  "podRestoreFinalizer = ''criu.org/pod-restore-finalizer''"

definition podRestoreLabel :: string where
  "podRestoreLabel = ''restore.criu.org/pod-restore''"

record PodRestoreReconciler =
  rrCheckpointDir :: string
  rrAllowCrossNamespace :: bool

text \<open>The errors and messages that name a value.\<close>

datatype RestoreError =
    ReservedAnnotation string
  | BadPath string PathError
  | NotInTemplate string
  | NoBaseImage string ArchiveError
  | NotOwnable string
  | NodeMissing string
  | PodTaken string

record 'w RestoreEnv =
  reGet :: "string \<Rightarrow> string \<Rightarrow> 'w \<Rightarrow> (ApiError + PodRestore) \<times> 'w"
  rePatchFinalizers :: "PodRestore \<Rightarrow> 'w \<Rightarrow> ApiError option \<times> 'w"
  reUpdateStatus :: "PodRestore \<Rightarrow> 'w \<Rightarrow> ApiError option \<times> 'w"
  reGetNode :: "string \<Rightarrow> 'w \<Rightarrow> (ApiError + Node) \<times> 'w"
  reGetPod :: "string \<Rightarrow> string \<Rightarrow> 'w \<Rightarrow> (ApiError + Pod) \<times> 'w"
  reCreatePod :: "Pod \<Rightarrow> 'w \<Rightarrow> (ApiError + Pod) \<times> 'w"
  reNow :: "'w \<Rightarrow> time"
  reArchive :: ArchiveEnv
  reSchemeError :: "string option"
  reText :: "RestoreError \<Rightarrow> string"

subsection \<open>The specification\<close>

fun reserved_annotation :: "smap \<Rightarrow> string option" where
  "reserved_annotation [] = None"
| "reserved_annotation ((key, v) # annotations) =
     (if HasPrefix key RestoreCheckpointPathAnnotationPrefix then Some key
      else reserved_annotation annotations)"

fun validate_checkpoints ::
  "PodRestoreReconciler \<Rightarrow> string \<Rightarrow> (string \<Rightarrow> bool) \<Rightarrow> ContainerCheckpoint list \<Rightarrow> RestoreError option" where
  "validate_checkpoints r ns inTemplate [] = None"
| "validate_checkpoints r ns inTemplate (cp # cps) =
     (case ValidateCheckpointPathInDir (ccPath cp) (rrCheckpointDir r) of
        Some err \<Rightarrow> Some (BadPath (ccContainer cp) err)
      | None \<Rightarrow>
          (case (if rrAllowCrossNamespace r then None
                 else ValidateCheckpointNamespaceHint (ccPath cp) ns) of
             Some err \<Rightarrow> Some (BadPath (ccContainer cp) err)
           | None \<Rightarrow>
               if \<not> inTemplate (ccContainer cp) then Some (NotInTemplate (ccContainer cp))
               else validate_checkpoints r ns inTemplate cps))"

definition validateSpec :: "PodRestoreReconciler \<Rightarrow> PodRestore \<Rightarrow> RestoreError option" where
  "validateSpec r pr =
     (let template = prTemplate (prSpec pr)
      in case reserved_annotation (ptAnnotations template) of
           Some key \<Rightarrow> Some (ReservedAnnotation key)
         | None \<Rightarrow>
             validate_checkpoints r (prNamespace pr)
               (\<lambda>name. name \<in> set (map ctName (ptContainers template))) (prCheckpoints (prSpec pr)))"

subsection \<open>The pod\<close>

text \<open>\<open>None\<close> is the index -1.\<close>

fun containerIndex :: "Container list \<Rightarrow> string \<Rightarrow> nat option" where
  "containerIndex [] name = None"
| "containerIndex (c # cs) name =
     (if ctName c = name then Some 0 else map_option Suc (containerIndex cs name))"

definition readCheckpointBaseImage :: "'w RestoreEnv \<Rightarrow> string \<Rightarrow> ArchiveError + string" where
  "readCheckpointBaseImage env checkpointPath = ReadBaseImage (reArchive env) checkpointPath"

definition SetControllerReference :: "string option \<Rightarrow> PodRestore \<Rightarrow> Pod \<Rightarrow> string + Pod" where
  "SetControllerReference schemeError owner pod =
     (if prNamespace owner \<noteq> [] \<and> podNamespace pod = [] then Inl ''cluster-scoped''
      else if prNamespace owner \<noteq> [] \<and> prNamespace owner \<noteq> podNamespace pod then Inl ''cross-namespace''
      else case schemeError of
        Some err \<Rightarrow> Inl err
      | None \<Rightarrow>
          (case podController pod of
             Some uid \<Rightarrow> if uid \<noteq> prUID owner then Inl ''already owned'' else Inr pod
           | None \<Rightarrow> Inr (pod\<lparr>podController := Some (prUID owner)\<rparr>)))"

text \<open>\<open>metav1.IsControlledBy\<close>.\<close>

definition IsControlledBy :: "Pod \<Rightarrow> PodRestore \<Rightarrow> bool" where
  "IsControlledBy pod owner = (podController pod = Some (prUID owner))"

fun render_checkpoints ::
  "'w RestoreEnv \<Rightarrow> ContainerCheckpoint list \<Rightarrow> Pod \<Rightarrow> RestoreError + Pod" where
  "render_checkpoints env [] pod = Inr pod"
| "render_checkpoints env (cp # cps) pod =
     (case containerIndex (podContainers pod) (ccContainer cp) of
        None \<Rightarrow> Inl (NotInTemplate (ccContainer cp))
      | Some idx \<Rightarrow>
          (let pod1 = pod\<lparr>podAnnotations :=
                 mput (RestoreCheckpointPathAnnotationPrefix @ ccContainer cp) (ccPath cp) (podAnnotations pod)\<rparr>;
               container = podContainers pod ! idx
           in if ctImage container = [] then
                (case readCheckpointBaseImage env (ccPath cp) of
                   Inl err \<Rightarrow> Inl (NoBaseImage (ccContainer cp) err)
                 | Inr img \<Rightarrow>
                     render_checkpoints env cps
                       (pod1\<lparr>podContainers := (podContainers pod)[idx := container\<lparr>ctImage := img\<rparr>]\<rparr>))
              else render_checkpoints env cps pod1))"

definition renderPod :: "'w RestoreEnv \<Rightarrow> PodRestore \<Rightarrow> RestoreError + Pod" where
  "renderPod env pr =
     (let template = prTemplate (prSpec pr);
          pod = \<lparr>podName = prName pr, podNamespace = prNamespace pr,
                 podLabels = mput podRestoreLabel (prName pr) (ptLabels template),
                 podAnnotations = ptAnnotations template, podController = None, podDeletionTimestamp = None,
                 podNodeName = prTargetNode (prSpec pr), podContainers = ptContainers template,
                 podPhase = [], podReason = [], podMessage = [], podConditions = []\<rparr>
      in case render_checkpoints env (prCheckpoints (prSpec pr)) pod of
           Inl err \<Rightarrow> Inl err
         | Inr pod1 \<Rightarrow>
             (case SetControllerReference (reSchemeError env) pr pod1 of
                Inl err \<Rightarrow> Inl (NotOwnable err)
              | Inr pod2 \<Rightarrow> Inr pod2))"

subsection \<open>Conditions\<close>

definition restore_condition ::
  "time \<Rightarrow> string \<Rightarrow> string \<Rightarrow> string \<Rightarrow> string \<Rightarrow> PodRestore \<Rightarrow> PodRestore" where
  "restore_condition now ctype status reason message pr =
     pr\<lparr>prStatus := (prStatus pr)\<lparr>prConditions := SetStatusCondition now (prConditions (prStatus pr))
       \<lparr>cType = ctype, cStatus = status, cObservedGeneration = prGeneration pr, cLastTransitionTime = 0,
        cReason = reason, cMessage = message\<rparr>\<rparr>\<rparr>"

definition setReady :: "time \<Rightarrow> string \<Rightarrow> string \<Rightarrow> string \<Rightarrow> PodRestore \<Rightarrow> PodRestore" where
  "setReady now = restore_condition now ConditionReady"

definition setPinned :: "time \<Rightarrow> string \<Rightarrow> string \<Rightarrow> string \<Rightarrow> PodRestore \<Rightarrow> PodRestore" where
  "setPinned now = restore_condition now ConditionCheckpointsPinned"

definition saveStatus ::
  "'w RestoreEnv \<Rightarrow> PodRestore \<Rightarrow> PodRestoreStatus \<Rightarrow> Result \<Rightarrow> 'w \<Rightarrow> (ApiError + Result) \<times> 'w" where
  "saveStatus env pr before result w =
     (let pr1 = pr\<lparr>prStatus := (prStatus pr)\<lparr>prObservedGeneration := prGeneration pr\<rparr>\<rparr>
      in if before = prStatus pr1 then (Inr result, w)
         else case reUpdateStatus env pr1 w of
           (Some err, w1) \<Rightarrow> (Inl err, w1)
         | (None, w1) \<Rightarrow> (Inr result, w1))"

subsection \<open>Reconcile\<close>

definition podRestoreOwnerKey :: "PodRestore \<Rightarrow> string" where
  "podRestoreOwnerKey pr = prNamespace pr @ ''/'' @ prName pr"

fun unpin_all :: "MarkerCodec \<Rightarrow> string \<Rightarrow> ContainerCheckpoint list \<Rightarrow> FS \<Rightarrow> FS" where
  "unpin_all codec owner [] fs = fs"
| "unpin_all codec owner (cp # cps) fs = unpin_all codec owner cps (unpinCheckpoint codec (ccPath cp) owner fs)"

text \<open>Whether every pin was written, and the file system.\<close>

fun pin_all :: "MarkerCodec \<Rightarrow> string \<Rightarrow> ContainerCheckpoint list \<Rightarrow> FS \<Rightarrow> bool \<times> FS" where
  "pin_all codec owner [] fs = (True, fs)"
| "pin_all codec owner (cp # cps) fs =
     (case pinCheckpoint codec (ccPath cp) owner fs of
        (ok, fs1) \<Rightarrow> (case pin_all codec owner cps fs1 of (rest, fs2) \<Rightarrow> (ok \<and> rest, fs2)))"

definition RemoveFinalizer :: "PodRestore \<Rightarrow> PodRestore" where
  "RemoveFinalizer pr = pr\<lparr>prFinalizers := filter (\<lambda>f. f \<noteq> podRestoreFinalizer) (prFinalizers pr)\<rparr>"

definition AddFinalizer :: "PodRestore \<Rightarrow> PodRestore" where
  "AddFinalizer pr = pr\<lparr>prFinalizers := prFinalizers pr @ [podRestoreFinalizer]\<rparr>"

definition patched :: "ApiError option \<times> 'w \<Rightarrow> (ApiError + Result) \<times> 'w" where
  "patched u = (case u of (Some err, w) \<Rightarrow> (Inl err, w) | (None, w) \<Rightarrow> (Inr no_requeue, w))"

text \<open>The messages of the conditions.\<close>

definition pinned_message :: string where
  "pinned_message = ''Source checkpoints pinned against retention GC''"

definition not_pinned_message :: "string \<Rightarrow> string" where
  "not_pinned_message node =
     ''Checkpoint archive is not reachable from the operator; pinning against retention GC is not enforced. Ensure the checkpoint is retained on '' @
     node @ '' for the duration of the restore.''"

definition report_pins :: "time \<Rightarrow> bool \<Rightarrow> PodRestore \<Rightarrow> PodRestore" where
  "report_pins now pinnedAll pr =
     (if pinnedAll then setPinned now ConditionTrue ''Pinned'' pinned_message pr
      else setPinned now ConditionFalse ''PinNotEnforced'' (not_pinned_message (prTargetNode (prSpec pr))) pr)"

text \<open>The last part: the pod is there, adopt it if it is ours and report its phase.\<close>

definition report_pod ::
  "'w RestoreEnv \<Rightarrow> PodRestore \<Rightarrow> PodRestoreStatus \<Rightarrow> Pod \<Rightarrow> 'w \<Rightarrow> (ApiError + Result) \<times> 'w" where
  "report_pod env pr before pod w =
     (if \<not> IsControlledBy pod pr then
        saveStatus env (setReady (reNow env w) ConditionFalse ''PodConflict'' (reText env (PodTaken (podName pod))) pr)
          before no_requeue w
      else
        (let pr1 = pr\<lparr>prStatus := (prStatus pr)\<lparr>prPodName := podName pod\<rparr>\<rparr>
         in if podPhase pod = PodRunning \<or> podPhase pod = PodSucceeded then
              saveStatus env (setReady (reNow env w) ConditionTrue ''Restored'' ''Restored Pod is running'' pr1)
                before no_requeue w
            else if podPhase pod = PodFailed then
              saveStatus env (setReady (reNow env w) ConditionFalse ''PodFailed''
                 (if podReason pod = [] then ''the restore Pod entered the Failed phase'' else podReason pod) pr1)
                before no_requeue w
            else
              saveStatus env (setReady (reNow env w) ConditionFalse ''Restoring'' ''Restore Pod is not yet running'' pr1)
                before (requeue_after (3 * second)) w))"

definition ensure_pod ::
  "'w RestoreEnv \<Rightarrow> PodRestore \<Rightarrow> PodRestoreStatus \<Rightarrow> 'w \<Rightarrow> (ApiError + Result) \<times> 'w" where
  "ensure_pod env pr before w =
     (case reGetPod env (prNamespace pr) (prName pr) w of
        (Inr pod, w1) \<Rightarrow> report_pod env pr before pod w1
      | (Inl err, w1) \<Rightarrow>
          if \<not> IsNotFound err then (Inl err, w1)
          else if prPodName (prStatus pr) \<noteq> [] then
            saveStatus env (setReady (reNow env w1) ConditionFalse ''PodMissing'' ''restore Pod disappeared'' pr)
              before no_requeue w1
          else
            (case renderPod env pr of
               Inl rerr \<Rightarrow>
                 saveStatus env (setReady (reNow env w1) ConditionFalse ''RenderFailed'' (reText env rerr) pr)
                   before (requeue_after (30 * second)) w1
             | Inr newPod \<Rightarrow>
                 (case reCreatePod env newPod w1 of
                    (Inr pod, w2) \<Rightarrow> report_pod env pr before pod w2
                  | (Inl cerr, w2) \<Rightarrow>
                      if cerr \<noteq> AlreadyExists then (Inl cerr, w2)
                      else (case reGetPod env (podNamespace newPod) (podName newPod) w2 of
                              (Inl gerr, w3) \<Rightarrow> (Inl gerr, w3)
                            | (Inr pod, w3) \<Rightarrow> report_pod env pr before pod w3))))"

definition restore_checked ::
  "'w RestoreEnv \<Rightarrow> MarkerCodec \<Rightarrow> PodRestore \<Rightarrow> 'w \<Rightarrow> FS \<Rightarrow> (ApiError + Result) \<times> 'w \<times> FS" where
  "restore_checked env codec pr w fs =
     (case reGetNode env (prTargetNode (prSpec pr)) w of
        (Inl err, w1) \<Rightarrow>
          (if IsNotFound err then
             (case saveStatus env (setReady (reNow env w1) ConditionFalse ''NodeNotFound''
                     (reText env (NodeMissing (prTargetNode (prSpec pr)))) pr)
                   (prStatus pr) (requeue_after (30 * second)) w1 of (r, w2) \<Rightarrow> (r, w2, fs))
           else (Inl err, w1, fs))
      | (Inr node, w1) \<Rightarrow>
          (case pin_all codec (podRestoreOwnerKey pr) (prCheckpoints (prSpec pr)) fs of
             (pinnedAll, fs1) \<Rightarrow>
               (case ensure_pod env (report_pins (reNow env w1) pinnedAll pr) (prStatus pr) w1 of
                  (r, w2) \<Rightarrow> (r, w2, fs1))))"

definition Reconcile_restore ::
  "'w RestoreEnv \<Rightarrow> PodRestoreReconciler \<Rightarrow> MarkerCodec \<Rightarrow> string \<Rightarrow> string \<Rightarrow> 'w \<Rightarrow> FS \<Rightarrow>
     (ApiError + Result) \<times> 'w \<times> FS" where
  "Reconcile_restore env r codec ns name w fs =
     (case reGet env ns name w of
        (Inl err, w1) \<Rightarrow> ((case IgnoreNotFound err of None \<Rightarrow> Inr no_requeue | Some e \<Rightarrow> Inl e), w1, fs)
      | (Inr pr, w1) \<Rightarrow>
          if prDeletionTimestamp pr \<noteq> None then
            (if podRestoreFinalizer \<in> set (prFinalizers pr) then
               (let fs1 = unpin_all codec (podRestoreOwnerKey pr) (prCheckpoints (prSpec pr)) fs
                in case patched (rePatchFinalizers env (RemoveFinalizer pr) w1) of (res, w2) \<Rightarrow> (res, w2, fs1))
             else (Inr no_requeue, w1, fs))
          else if podRestoreFinalizer \<notin> set (prFinalizers pr) then
            (case patched (rePatchFinalizers env (AddFinalizer pr) w1) of (res, w2) \<Rightarrow> (res, w2, fs))
          else
            (case validateSpec r pr of
               Some err \<Rightarrow>
                 (case saveStatus env (setReady (reNow env w1) ConditionFalse ''InvalidSpec'' (reText env err) pr)
                       (prStatus pr) no_requeue w1 of (res, w2) \<Rightarrow> (res, w2, fs))
             | None \<Rightarrow> restore_checked env codec pr w1 fs))"

section \<open>Lemmas\<close>

subsection \<open>Accepted specifications\<close>

lemma reserved_annotation_None:
  "reserved_annotation m = None \<longleftrightarrow> (\<forall>k \<in> set (map fst m). \<not> HasPrefix k RestoreCheckpointPathAnnotationPrefix)"
  by (induction m rule: reserved_annotation.induct) auto

text \<open>The contract of one checkpoint of a restore.\<close>

definition checkpoint_ok :: "PodRestoreReconciler \<Rightarrow> PodRestore \<Rightarrow> ContainerCheckpoint \<Rightarrow> bool" where
  "checkpoint_ok r pr cp \<longleftrightarrow>
     ValidateCheckpointPathInDir (ccPath cp) (rrCheckpointDir r) = None \<and>
     (rrAllowCrossNamespace r \<or> ValidateCheckpointNamespaceHint (ccPath cp) (prNamespace pr) = None) \<and>
     ccContainer cp \<in> ctName ` set (ptContainers (prTemplate (prSpec pr)))"

lemma validateSpec_None:
  "validateSpec r pr = None \<longleftrightarrow>
     (\<forall>k \<in> set (map fst (ptAnnotations (prTemplate (prSpec pr)))).
        \<not> HasPrefix k RestoreCheckpointPathAnnotationPrefix) \<and>
     (\<forall>cp \<in> set (prCheckpoints (prSpec pr)). checkpoint_ok r pr cp)"
proof -
  have "validate_checkpoints r (prNamespace pr) (\<lambda>name. name \<in> set (map ctName (ptContainers (prTemplate (prSpec pr))))) cps = None
      \<longleftrightarrow> (\<forall>cp \<in> set cps. checkpoint_ok r pr cp)" for cps
    by (induction cps) (auto simp: checkpoint_ok_def split: option.splits)
  then show ?thesis
    unfolding reserved_annotation_None [symmetric] by (auto simp: validateSpec_def Let_def split: option.splits)
qed

lemma path_in_dir_tar: "ValidateCheckpointPathInDir p d = None \<Longrightarrow> HasSuffix p ''.tar''"
proof -
  assume "ValidateCheckpointPathInDir p d = None"
  then obtain f where f: "Ext f = ''.tar''" "p = entry_of (effective_dir d) f" "slash \<notin> set f"
    using ValidateCheckpointPathInDir_iff by auto
  then obtain a where "f = a @ ''.tar''" using Ext_eq_suffix [of f "''tar''"] by (auto simp: file_part_no_slash)
  then show ?thesis using f(2) by (auto simp: HasSuffix_def suffix_def entry_of_def)
qed

lemma accepted_tar:
  "validateSpec r pr = None \<Longrightarrow> cp \<in> set (prCheckpoints (prSpec pr)) \<Longrightarrow> HasSuffix (ccPath cp) ''.tar''"
  by (auto simp: validateSpec_None checkpoint_ok_def path_in_dir_tar)

subsection \<open>The rendered pod\<close>

lemma containerIndex_Some:
  "containerIndex cs name = Some i \<Longrightarrow> i < length cs \<and> ctName (cs ! i) = name"
  by (induction cs arbitrary: i) (auto split: if_splits)

lemma containerIndex_None: "containerIndex cs name = None \<longleftrightarrow> name \<notin> ctName ` set cs"
  by (induction cs) auto

lemma containerIndex_image:
  "ctName (cs ! i) = ctName c \<Longrightarrow> i < length cs \<Longrightarrow> containerIndex (cs[i := c]) name = containerIndex cs name"
  by (induction cs arbitrary: i) (auto split: nat.splits)

lemma readCheckpointBaseImage_nonempty: "readCheckpointBaseImage env p = Inr img \<Longrightarrow> img \<noteq> []"
  by (auto simp: readCheckpointBaseImage_def ReadBaseImage_def split: sum.splits prod.splits option.splits if_splits)

text \<open>The first container of that name has an image.\<close>

definition has_image :: "Pod \<Rightarrow> string \<Rightarrow> bool" where
  "has_image pod name \<longleftrightarrow>
     (\<exists>i. containerIndex (podContainers pod) name = Some i \<and> ctImage (podContainers pod ! i) \<noteq> [])"

definition restore_annotations :: "ContainerCheckpoint list \<Rightarrow> smap" where
  "restore_annotations cps = map (\<lambda>cp. (RestoreCheckpointPathAnnotationPrefix @ ccContainer cp, ccPath cp)) cps"

lemma render_checkpoints_pod:
  assumes "render_checkpoints env cps pod = Inr pod'"
  shows "podName pod' = podName pod \<and> podNamespace pod' = podNamespace pod \<and> podNodeName pod' = podNodeName pod \<and>
    podController pod' = podController pod \<and>
    map_of (podAnnotations pod') = map_of (podAnnotations pod) ++ map_of (rev (restore_annotations cps)) \<and>
    (\<forall>n. has_image pod n \<or> n \<in> ccContainer ` set cps \<longrightarrow> has_image pod' n)"
  using assms
proof (induction cps arbitrary: pod)
  case Nil
  then show ?case by (simp add: restore_annotations_def)
next
  case (Cons cp cps)
  obtain idx where i: "containerIndex (podContainers pod) (ccContainer cp) = Some idx"
    using Cons.prems by (cases "containerIndex (podContainers pod) (ccContainer cp)") auto
  let ?c = "podContainers pod ! idx"
  let ?a = "mput (RestoreCheckpointPathAnnotationPrefix @ ccContainer cp) (ccPath cp) (podAnnotations pod)"
  define pod1 where "pod1 = (if ctImage ?c = []
    then pod\<lparr>podAnnotations := ?a,
      podContainers := (podContainers pod)[idx := ?c\<lparr>ctImage := projr (readCheckpointBaseImage env (ccPath cp))\<rparr>]\<rparr>
    else pod\<lparr>podAnnotations := ?a\<rparr>)"
  have img: "ctImage ?c = [] \<Longrightarrow> projr (readCheckpointBaseImage env (ccPath cp)) \<noteq> []"
    using Cons.prems i readCheckpointBaseImage_nonempty [of env "ccPath cp"]
    by (auto simp: Let_def split: sum.splits)
  have step: "render_checkpoints env cps pod1 = Inr pod'"
    using Cons.prems i by (auto simp: pod1_def Let_def split: if_splits sum.splits)
  have idx: "containerIndex (podContainers pod1) n = containerIndex (podContainers pod) n" for n
    using containerIndex_image containerIndex_Some [OF i] by (simp add: pod1_def)
  have "has_image pod1 n" if h: "has_image pod n" for n
  proof -
    obtain j where j: "containerIndex (podContainers pod) n = Some j" "ctImage (podContainers pod ! j) \<noteq> []"
      using h by (auto simp: has_image_def)
    have "ctImage (podContainers pod1 ! j) \<noteq> []"
      using j img containerIndex_Some [OF i] by (cases "j = idx") (simp_all add: pod1_def)
    then show ?thesis using j(1) idx by (auto simp: has_image_def)
  qed
  moreover have "has_image pod1 (ccContainer cp)"
    using i idx img containerIndex_Some [OF i] by (auto simp: has_image_def pod1_def)
  moreover have "map_of (podAnnotations pod1) ++ map_of (rev (restore_annotations cps)) =
      map_of (podAnnotations pod) ++ map_of (rev (restore_annotations (cp # cps)))"
    by (rule ext) (auto simp: pod1_def restore_annotations_def map_add_def split: option.splits)
  moreover have "podName pod1 = podName pod" "podNamespace pod1 = podNamespace pod" "podNodeName pod1 = podNodeName pod"
    "podController pod1 = podController pod"
    by (simp_all add: pod1_def)
  ultimately show ?case using Cons.IH [OF step] by auto
qed

text \<open>The pods a PodRestore may create.\<close>

definition allowed_pod :: "PodRestoreReconciler \<Rightarrow> PodRestore \<Rightarrow> Pod \<Rightarrow> bool" where
  "allowed_pod r pr pod \<longleftrightarrow>
     podName pod = prName pr \<and> podNamespace pod = prNamespace pr \<and>
     podNodeName pod = prTargetNode (prSpec pr) \<and> podController pod = Some (prUID pr) \<and>
     (\<forall>k p. map_of (podAnnotations pod) k = Some p \<and> HasPrefix k RestoreCheckpointPathAnnotationPrefix \<longrightarrow>
        (\<exists>cp \<in> set (prCheckpoints (prSpec pr)).
           k = RestoreCheckpointPathAnnotationPrefix @ ccContainer cp \<and> p = ccPath cp \<and> checkpoint_ok r pr cp)) \<and>
     (\<forall>cp \<in> set (prCheckpoints (prSpec pr)). has_image pod (ccContainer cp))"

lemma renderPod_fields:
  assumes "renderPod env pr = Inr pod"
  shows "podName pod = prName pr \<and> podNamespace pod = prNamespace pr \<and>
    podNodeName pod = prTargetNode (prSpec pr) \<and> podController pod = Some (prUID pr) \<and>
    map_of (podAnnotations pod) = map_of (ptAnnotations (prTemplate (prSpec pr))) ++
      map_of (rev (restore_annotations (prCheckpoints (prSpec pr)))) \<and>
    (\<forall>cp \<in> set (prCheckpoints (prSpec pr)). has_image pod (ccContainer cp))"
proof -
  define pod0 where "pod0 = \<lparr>podName = prName pr, podNamespace = prNamespace pr,
    podLabels = mput podRestoreLabel (prName pr) (ptLabels (prTemplate (prSpec pr))),
    podAnnotations = ptAnnotations (prTemplate (prSpec pr)), podController = None, podDeletionTimestamp = None,
    podNodeName = prTargetNode (prSpec pr), podContainers = ptContainers (prTemplate (prSpec pr)),
    podPhase = [], podReason = [], podMessage = [], podConditions = []\<rparr>"
  obtain pod1 where p1: "render_checkpoints env (prCheckpoints (prSpec pr)) pod0 = Inr pod1"
    and p2: "SetControllerReference (reSchemeError env) pr pod1 = Inr pod"
    using assms by (auto simp: renderPod_def pod0_def Let_def split: sum.splits)
  have f: "podName pod0 = prName pr" "podNamespace pod0 = prNamespace pr" "podNodeName pod0 = prTargetNode (prSpec pr)"
    "podController pod0 = None" "podAnnotations pod0 = ptAnnotations (prTemplate (prSpec pr))"
    by (simp_all add: pod0_def)
  note r = render_checkpoints_pod [OF p1, unfolded f]
  have "pod = pod1\<lparr>podController := Some (prUID pr)\<rparr>"
    using p2 r by (auto simp: SetControllerReference_def split: if_splits option.splits)
  then show ?thesis using r by (simp add: has_image_def)
qed

lemma renderPod_allowed:
  assumes "validateSpec r pr = None" "renderPod env pr = Inr pod"
  shows "allowed_pod r pr pod"
proof -
  note f = renderPod_fields [OF assms(2)]
  have "\<exists>cp \<in> set (prCheckpoints (prSpec pr)).
      k = RestoreCheckpointPathAnnotationPrefix @ ccContainer cp \<and> p = ccPath cp \<and> checkpoint_ok r pr cp"
    if "map_of (podAnnotations pod) k = Some p" "HasPrefix k RestoreCheckpointPathAnnotationPrefix" for k p
  proof -
    have "map_of (ptAnnotations (prTemplate (prSpec pr))) k = None"
      using assms(1) that(2) unfolding validateSpec_None by (metis map_of_eq_None_iff set_map)
    then have "map_of (rev (restore_annotations (prCheckpoints (prSpec pr)))) k = Some p"
      using that(1) f by (auto simp: map_add_def split: option.splits)
    then have "(k, p) \<in> set (restore_annotations (prCheckpoints (prSpec pr)))"
      using map_of_SomeD by fastforce
    then show ?thesis using assms(1) unfolding validateSpec_None by (auto simp: restore_annotations_def)
  qed
  then show ?thesis using f by (simp add: allowed_pod_def)
qed

subsection \<open>Calls that are not made\<close>

text \<open>Replacing a call where it is not made changes nothing.\<close>

lemma other_create [simp]:
  "saveStatus (env\<lparr>reCreatePod := create\<rparr>) = saveStatus env"
  "report_pod (env\<lparr>reCreatePod := create\<rparr>) = report_pod env"
  "renderPod (env\<lparr>reCreatePod := create\<rparr>) = renderPod env"
proof -
  show s: "saveStatus (env\<lparr>reCreatePod := create\<rparr>) = saveStatus env"
    by (intro ext) (simp add: saveStatus_def)
  show "report_pod (env\<lparr>reCreatePod := create\<rparr>) = report_pod env"
    by (intro ext) (simp add: report_pod_def s Let_def)
  have "render_checkpoints (env\<lparr>reCreatePod := create\<rparr>) cps pod = render_checkpoints env cps pod" for cps pod
    by (induction cps arbitrary: pod)
       (simp_all add: readCheckpointBaseImage_def Let_def split: option.splits sum.splits)
  then show "renderPod (env\<lparr>reCreatePod := create\<rparr>) = renderPod env"
    by (intro ext) (simp add: renderPod_def Let_def split: sum.split)
qed

lemma ensure_other_create:
  assumes "\<And>pod v. renderPod env pr = Inr pod \<Longrightarrow> create pod v = reCreatePod env pod v"
  shows "ensure_pod (env\<lparr>reCreatePod := create\<rparr>) pr before w = ensure_pod env pr before w"
  using assms by (auto simp: ensure_pod_def split: prod.splits sum.splits)

lemma report_pins_spec [simp]:
  "prSpec (report_pins now b pr) = prSpec pr" "prName (report_pins now b pr) = prName pr"
  "prNamespace (report_pins now b pr) = prNamespace pr" "prUID (report_pins now b pr) = prUID pr"
  by (simp_all add: report_pins_def setPinned_def restore_condition_def)

lemma renderPod_report_pins [simp]: "renderPod env (report_pins now b pr) = renderPod env pr"
proof -
  have c: "SetControllerReference e (report_pins now b pr) pod = SetControllerReference e pr pod" for e pod
    unfolding SetControllerReference_def report_pins_spec ..
  show ?thesis unfolding renderPod_def report_pins_spec c ..
qed

lemma reconcile_other_create:
  assumes "reGet env ns name w = (Inr pr, w1)"
    "\<And>pod v. allowed_pod r pr pod \<Longrightarrow> create pod v = reCreatePod env pod v"
  shows "Reconcile_restore (env\<lparr>reCreatePod := create\<rparr>) r codec ns name w fs =
    Reconcile_restore env r codec ns name w fs"
proof -
  have "restore_checked (env\<lparr>reCreatePod := create\<rparr>) codec pr v f = restore_checked env codec pr v f"
    if ok: "validateSpec r pr = None" for v f
  proof -
    have "ensure_pod (env\<lparr>reCreatePod := create\<rparr>) (report_pins now b pr) before v =
        ensure_pod env (report_pins now b pr) before v" for now b before v
      using assms(2) renderPod_allowed [OF ok, of env] by (intro ensure_other_create) simp
    then show ?thesis by (simp add: restore_checked_def split: prod.split sum.split)
  qed
  then show ?thesis using assms(1)
    by (simp add: Reconcile_restore_def split: option.split)
qed

text \<open>Whether a status says that the restore is done.\<close>

definition reports_ready :: "PodRestore \<Rightarrow> bool" where
  "reports_ready pr \<longleftrightarrow>
     (\<exists>c. FindStatusCondition (prConditions (prStatus pr)) ConditionReady = Some c \<and> cStatus c = ConditionTrue)"

definition restored_pod :: "PodRestore \<Rightarrow> Pod \<Rightarrow> bool" where
  "restored_pod pr pod \<longleftrightarrow> IsControlledBy pod pr \<and> podPhase pod \<in> {PodRunning, PodSucceeded}"

lemma condition_status_differ [simp]: "ConditionTrue \<noteq> ConditionFalse" "ConditionFalse \<noteq> ConditionTrue"
  by (simp_all add: ConditionTrue_def ConditionFalse_def)

lemma not_ready_setReady: "\<not> reports_ready (setReady now ConditionFalse reason message pr)"
proof -
  let ?new = "\<lparr>cType = ConditionReady, cStatus = ConditionFalse, cObservedGeneration = prGeneration pr,
    cLastTransitionTime = 0, cReason = reason, cMessage = message\<rparr>"
  show ?thesis
    using FindStatusCondition_set [of now "prConditions (prStatus pr)" ?new]
    by (auto simp: reports_ready_def setReady_def restore_condition_def)
qed

lemma save_other_update:
  assumes "\<And>d v. \<not> reports_ready d \<Longrightarrow> upd d v = reUpdateStatus env d v"
  shows "saveStatus (env\<lparr>reUpdateStatus := upd\<rparr>) (setReady now ConditionFalse reason message pr) before res w =
    saveStatus env (setReady now ConditionFalse reason message pr) before res w"
  using not_ready_setReady [of now reason message pr]
  by (simp add: saveStatus_def Let_def reports_ready_def assms)

lemma report_other_update:
  assumes "\<And>d v. \<not> reports_ready d \<Longrightarrow> upd d v = reUpdateStatus env d v" "\<not> restored_pod pr pod"
  shows "report_pod (env\<lparr>reUpdateStatus := upd\<rparr>) pr before pod w = report_pod env pr before pod w"
  using assms(2) save_other_update [OF assms(1)]
  by (auto simp: report_pod_def restored_pod_def IsControlledBy_def Let_def)

lemma render_other_update [simp]: "renderPod (env\<lparr>reUpdateStatus := upd\<rparr>) = renderPod env"
proof -
  have "render_checkpoints (env\<lparr>reUpdateStatus := upd\<rparr>) cps pod = render_checkpoints env cps pod" for cps pod
    by (induction cps arbitrary: pod)
       (simp_all add: readCheckpointBaseImage_def Let_def split: option.splits sum.splits)
  then show ?thesis by (intro ext) (simp add: renderPod_def Let_def split: sum.split)
qed

lemma ensure_other_update:
  assumes "\<And>d v. \<not> reports_ready d \<Longrightarrow> upd d v = reUpdateStatus env d v"
    "\<And>a b v p v'. reGetPod env a b v = (Inr p, v') \<Longrightarrow> \<not> restored_pod pr p"
    "\<And>q v p v'. reCreatePod env q v = (Inr p, v') \<Longrightarrow> \<not> restored_pod pr p"
  shows "ensure_pod (env\<lparr>reUpdateStatus := upd\<rparr>) pr before w = ensure_pod env pr before w"
  using assms(2,3)
  by (auto simp: ensure_pod_def save_other_update [OF assms(1)] report_other_update [OF assms(1)]
      split: prod.splits sum.splits)

lemma reconcile_other_update:
  assumes "reGet env ns name w = (Inr pr, w1)"
    "\<And>a b v p v'. reGetPod env a b v = (Inr p, v') \<Longrightarrow> \<not> restored_pod pr p"
    "\<And>q v p v'. reCreatePod env q v = (Inr p, v') \<Longrightarrow> \<not> restored_pod pr p"
    "\<And>d v. \<not> reports_ready d \<Longrightarrow> upd d v = reUpdateStatus env d v"
  shows "Reconcile_restore (env\<lparr>reUpdateStatus := upd\<rparr>) r codec ns name w fs =
    Reconcile_restore env r codec ns name w fs"
proof -
  have "ensure_pod (env\<lparr>reUpdateStatus := upd\<rparr>) (report_pins now b pr) before v =
      ensure_pod env (report_pins now b pr) before v" for now b before v
    using assms(2,3) by (intro ensure_other_update [OF assms(4)]) (simp_all add: restored_pod_def IsControlledBy_def)
  then have "restore_checked (env\<lparr>reUpdateStatus := upd\<rparr>) codec pr v f = restore_checked env codec pr v f" for v f
    by (simp add: restore_checked_def save_other_update [OF assms(4)] split: prod.split sum.split)
  then show ?thesis using assms(1)
    by (simp add: Reconcile_restore_def save_other_update [OF assms(4)] split: option.split)
qed

subsection \<open>Pins of a restore\<close>

lemma pin_state_other:
  assumes "q \<noteq> path"
  shows "pin_state codec (snd (pinCheckpoint codec path owner fs)) q = pin_state codec fs q"
    "pin_state codec (unpinCheckpoint codec path owner fs) q = pin_state codec fs q"
  using assms marker_apart(3) [of q path]
  by (simp_all add: pin_state_def pinCheckpoint_frame unpinCheckpoint_frame)

lemma pin_all_Cons:
  "snd (pin_all codec owner (cp # cps) fs) =
     snd (pin_all codec owner cps (snd (pinCheckpoint codec (ccPath cp) owner fs)))"
  by (simp split: prod.splits)

lemma pin_all_frame:
  "HasSuffix q ''.tar'' \<Longrightarrow> fs_lookup (snd (pin_all codec owner cps fs)) q = fs_lookup fs q"
  "q \<notin> ccPath ` set cps \<Longrightarrow> pin_state codec (snd (pin_all codec owner cps fs)) q = pin_state codec fs q"
  by (induction cps arbitrary: fs)
     (simp_all add: pin_all_Cons pin_state_other pinCheckpoint_frame marker_apart(1,2) del: pin_all.simps(2))

lemma pin_all_faults: "same_faults fs (snd (pin_all codec owner cps fs))"
proof (induction cps arbitrary: fs)
  case (Cons cp cps)
  show ?case unfolding pin_all_Cons by (rule same_faults_trans [OF pinCheckpoint_frame(2) Cons.IH])
qed simp

text \<open>With no failing call, a pin is refused exactly if the archive is not there.\<close>

lemma pin_iff: "pin_calls_ok fs path \<Longrightarrow> fst (pinCheckpoint codec path owner fs) \<longleftrightarrow> fs_lookup fs path \<noteq> None"
  using pin_succeeds [of fs path codec owner]
  by (auto simp: pinCheckpoint_def os_Stat_def pin_calls_ok_def split: option.splits)

lemma pin_all_iff:
  assumes "\<forall>cp \<in> set cps. HasSuffix (ccPath cp) ''.tar'' \<and> pin_calls_ok fs (ccPath cp)"
  shows "fst (pin_all codec owner cps fs) \<longleftrightarrow> (\<forall>cp \<in> set cps. fs_lookup fs (ccPath cp) \<noteq> None)"
  using assms
proof (induction cps arbitrary: fs)
  case (Cons cp cps)
  let ?fs1 = "snd (pinCheckpoint codec (ccPath cp) owner fs)"
  have "pin_calls_ok ?fs1 p = pin_calls_ok fs p" for p
    by (rule pin_calls_ok_cong [OF pinCheckpoint_frame(2)])
  moreover have "fs_lookup ?fs1 p = fs_lookup fs p" if "HasSuffix p ''.tar''" for p
    using that by (simp add: pinCheckpoint_frame marker_apart(1,2))
  ultimately have "fst (pin_all codec owner cps ?fs1) \<longleftrightarrow> (\<forall>cp \<in> set cps. fs_lookup fs (ccPath cp) \<noteq> None)"
    using Cons.IH [of ?fs1] Cons.prems by auto
  then show ?case using pin_iff [of fs "ccPath cp" codec owner] Cons.prems by (auto split: prod.splits)
qed simp

lemma pinCheckpoint_True:
  "fst (pinCheckpoint codec path owner fs) \<Longrightarrow>
     pinCheckpoint codec path owner fs = pin_locked codec path owner fs \<and> fs_lookup fs path \<noteq> None"
  by (auto simp: pinCheckpoint_def os_Stat_def split: if_splits option.splits)

context marker_codec
begin

lemma held_pinCheckpoint:
  assumes "held codec path owner fs" "HasSuffix path ''.tar''"
  shows "held codec path owner (snd (pinCheckpoint codec p o' fs))"
  using held_pin [OF assms(1) marker_apart(1,2) [OF assms(2)]] assms(1)
  by (auto simp: pinCheckpoint_def split: sum.splits)

lemma held_pin_all:
  "held codec path owner fs \<Longrightarrow> HasSuffix path ''.tar'' \<Longrightarrow> held codec path owner (snd (pin_all codec o' cps fs))"
  by (induction cps arbitrary: fs) (auto simp: held_pinCheckpoint case_prod_beta)

lemma pin_all_held:
  assumes "fst (pin_all codec owner cps fs)"
    "\<forall>cp \<in> set cps. HasSuffix (ccPath cp) ''.tar'' \<and> \<not> fsStatFail fs (keep_path (ccPath cp))" "cp \<in> set cps"
  shows "held codec (ccPath cp) owner (snd (pin_all codec owner cps fs))"
  using assms
proof (induction cps arbitrary: fs)
  case (Cons c cps)
  let ?fs1 = "snd (pinCheckpoint codec (ccPath c) owner fs)"
  have r: "fst (pinCheckpoint codec (ccPath c) owner fs)" "fst (pin_all codec owner cps ?fs1)"
    using Cons.prems(1) by (simp_all add: case_prod_beta)
  have "fsStatFail ?fs1 = fsStatFail fs"
    by (rule same_faultsD(2) [OF pinCheckpoint_frame(2)])
  moreover have "held codec (ccPath c) owner ?fs1"
    using r(1) Cons.prems(2) pin_held [of "ccPath c" owner fs ?fs1] pinCheckpoint_True [OF r(1)]
    by (simp add: prod_eq_iff)
  ultimately show ?case
    using Cons.IH [of ?fs1] Cons.prems(2,3) r held_pin_all [of "ccPath c" owner ?fs1 owner cps]
    by (auto simp: pin_all_Cons simp del: pin_all.simps)
qed simp

lemma unpin_all_state:
  assumes "\<forall>cp \<in> set cps. pin_calls_ok fs (ccPath cp)"
  shows "pin_state codec (unpin_all codec owner cps fs) q =
    (if q \<in> ccPath ` set cps then abs_unpin owner (pin_state codec fs q) else pin_state codec fs q)"
  using assms
proof (induction cps arbitrary: fs)
  case (Cons cp cps)
  let ?fs1 = "unpinCheckpoint codec (ccPath cp) owner fs"
  have ok: "\<forall>cp \<in> set cps. pin_calls_ok ?fs1 (ccPath cp)"
    using Cons.prems pin_calls_ok_cong [OF unpinCheckpoint_frame(2)] by simp
  have idem: "abs_unpin owner (abs_unpin owner p) = abs_unpin owner p" for p
    by (cases p) auto
  have "pin_state codec ?fs1 (ccPath cp) = abs_unpin owner (pin_state codec fs (ccPath cp))"
    using Cons.prems unpin_refines(2) [of fs "ccPath cp" owner] by (simp add: pin_calls_ok_def)
  then show ?case using Cons.IH [OF ok] pin_state_other(2) [of q "ccPath cp"] idem
    by (cases "q = ccPath cp") auto
qed simp

end

subsection \<open>The API server\<close>

text \<open>
  What the reconciler relies on: reads are current, a status update has the outcomes of a
  write of the status alone, and reading nodes and pods or creating a pod does not change the
  PodRestore.
\<close>

locale restore_store =
  fixes env :: "'w RestoreEnv" and stored :: "'w \<Rightarrow> PodRestore option" and ns name :: string
  assumes get_stored: "reGet env ns name w = (x, w') \<Longrightarrow> stored w' = stored w"
    and get_result: "reGet env ns name w = (Inr pr, w') \<Longrightarrow> stored w = Some pr"
    and get_missing: "reGet env ns name w = (Inl err, w') \<Longrightarrow> IsNotFound err \<Longrightarrow> stored w = None"
    and stored_key: "stored w = Some pr \<Longrightarrow> prNamespace pr = ns \<and> prName pr = name"
    and update_stored: "reUpdateStatus env d w = (e, w') \<Longrightarrow> stored w = Some pr \<Longrightarrow>
      prNamespace d = ns \<Longrightarrow> prName d = name \<Longrightarrow> write_outcome e pr (pr\<lparr>prStatus := prStatus d\<rparr>) (stored w')"
    and node_stored: "stored (snd (reGetNode env n w)) = stored w"
    and pod_stored: "stored (snd (reGetPod env a b w)) = stored w"
    and create_stored: "stored (snd (reCreatePod env pod w)) = stored w"
begin

lemma save_stored:
  assumes "stored w = Some pr" "prNamespace d = ns" "prName d = name" "saveStatus env d (prStatus pr) res w = (x, w')"
  shows "\<exists>st. stored w' = Some (pr\<lparr>prStatus := st\<rparr>) \<and>
    (isl x \<or> x = Inr res \<and> st = (prStatus d)\<lparr>prObservedGeneration := prGeneration d\<rparr>)"
proof (cases "prStatus pr = (prStatus d)\<lparr>prObservedGeneration := prGeneration d\<rparr>")
  case True
  then show ?thesis using assms(1,4) by (auto simp: saveStatus_def Let_def intro!: exI [of _ "prStatus pr"])
next
  case False
  let ?d = "d\<lparr>prStatus := (prStatus d)\<lparr>prObservedGeneration := prGeneration d\<rparr>\<rparr>"
  obtain e w1 where u: "reUpdateStatus env ?d w = (e, w1)" by fastforce
  have "write_outcome e pr (pr\<lparr>prStatus := prStatus ?d\<rparr>) (stored w1)"
    using update_stored [OF u assms(1)] assms(2,3) by simp
  moreover have "w' = w1 \<and> x = (case e of None \<Rightarrow> Inr res | Some err \<Rightarrow> Inl err)"
    using assms(4) False u by (auto simp: saveStatus_def Let_def split: option.splits)
  moreover have "\<exists>st. pr = pr\<lparr>prStatus := st\<rparr>" by (rule exI [of _ "prStatus pr"]) simp
  ultimately show ?thesis
    by (cases e) (auto simp: write_outcome_def split: if_splits)
qed

end

text \<open>What \<open>report_pod\<close> writes: the pod's name if it is ours, and a verdict.\<close>

definition adopt :: "Pod \<Rightarrow> PodRestore \<Rightarrow> PodRestore" where
  "adopt pod pr = (if IsControlledBy pod pr then pr\<lparr>prStatus := (prStatus pr)\<lparr>prPodName := podName pod\<rparr>\<rparr> else pr)"

definition verdict :: "'w RestoreEnv \<Rightarrow> bool \<Rightarrow> Pod \<Rightarrow> string \<times> string \<times> string \<times> Result" where
  "verdict env ours pod =
     (if \<not> ours then (ConditionFalse, ''PodConflict'', reText env (PodTaken (podName pod)), no_requeue)
      else if podPhase pod = PodRunning \<or> podPhase pod = PodSucceeded
      then (ConditionTrue, ''Restored'', ''Restored Pod is running'', no_requeue)
      else if podPhase pod = PodFailed
      then (ConditionFalse, ''PodFailed'',
        (if podReason pod = [] then ''the restore Pod entered the Failed phase'' else podReason pod), no_requeue)
      else (ConditionFalse, ''Restoring'', ''Restore Pod is not yet running'', requeue_after (3 * second)))"

lemma report_pod_eq:
  "report_pod env pr before pod w =
     (case verdict env (IsControlledBy pod pr) pod of
        (st, reason, message, res) \<Rightarrow>
          saveStatus env (setReady (reNow env w) st reason message (adopt pod pr)) before res w)"
  by (simp add: report_pod_def verdict_def adopt_def Let_def)

lemma condition_fields [simp]:
  "prNamespace (setReady now st reason message pr) = prNamespace pr"
  "prName (setReady now st reason message pr) = prName pr"
  "prSpec (setReady now st reason message pr) = prSpec pr"
  "prGeneration (setReady now st reason message pr) = prGeneration pr"
  "prPodName (prStatus (setReady now st reason message pr)) = prPodName (prStatus pr)"
  "prGeneration (report_pins now b pr) = prGeneration pr"
  "prPodName (prStatus (report_pins now b pr)) = prPodName (prStatus pr)"
  "prNamespace (adopt pod pr) = prNamespace pr" "prName (adopt pod pr) = prName pr"
  "prGeneration (adopt pod pr) = prGeneration pr"
  "prConditions (prStatus (adopt pod pr)) = prConditions (prStatus pr)"
  "prPodName (prStatus (adopt pod pr)) = (if IsControlledBy pod pr then podName pod else prPodName (prStatus pr))"
  by (simp_all add: setReady_def restore_condition_def report_pins_def setPinned_def adopt_def)

context restore_store
begin

lemma pod_eq: "reGetPod env a b w = (x, w') \<Longrightarrow> stored w' = stored w"
  using pod_stored [of a b w] by simp

lemma create_eq: "reCreatePod env pod w = (x, w') \<Longrightarrow> stored w' = stored w"
  using create_stored [of pod w] by simp

lemma node_eq: "reGetNode env n w = (x, w') \<Longrightarrow> stored w' = stored w"
  using node_stored [of n w] by simp

lemma save_keeps:
  "stored w = Some pr \<Longrightarrow> prNamespace d = ns \<Longrightarrow> prName d = name \<Longrightarrow>
     \<exists>st. stored (snd (saveStatus env d (prStatus pr) res w)) = Some (pr\<lparr>prStatus := st\<rparr>)"
  using save_stored [of w pr d res] by (metis prod.collapse)

lemma report_keeps:
  assumes "stored w = Some pr" "prNamespace d = ns" "prName d = name"
  shows "\<exists>st. stored (snd (report_pod env d (prStatus pr) pod w)) = Some (pr\<lparr>prStatus := st\<rparr>)"
  using save_keeps [OF assms(1)] assms(2,3) by (auto simp: report_pod_eq split: prod.splits)

lemma ensure_keeps:
  assumes "stored w = Some pr" "prNamespace d = ns" "prName d = name"
  shows "\<exists>st. stored (snd (ensure_pod env d (prStatus pr) w)) = Some (pr\<lparr>prStatus := st\<rparr>)"
proof -
  have p: "\<exists>st. pr = pr\<lparr>prStatus := st\<rparr>" by (rule exI [of _ "prStatus pr"]) simp
  obtain x w1 where x: "reGetPod env (prNamespace d) (prName d) w = (x, w1)" by fastforce
  have s1: "stored w1 = Some pr" using pod_eq [OF x] assms(1) by simp
  show ?thesis
  proof (cases "\<exists>q. x = Inl NotFound \<and> prPodName (prStatus d) = [] \<and> renderPod env d = Inr q")
    case True
    then obtain q where q: "x = Inl NotFound" "prPodName (prStatus d) = []" "renderPod env d = Inr q" by blast
    obtain y w2 where y: "reCreatePod env q w1 = (y, w2)" by fastforce
    have s2: "stored w2 = Some pr" using create_eq [OF y] s1 by simp
    obtain z w3 where z: "reGetPod env (podNamespace q) (podName q) w2 = (z, w3)" by fastforce
    have s3: "stored w3 = Some pr" using pod_eq [OF z] s2 by simp
    show ?thesis using x q y z s2 s3 report_keeps [OF s2 assms(2,3)] report_keeps [OF s3 assms(2,3)] p
      by (auto simp: ensure_pod_def IsNotFound_def split: sum.splits)
  next
    case False
    then show ?thesis using x s1 report_keeps [OF s1 assms(2,3)] save_keeps [OF s1] assms(2,3) p
      by (auto simp: ensure_pod_def IsNotFound_def split: sum.splits)
  qed
qed

lemma checked_keeps:
  assumes "stored w = Some pr" "restore_checked env codec pr w fs = (x, w', fs')"
  shows "(\<exists>st. stored w' = Some (pr\<lparr>prStatus := st\<rparr>)) \<and>
    fs' \<in> {fs, snd (pin_all codec (podRestoreOwnerKey pr) (prCheckpoints (prSpec pr)) fs)}"
proof -
  have p: "\<exists>st. pr = pr\<lparr>prStatus := st\<rparr>" by (rule exI [of _ "prStatus pr"]) simp
  obtain y w1 where y: "reGetNode env (prTargetNode (prSpec pr)) w = (y, w1)" by fastforce
  have s1: "stored w1 = Some pr" using node_eq [OF y] assms(1) by simp
  have k: "prNamespace pr = ns" "prName pr = name" using stored_key [OF assms(1)] by auto
  have e: "\<exists>st. stored (snd (ensure_pod env (report_pins now b pr) (prStatus pr) w1)) = Some (pr\<lparr>prStatus := st\<rparr>)" for now b
    by (rule ensure_keeps [OF s1]) (simp_all add: k)
  have s: "\<exists>st. stored (snd (saveStatus env (setReady now c reason message pr) (prStatus pr) res w1)) =
      Some (pr\<lparr>prStatus := st\<rparr>)" for now c reason message res
    by (rule save_keeps [OF s1]) (simp_all add: k)
  show ?thesis using assms(2) y s1 p e s
    by (cases y) (auto simp: restore_checked_def case_prod_beta split: if_splits)
qed

end

subsection \<open>No leaked pins\<close>

text \<open>Every archive whose marker lists the restore is one of its checkpoints, and it still has its finalizer.\<close>

definition pins_accounted ::
  "MarkerCodec \<Rightarrow> string \<Rightarrow> PodRestore option \<Rightarrow> FS \<Rightarrow> bool" where
  "pins_accounted codec owner s fs \<longleftrightarrow>
     (\<forall>path S. pin_state codec fs path = ManagedPin S \<longrightarrow> owner \<in> S \<longrightarrow>
        (\<exists>pr. s = Some pr \<and> podRestoreFinalizer \<in> set (prFinalizers pr) \<and>
           path \<in> ccPath ` set (prCheckpoints (prSpec pr))))"

lemma pins_accounted_pin:
  assumes "pins_accounted codec owner (Some pr) fs" "podRestoreFinalizer \<in> set (prFinalizers pr)"
    "fs' \<in> {fs, snd (pin_all codec o' (prCheckpoints (prSpec pr)) fs)}"
  shows "pins_accounted codec owner (Some (pr\<lparr>prStatus := st\<rparr>)) fs'"
  using assms pin_all_frame(2) [of _ "prCheckpoints (prSpec pr)" codec o' fs]
  unfolding pins_accounted_def by fastforce

lemma abs_unpin_owner: "abs_unpin owner p = ManagedPin S \<Longrightarrow> owner \<notin> S"
  by (cases p) (auto split: if_splits)

locale restore_pins = restore_store env stored ns name + marker_codec codec
  for env :: "'w RestoreEnv" and stored ns name codec
begin

lemma unpin_all_accounted:
  assumes "pins_accounted codec owner (Some pr) fs"
    "\<forall>cp \<in> set (prCheckpoints (prSpec pr)). pin_calls_ok fs (ccPath cp)"
  shows "pins_accounted codec owner s (unpin_all codec owner (prCheckpoints (prSpec pr)) fs)"
  using assms(1) unpin_all_state [OF assms(2), of owner] abs_unpin_owner
  unfolding pins_accounted_def by (metis option.inject)

text \<open>A PodRestore that is kept with its finalizer changes in its status only, and pins at most.\<close>

lemma reconcile_flight:
  assumes "stored w = Some pr" "Reconcile_restore env r codec ns name w fs = (x, w', fs')"
    "prDeletionTimestamp pr = None" "podRestoreFinalizer \<in> set (prFinalizers pr)"
  shows "(\<exists>st. stored w' = Some (pr\<lparr>prStatus := st\<rparr>)) \<and>
    fs' \<in> {fs, snd (pin_all codec (podRestoreOwnerKey pr) (prCheckpoints (prSpec pr)) fs)}"
proof -
  obtain y w1 where y: "reGet env ns name w = (y, w1)" by fastforce
  have s1: "stored w1 = Some pr" using get_stored [OF y] assms(1) by simp
  have k: "prNamespace pr = ns" "prName pr = name" using stored_key [OF assms(1)] by auto
  show ?thesis
  proof (cases y)
    case (Inl e)
    then show ?thesis using assms(2) y s1 by (auto simp: Reconcile_restore_def intro: exI [of _ "prStatus pr"])
  next
    case (Inr d)
    have d: "d = pr" using get_result y Inr assms(1) by fastforce
    show ?thesis
    proof (cases "validateSpec r pr")
      case None
      then show ?thesis using checked_keeps [OF s1] assms(2-4) y Inr d by (auto simp: Reconcile_restore_def)
    next
      case (Some e)
      have "\<exists>st. stored (snd (saveStatus env (setReady now c reason message pr) (prStatus pr) res w1)) =
          Some (pr\<lparr>prStatus := st\<rparr>)" for now c reason message res
        by (rule save_keeps [OF s1]) (simp_all add: k)
      then show ?thesis using assms(2-4) y Inr d Some
        by (auto simp: Reconcile_restore_def case_prod_beta)
    qed
  qed
qed

lemma reconcile_accounts:
  assumes "stored w = Some pr" "Reconcile_restore env r codec ns name w fs = (x, w', fs')"
    "pins_accounted codec (podRestoreOwnerKey pr) (stored w) fs"
    "\<forall>cp \<in> set (prCheckpoints (prSpec pr)). pin_calls_ok fs (ccPath cp)"
  shows "pins_accounted codec (podRestoreOwnerKey pr) (stored w') fs'"
proof -
  let ?o = "podRestoreOwnerKey pr"
  obtain y w1 where y: "reGet env ns name w = (y, w1)" by fastforce
  have acc: "pins_accounted codec ?o (Some pr) fs" using assms(1,3) by simp
  consider (failed) e where "y = Inl e"
    | (unpin) "y = Inr pr" "prDeletionTimestamp pr \<noteq> None" "podRestoreFinalizer \<in> set (prFinalizers pr)"
    | (unowned) "y = Inr pr" "podRestoreFinalizer \<notin> set (prFinalizers pr)"
    | (flight) "prDeletionTimestamp pr = None" "podRestoreFinalizer \<in> set (prFinalizers pr)"
    using get_result y assms(1) by (cases y) fastforce+
  then show ?thesis
  proof cases
    case failed
    then show ?thesis using assms(1,2) y get_stored [OF y] acc by (auto simp: Reconcile_restore_def)
  next
    case unpin
    then have "fs' = unpin_all codec ?o (prCheckpoints (prSpec pr)) fs"
      using assms(2) y by (auto simp: Reconcile_restore_def Let_def split: prod.splits)
    then show ?thesis using unpin_all_accounted [OF acc assms(4)] by simp
  next
    case unowned
    then have "fs' = fs" using assms(2) y by (auto simp: Reconcile_restore_def split: prod.splits if_splits)
    then show ?thesis using acc unowned(2) unfolding pins_accounted_def by blast
  next
    case flight
    then obtain st where "stored w' = Some (pr\<lparr>prStatus := st\<rparr>)"
      "fs' \<in> {fs, snd (pin_all codec ?o (prCheckpoints (prSpec pr)) fs)}"
      using reconcile_flight [OF assms(1,2)] by blast
    then show ?thesis using pins_accounted_pin [OF acc flight(2)] by simp
  qed
qed

end

subsection \<open>The steady state\<close>

text \<open>Setting a condition that is already there as it should be changes nothing.\<close>

lemma SetStatusCondition_noop:
  assumes "FindStatusCondition cs (cType new) = Some c" "cStatus c = cStatus new" "cReason c = cReason new"
    "cMessage c = cMessage new" "cObservedGeneration c = cObservedGeneration new"
  shows "SetStatusCondition now cs new = cs"
  using assms by (induction cs) (auto split: if_splits)

lemma condition_kinds [simp]:
  "ConditionReady \<noteq> ConditionCheckpointsPinned" "ConditionCheckpointsPinned \<noteq> ConditionReady"
  by (simp_all add: ConditionReady_def ConditionCheckpointsPinned_def)

text \<open>The status that a pass with the pod at hand arrives at.\<close>

definition settled :: "'w RestoreEnv \<Rightarrow> time \<Rightarrow> time \<Rightarrow> bool \<Rightarrow> Pod \<Rightarrow> PodRestore \<Rightarrow> PodRestore" where
  "settled env now1 now2 b pod pr =
     (case verdict env (IsControlledBy pod pr) pod of
        (st, reason, message, res) \<Rightarrow>
          setReady now2 st reason message (adopt pod (report_pins now1 b pr)))"

lemma IsControlledBy_report [simp]:
  "IsControlledBy pod (report_pins now b pr) = IsControlledBy pod pr"
  "IsControlledBy pod (pr\<lparr>prStatus := s\<rparr>) = IsControlledBy pod pr"
  by (simp_all add: IsControlledBy_def)

lemma settled_steady:
  fixes env :: "'w RestoreEnv" and pr :: PodRestore and pod :: Pod and now1 now2 :: time and b :: bool
  defines "s1 \<equiv> (prStatus (settled env now1 now2 b pod pr))\<lparr>prObservedGeneration := prGeneration pr\<rparr>"
  shows "(prStatus (settled env now3 now4 b pod (pr\<lparr>prStatus := s1\<rparr>)))\<lparr>prObservedGeneration := prGeneration pr\<rparr> = s1"
proof -
  obtain st reason message res where v: "verdict env (IsControlledBy pod pr) pod = (st, reason, message, res)"
    using prod_cases4 by blast
  define R where "R = \<lparr>cType = ConditionReady, cStatus = st, cObservedGeneration = prGeneration pr,
    cLastTransitionTime = 0, cReason = reason, cMessage = message\<rparr>"
  define P where "P = \<lparr>cType = ConditionCheckpointsPinned, cStatus = (if b then ConditionTrue else ConditionFalse),
    cObservedGeneration = prGeneration pr, cLastTransitionTime = 0,
    cReason = (if b then ''Pinned'' else ''PinNotEnforced''),
    cMessage = (if b then pinned_message else not_pinned_message (prTargetNode (prSpec pr)))\<rparr>"
  have conds: "prConditions (prStatus (settled env n1 n2 b pod (pr\<lparr>prStatus := s\<rparr>))) =
      SetStatusCondition n2 (SetStatusCondition n1 (prConditions s) P) R" for n1 n2 s
    using v by (simp add: settled_def setReady_def restore_condition_def report_pins_def setPinned_def P_def R_def)
  have name: "prPodName (prStatus (settled env n1 n2 b pod (pr\<lparr>prStatus := s\<rparr>))) =
      (if IsControlledBy pod pr then podName pod else prPodName s)" for n1 n2 s
    using v by (simp add: settled_def)
  let ?cs = "SetStatusCondition now2 (SetStatusCondition now1 (prConditions (prStatus pr)) P) R"
  have s1: "prConditions s1 = ?cs" using conds [of now1 now2 "prStatus pr"] by (simp add: s1_def)
  have "cType P \<noteq> cType R" by (simp add: P_def R_def)
  then have "\<exists>c. FindStatusCondition ?cs (cType P) = Some c \<and> cStatus c = cStatus P \<and> cReason c = cReason P \<and>
      cMessage c = cMessage P \<and> cObservedGeneration c = cObservedGeneration P"
    using FindStatusCondition_set [of now1 "prConditions (prStatus pr)" P] by auto
  then have p: "SetStatusCondition now3 ?cs P = ?cs" using SetStatusCondition_noop by blast
  have r: "SetStatusCondition now4 ?cs R = ?cs" by (rule SetStatusCondition_idem)
  have "prPodName s1 = (if IsControlledBy pod pr then podName pod else prPodName (prStatus pr))"
    using name [of now1 now2 "prStatus pr"] by (simp add: s1_def)
  moreover have "prObservedGeneration s1 = prGeneration pr" by (simp add: s1_def)
  ultimately show ?thesis using conds [of now3 now4 s1] name [of now3 now4 s1] s1 p r
    by (intro PodRestoreStatus.equality) (simp_all add: s1_def [symmetric])
qed

text \<open>A cluster in which the node and the pod of the restore are there and do not change.\<close>

definition quiet ::
  "'w RestoreEnv \<Rightarrow> ('w \<Rightarrow> PodRestore option) \<Rightarrow> string \<Rightarrow> string \<Rightarrow> string \<Rightarrow> Pod \<Rightarrow> bool" where
  "quiet env stored ns name node pod \<longleftrightarrow>
     (\<forall>v. (\<exists>n. reGetNode env node v = (Inr n, v)) \<and> reGetPod env ns name v = (Inr pod, v) \<and>
        (\<forall>pr. stored v = Some pr \<longrightarrow> reGet env ns name v = (Inr pr, v)))"

text \<open>A restore that is under way.\<close>

definition under_way :: "PodRestoreReconciler \<Rightarrow> PodRestore \<Rightarrow> bool" where
  "under_way r pr \<longleftrightarrow> prDeletionTimestamp pr = None \<and> podRestoreFinalizer \<in> set (prFinalizers pr) \<and>
     validateSpec r pr = None"

context restore_store
begin

lemma quiet_pass:
  assumes "quiet env stored ns name (prTargetNode (prSpec pr)) pod" "stored w = Some pr" "under_way r pr"
    "pin_all codec (podRestoreOwnerKey pr) (prCheckpoints (prSpec pr)) fs = (b, fs')"
  shows "\<exists>res. Reconcile_restore (env\<lparr>reUpdateStatus := upd\<rparr>) r codec ns name w fs =
    (case saveStatus (env\<lparr>reUpdateStatus := upd\<rparr>) (settled env (reNow env w) (reNow env w) b pod pr) (prStatus pr) res w of
       (x, w') \<Rightarrow> (x, w', fs'))"
proof -
  obtain n where "reGetNode env (prTargetNode (prSpec pr)) w = (Inr n, w)" "reGetPod env ns name w = (Inr pod, w)"
    "reGet env ns name w = (Inr pr, w)"
    using assms(1,2) unfolding quiet_def by blast
  moreover have "prNamespace pr = ns" "prName pr = name" using stored_key [OF assms(2)] by auto
  moreover obtain st reason message res where
    "verdict env (IsControlledBy pod pr) pod = (st, reason, message, res)" using prod_cases4 by blast
  moreover have "verdict (env\<lparr>reUpdateStatus := upd\<rparr>) = verdict env" by (intro ext) (simp add: verdict_def)
  ultimately show ?thesis using assms(3,4)
    by (intro exI [of _ res])
       (simp add: Reconcile_restore_def under_way_def restore_checked_def ensure_pod_def report_pod_eq settled_def)
qed

lemma steady_no_write:
  assumes "quiet env stored ns name (prTargetNode (prSpec pr)) pod" "stored w = Some pr" "under_way r pr"
    "\<forall>cp \<in> set (prCheckpoints (prSpec pr)). pin_calls_ok fs (ccPath cp)"
    "Reconcile_restore env r codec ns name w fs = (Inr res, w', fs')" "stored v = stored w'"
  shows "\<exists>res' fs''. Reconcile_restore (env\<lparr>reUpdateStatus := upd\<rparr>) r codec ns name v fs' = (Inr res', v, fs'')"
proof -
  let ?o = "podRestoreOwnerKey pr" and ?cps = "prCheckpoints (prSpec pr)"
  obtain b fs1 where b: "pin_all codec ?o ?cps fs = (b, fs1)" by fastforce
  have ok: "\<forall>cp \<in> set ?cps. HasSuffix (ccPath cp) ''.tar'' \<and> pin_calls_ok fs (ccPath cp)"
    using assms(3,4) accepted_tar by (auto simp: under_way_def)
  obtain res1 where p: "Reconcile_restore env r codec ns name w fs =
      (case saveStatus env (settled env (reNow env w) (reNow env w) b pod pr) (prStatus pr) res1 w of (x, w') \<Rightarrow> (x, w', fs1))"
    using quiet_pass [OF assms(1-3) b, of "reUpdateStatus env"] by auto
  have fs': "fs' = fs1" and s: "saveStatus env (settled env (reNow env w) (reNow env w) b pod pr) (prStatus pr) res1 w = (Inr res, w')"
    using p assms(5) by (auto split: prod.splits)
  define s1 where "s1 = (prStatus (settled env (reNow env w) (reNow env w) b pod pr))\<lparr>prObservedGeneration := prGeneration pr\<rparr>"
  have key: "prNamespace pr = ns" "prName pr = name" using stored_key [OF assms(2)] by auto
  have st: "prNamespace (settled env n1 n2 b pod d) = prNamespace d" "prName (settled env n1 n2 b pod d) = prName d"
    "prGeneration (settled env n1 n2 b pod d) = prGeneration d" for n1 n2 d
    by (simp_all add: settled_def split: prod.split)
  have "stored w' = Some (pr\<lparr>prStatus := s1\<rparr>)"
    using save_stored [OF assms(2) _ _ s] key st by (auto simp: s1_def)
  then have v: "stored v = Some (pr\<lparr>prStatus := s1\<rparr>)" using assms(6) by simp
  obtain b' fs2 where b': "pin_all codec ?o ?cps fs1 = (b', fs2)" by fastforce
  have f: "same_faults fs fs1" "HasSuffix q ''.tar'' \<Longrightarrow> fs_lookup fs1 q = fs_lookup fs q" for q
    using pin_all_faults [of fs codec ?o ?cps] pin_all_frame(1) [of q codec ?o ?cps fs] b by auto
  have "b' = b"
    using pin_all_iff [OF ok, of codec ?o] pin_all_iff [of ?cps fs1 codec ?o] ok b b' f pin_calls_ok_cong [OF f(1)]
    by auto
  moreover have "podRestoreOwnerKey (pr\<lparr>prStatus := s1\<rparr>) = ?o" by (simp add: podRestoreOwnerKey_def)
  moreover have "under_way r (pr\<lparr>prStatus := s1\<rparr>)"
    using assms(3) by (simp add: under_way_def validateSpec_None checkpoint_ok_def)
  ultimately obtain res2 where "Reconcile_restore (env\<lparr>reUpdateStatus := upd\<rparr>) r codec ns name v fs1 =
      (case saveStatus (env\<lparr>reUpdateStatus := upd\<rparr>) (settled env (reNow env v) (reNow env v) b pod (pr\<lparr>prStatus := s1\<rparr>))
         s1 res2 v of (x, w') \<Rightarrow> (x, w', fs2))"
    using quiet_pass [of "pr\<lparr>prStatus := s1\<rparr>" pod v r codec fs1 b fs2 upd] assms(1) v b' by auto
  moreover have "(prStatus (settled env (reNow env v) (reNow env v) b pod (pr\<lparr>prStatus := s1\<rparr>)))
      \<lparr>prObservedGeneration := prGeneration pr\<rparr> = s1"
    unfolding s1_def by (rule settled_steady)
  ultimately show ?thesis using fs' st by (simp add: saveStatus_def)
qed

end

end
