(* ===== verification/Restore_Safety.thy ===== *)
theory Restore_Safety
  imports PodRestore_Controller Cri_Proxy
begin

text \<open>
  What the PodRestore controller (\<^verbatim>\<open>internal/controller/podrestore_controller.go\<close>) promises,
  alone and together with the pin markers and the CRI proxy. An in-memory API server meets the
  laws of \<open>restore_store\<close> and runs the witnesses.
\<close>

section \<open>An in-memory API server\<close>

record RestoreWorld =
  rwRestores :: "PodRestore list"
  rwNodes :: "string list"
  rwPods :: "Pod list"
  rwClock :: time

definition rw_stored :: "string \<Rightarrow> string \<Rightarrow> RestoreWorld \<Rightarrow> PodRestore option" where
  "rw_stored ns name w = find (\<lambda>pr. prNamespace pr = ns \<and> prName pr = name) (rwRestores w)"

definition rw_replace :: "PodRestore \<Rightarrow> (PodRestore \<Rightarrow> PodRestore) \<Rightarrow> RestoreWorld \<Rightarrow> RestoreWorld" where
  "rw_replace d f w =
     w\<lparr>rwRestores := map (\<lambda>pr. if prNamespace pr = prNamespace d \<and> prName pr = prName d then f pr else pr)
                       (rwRestores w)\<rparr>"

definition rw_write ::
  "PodRestore \<Rightarrow> (PodRestore \<Rightarrow> PodRestore) \<Rightarrow> RestoreWorld \<Rightarrow> ApiError option \<times> RestoreWorld" where
  "rw_write d f w =
     (if rw_stored (prNamespace d) (prName d) w = None then (Some NotFound, w) else (None, rw_replace d f w))"

definition rw_env :: "ArchiveEnv \<Rightarrow> RestoreWorld RestoreEnv" where
  "rw_env archives =
     \<lparr>reGet = (\<lambda>ns name w. (case rw_stored ns name w of None \<Rightarrow> Inl NotFound | Some pr \<Rightarrow> Inr pr, w)),
      rePatchFinalizers = (\<lambda>d. rw_write d (\<lambda>pr. pr\<lparr>prFinalizers := prFinalizers d\<rparr>)),
      reUpdateStatus = (\<lambda>d. rw_write d (\<lambda>pr. pr\<lparr>prStatus := prStatus d\<rparr>)),
      reGetNode = (\<lambda>n w. (if n \<in> set (rwNodes w) then Inr \<lparr>nodeName = n, nodeUnschedulable = False\<rparr> else Inl NotFound, w)),
      reGetPod = (\<lambda>ns name w. (case find (\<lambda>p. podNamespace p = ns \<and> podName p = name) (rwPods w) of
                              None \<Rightarrow> Inl NotFound | Some p \<Rightarrow> Inr p, w)),
      reCreatePod = (\<lambda>pod w.
        if find (\<lambda>p. podNamespace p = podNamespace pod \<and> podName p = podName pod) (rwPods w) \<noteq> None
        then (Inl AlreadyExists, w) else (Inr pod, w\<lparr>rwPods := pod # rwPods w\<rparr>)),
      reNow = rwClock, reArchive = archives, reSchemeError = None, reText = (\<lambda>e. ''message'')\<rparr>"

lemma rw_stored_replace:
  assumes "rw_stored (prNamespace d) (prName d) w = Some pr"
    "\<And>x. prNamespace (f x) = prNamespace x \<and> prName (f x) = prName x"
  shows "rw_stored (prNamespace d) (prName d) (rw_replace d f w) = Some (f pr)"
  using find_map_key [OF assms(1) [unfolded rw_stored_def],
      of "\<lambda>pr. if prNamespace pr = prNamespace d \<and> prName pr = prName d then f pr else pr"] assms
  by (auto simp: rw_stored_def rw_replace_def find_Some_iff)

interpretation rw: restore_store "rw_env archives" "rw_stored ns name" ns name for archives ns name
proof
  fix d pr :: PodRestore and w w' :: RestoreWorld and e
  assume u: "reUpdateStatus (rw_env archives) d w = (e, w')" and s: "rw_stored ns name w = Some pr"
    and k: "prNamespace d = ns" "prName d = name"
  then show "write_outcome e pr (pr\<lparr>prStatus := prStatus d\<rparr>) (rw_stored ns name w')"
    using rw_stored_replace [of d w pr "\<lambda>pr. pr\<lparr>prStatus := prStatus d\<rparr>"]
    by (auto simp: rw_env_def rw_write_def write_outcome_def split: if_splits)
qed (auto simp: rw_env_def rw_stored_def find_Some_iff split: option.splits if_splits)

interpretation rwp: restore_pins "rw_env archives" "rw_stored ns name" ns name go_json for archives ns name
  by unfold_locales

section \<open>Other owners\<close>

definition pinned_by :: "MarkerCodec \<Rightarrow> FS \<Rightarrow> string \<Rightarrow> string \<Rightarrow> bool" where
  "pinned_by codec fs path owner \<longleftrightarrow> (\<exists>S. pin_state codec fs path = ManagedPin S \<and> owner \<in> S)"

context marker_codec
begin

lemma pinned_by_pin:
  assumes "o' \<noteq> owner"
  shows "pinned_by codec (snd (pinCheckpoint codec path owner fs)) q o' = pinned_by codec fs q o'"
proof (cases "q = path")
  case True
  obtain ok fs1 where p: "pinCheckpoint codec path owner fs = (ok, fs1)" by fastforce
  show ?thesis using pin_refines [OF p] True p assms
    by (cases "pin_state codec fs path") (auto simp: pinned_by_def)
qed (simp add: pinned_by_def pin_state_other)

lemma pinned_by_unpin:
  assumes "o' \<noteq> owner"
  shows "pinned_by codec (unpinCheckpoint codec path owner fs) q o' = pinned_by codec fs q o'"
proof (cases "q = path")
  case True
  show ?thesis using unpin_refines(1) [of path owner fs] True assms
    by (cases "pin_state codec fs path") (auto simp: pinned_by_def split: if_splits)
qed (simp add: pinned_by_def pin_state_other)

lemma pinned_by_all:
  assumes "o' \<noteq> owner"
  shows "pinned_by codec (snd (pin_all codec owner cps fs)) q o' = pinned_by codec fs q o'"
    "pinned_by codec (unpin_all codec owner cps fs) q o' = pinned_by codec fs q o'"
  using pinned_by_pin [OF assms] pinned_by_unpin [OF assms]
  by (induction cps arbitrary: fs) (simp_all add: pin_all_Cons del: pin_all.simps(2))

end

lemma reconcile_markers:
  assumes "Reconcile_restore env r codec ns name w fs = (x, w', fs')" "reGet env ns name w = (Inr pr, w1)"
  shows "fs' \<in> {fs, snd (pin_all codec (podRestoreOwnerKey pr) (prCheckpoints (prSpec pr)) fs),
    unpin_all codec (podRestoreOwnerKey pr) (prCheckpoints (prSpec pr)) fs}"
proof -
  have "y \<in> {fs, snd (pin_all codec (podRestoreOwnerKey pr) (prCheckpoints (prSpec pr)) fs)}"
    if "restore_checked env codec pr w1 fs = (a, b, y)" for a b y
    using that by (auto simp: restore_checked_def case_prod_beta split: sum.splits if_splits prod.splits)
  then show ?thesis using assms
    by (auto simp: Reconcile_restore_def Let_def case_prod_beta split: if_splits option.splits)
qed

section \<open>From the PodRestore to the runtime\<close>

text \<open>
  The request the kubelet makes for a container of a pod: it passes the pod's namespace and
  annotations in the sandbox configuration.
\<close>

definition kubelet_request :: "Pod \<Rightarrow> string \<Rightarrow> smap \<Rightarrow> CreateContainerRequest" where
  "kubelet_request pod container rest =
     \<lparr>ccrPodSandboxId = ''sandbox'',
      ccrConfig = Some \<lparr>cfgMetadataName = Some container, cfgImage = None, cfgRest = rest\<rparr>,
      ccrSandboxConfig = Some \<lparr>sbNamespace = Some (podNamespace pod), sbAnnotations = podAnnotations pod\<rparr>\<rparr>"

lemma rendered_annotation:
  assumes "renderPod env pr = Inr pod" "distinct (map ccContainer (prCheckpoints (prSpec pr)))"
  shows "cp \<in> set (prCheckpoints (prSpec pr)) \<Longrightarrow>
      mget (podAnnotations pod) (RestoreCheckpointPathAnnotationPrefix @ ccContainer cp) = ccPath cp"
    "validateSpec r pr = None \<Longrightarrow> container \<notin> ccContainer ` set (prCheckpoints (prSpec pr)) \<Longrightarrow>
      mget (podAnnotations pod) (RestoreCheckpointPathAnnotationPrefix @ container) = []"
proof -
  let ?cps = "prCheckpoints (prSpec pr)"
  have d: "distinct (map fst (rev (restore_annotations ?cps)))"
    using assms(2) by (simp add: restore_annotations_def distinct_map inj_on_def rev_map [symmetric])
  have a: "map_of (podAnnotations pod) = map_of (ptAnnotations (prTemplate (prSpec pr))) ++
      map_of (rev (restore_annotations ?cps))"
    using renderPod_fields [OF assms(1)] by blast
  show "mget (podAnnotations pod) (RestoreCheckpointPathAnnotationPrefix @ ccContainer cp) = ccPath cp"
    if "cp \<in> set ?cps"
  proof -
    have "map_of (rev (restore_annotations ?cps)) (RestoreCheckpointPathAnnotationPrefix @ ccContainer cp) = Some (ccPath cp)"
      using that by (intro map_of_is_SomeI [OF d]) (auto simp: restore_annotations_def)
    then show ?thesis using a by (simp add: mget_def)
  qed
  show "mget (podAnnotations pod) (RestoreCheckpointPathAnnotationPrefix @ container) = []"
    if "validateSpec r pr = None" "container \<notin> ccContainer ` set ?cps"
  proof -
    have "allowed_pod r pr pod" by (rule renderPod_allowed [OF that(1) assms(1)])
    then show ?thesis using that(2) unfolding allowed_pod_def mget_def
      by (fastforce simp: HasPrefix_def split: option.splits)
  qed
qed

section \<open>Properties\<close>

subsection \<open>A concrete restore\<close>

definition ex_path :: string where
  "ex_path = ''/var/lib/kubelet/checkpoints/checkpoint-p_team-app-1.tar''"

definition ex_restore :: PodRestore where
  "ex_restore =
     \<lparr>prName = ''r'', prNamespace = ''team'', prUID = ''u1'', prGeneration = 1,
      prFinalizers = [podRestoreFinalizer], prDeletionTimestamp = None,
      prSpec = \<lparr>prTargetNode = ''n1'', prCheckpoints = [\<lparr>ccContainer = ''app'', ccPath = ex_path\<rparr>],
        prTemplate = \<lparr>ptAnnotations = [(''a'', ''b'')], ptLabels = [],
          ptContainers = [\<lparr>ctName = ''app'', ctImage = ''img'', ctLimits = []\<rparr>,
                          \<lparr>ctName = ''side'', ctImage = ''img2'', ctLimits = []\<rparr>]\<rparr>\<rparr>,
      prStatus = \<lparr>prConditions = [], prPodName = [], prObservedGeneration = 0\<rparr>\<rparr>"

definition ex_reconciler :: PodRestoreReconciler where
  "ex_reconciler = \<lparr>rrCheckpointDir = [], rrAllowCrossNamespace = False\<rparr>"

definition ex_restore_world :: "Pod list \<Rightarrow> RestoreWorld" where
  "ex_restore_world pods = \<lparr>rwRestores = [ex_restore], rwNodes = [''n1''], rwPods = pods, rwClock = 7\<rparr>"

definition ex_restore_fs :: FS where
  "ex_restore_fs = plain_fs [(ex_path, \<lparr>fSize = 5, fModTime = 1, fContent = ''x''\<rparr>)]"

lemma ex_restore_ok:
  "validateSpec ex_reconciler ex_restore = None" "prNamespace ex_restore = ''team''" "prName ex_restore = ''r''"
  "rw_stored ''team'' ''r'' (ex_restore_world pods) = Some ex_restore"
  "reGet (rw_env archives) ''team'' ''r'' (ex_restore_world pods) = (Inr ex_restore, ex_restore_world pods)"
proof -
  show "validateSpec ex_reconciler ex_restore = None" by code_simp
qed (simp_all add: rw_stored_def ex_restore_world_def ex_restore_def rw_env_def)

subsection \<open>Pods\<close>

text \<open>C27: The controller creates only the pod the PodRestore stands for. A pod creation that
  differs from the real one on every pod except the allowed ones gives the very same reconcile:
  it is only called with a pod of the restore's name and namespace, on its target node,
  controlled by it, whose restore annotations name exactly checkpoints of the specification that
  passed the path and namespace checks, and whose restored containers have an image.\<close>

theorem created_pod_confined:
  assumes "reGet env ns name w = (Inr pr, w1)"
    "\<And>pod v. allowed_pod r pr pod \<Longrightarrow> create pod v = reCreatePod env pod v"
  shows "Reconcile_restore (env\<lparr>reCreatePod := create\<rparr>) r codec ns name w fs =
    Reconcile_restore env r codec ns name w fs"
  using assms by (rule reconcile_other_create)

definition guarded_create :: "Pod \<Rightarrow> RestoreWorld \<Rightarrow> (ApiError + Pod) \<times> RestoreWorld" where
  "guarded_create pod w =
     (if podName pod = ''r'' \<and> podNodeName pod = ''n1'' \<and> podController pod = Some ''u1''
      then reCreatePod (rw_env ex_archive_env) pod w else (Inl (OtherError ''forbidden''), w))"

theorem created_pod_confined_witness:
  "map podName (rwPods (fst (snd (Reconcile_restore ((rw_env ex_archive_env)\<lparr>reCreatePod := guarded_create\<rparr>)
     ex_reconciler go_json ''team'' ''r'' (ex_restore_world []) ex_restore_fs)))) = [''r'']"
proof -
  have "guarded_create pod v = reCreatePod (rw_env ex_archive_env) pod v" if "allowed_pod ex_reconciler ex_restore pod" for pod v
    using that by (simp add: guarded_create_def allowed_pod_def ex_restore_def)
  then have "Reconcile_restore ((rw_env ex_archive_env)\<lparr>reCreatePod := guarded_create\<rparr>)
      ex_reconciler go_json ''team'' ''r'' (ex_restore_world []) ex_restore_fs =
    Reconcile_restore (rw_env ex_archive_env) ex_reconciler go_json ''team'' ''r'' (ex_restore_world []) ex_restore_fs"
    by (rule created_pod_confined [OF ex_restore_ok(5)])
  moreover have "map podName (rwPods (fst (snd (Reconcile_restore (rw_env ex_archive_env)
     ex_reconciler go_json ''team'' ''r'' (ex_restore_world []) ex_restore_fs)))) = [''r'']"
    by code_simp
  ultimately show ?thesis by simp
qed

text \<open>C28: Ready means restored. As long as the API server shows no pod that the PodRestore
  controls and that runs or has succeeded, no status is written that reports it as ready: a
  status update that differs from the real one on ready statuses alone gives the very same
  reconcile. So a foreign pod of the same name is never adopted.\<close>

theorem ready_means_restored:
  assumes "reGet env ns name w = (Inr pr, w1)"
    "\<And>a b v p v'. reGetPod env a b v = (Inr p, v') \<Longrightarrow> \<not> restored_pod pr p"
    "\<And>q v p v'. reCreatePod env q v = (Inr p, v') \<Longrightarrow> \<not> restored_pod pr p"
    "\<And>d v. \<not> reports_ready d \<Longrightarrow> upd d v = reUpdateStatus env d v"
  shows "Reconcile_restore (env\<lparr>reUpdateStatus := upd\<rparr>) r codec ns name w fs =
    Reconcile_restore env r codec ns name w fs"
  using assms by (rule reconcile_other_update)

text \<open>A cluster that has a foreign running pod of the restore's name and creates none.\<close>

definition ex_foreign_pod :: Pod where
  "ex_foreign_pod =
     \<lparr>podName = ''r'', podNamespace = ''team'', podLabels = [], podAnnotations = [], podController = Some ''other'',
      podDeletionTimestamp = None, podNodeName = ''n1'', podContainers = [], podPhase = PodRunning,
      podReason = [], podMessage = [], podConditions = []\<rparr>"

definition foreign_env :: "RestoreWorld RestoreEnv" where
  "foreign_env = (rw_env ex_archive_env)
     \<lparr>reGetPod := (\<lambda>ns name w. (Inr ex_foreign_pod, w)), reCreatePod := (\<lambda>pod w. (Inl AlreadyExists, w))\<rparr>"

definition guarded_update :: "PodRestore \<Rightarrow> RestoreWorld \<Rightarrow> ApiError option \<times> RestoreWorld" where
  "guarded_update d w =
     (if reports_ready d then (Some (OtherError ''forbidden''), w) else reUpdateStatus foreign_env d w)"

theorem ready_means_restored_witness:
  "Reconcile_restore (foreign_env\<lparr>reUpdateStatus := guarded_update\<rparr>) ex_reconciler go_json ''team'' ''r''
       (ex_restore_world []) ex_restore_fs =
     Reconcile_restore foreign_env ex_reconciler go_json ''team'' ''r'' (ex_restore_world []) ex_restore_fs \<and>
   fst (Reconcile_restore foreign_env ex_reconciler go_json ''team'' ''r'' (ex_restore_world []) ex_restore_fs) =
     Inr no_requeue"
proof
  have g: "reGet foreign_env ''team'' ''r'' (ex_restore_world []) = (Inr ex_restore, ex_restore_world [])"
    using ex_restore_ok(5) by (simp add: foreign_env_def)
  show "Reconcile_restore (foreign_env\<lparr>reUpdateStatus := guarded_update\<rparr>) ex_reconciler go_json ''team'' ''r''
       (ex_restore_world []) ex_restore_fs =
     Reconcile_restore foreign_env ex_reconciler go_json ''team'' ''r'' (ex_restore_world []) ex_restore_fs"
  proof (rule ready_means_restored [OF g])
    show "\<not> restored_pod ex_restore p" if "reGetPod foreign_env a b v = (Inr p, v')" for a b v p v'
      using that by (auto simp: foreign_env_def restored_pod_def IsControlledBy_def ex_foreign_pod_def ex_restore_def)
    show "\<not> restored_pod ex_restore p" if "reCreatePod foreign_env q v = (Inr p, v')" for q v p v'
      using that by (simp add: foreign_env_def)
    show "guarded_update d v = reUpdateStatus foreign_env d v" if "\<not> reports_ready d" for d v
      using that by (simp add: guarded_update_def)
  qed
qed code_simp

subsection \<open>The pod at the node\<close>



subsection \<open>Pins\<close>

context restore_store
begin

text \<open>A successful pass leaves the pin condition it started with in the stored status.\<close>

lemma save_pinned:
  assumes "stored w = Some pr" "prNamespace d = ns" "prName d = name"
    "saveStatus env (setReady now c reason message d) (prStatus pr) res w = (Inr res', w')"
  shows "\<exists>pr'. stored w' = Some pr' \<and>
    FindStatusCondition (prConditions (prStatus pr')) ConditionCheckpointsPinned =
    FindStatusCondition (prConditions (prStatus d)) ConditionCheckpointsPinned"
  using save_stored [OF assms(1) _ _ assms(4)] assms(2,3)
  by (auto simp: setReady_def restore_condition_def)

lemma report_pinned:
  assumes "stored w = Some pr" "prNamespace d = ns" "prName d = name"
    "report_pod env d (prStatus pr) pod w = (Inr res', w')"
  shows "\<exists>pr'. stored w' = Some pr' \<and>
    FindStatusCondition (prConditions (prStatus pr')) ConditionCheckpointsPinned =
    FindStatusCondition (prConditions (prStatus d)) ConditionCheckpointsPinned"
proof -
  obtain c reason message res where v: "verdict env (IsControlledBy pod d) pod = (c, reason, message, res)"
    using prod_cases4 by blast
  then have "saveStatus env (setReady (reNow env w) c reason message (adopt pod d)) (prStatus pr) res w = (Inr res', w')"
    using assms(4) by (simp add: report_pod_eq)
  from save_pinned [OF assms(1) _ _ this] show ?thesis using assms(2,3) by simp
qed

lemma ensure_pinned:
  assumes "stored w = Some pr" "prNamespace d = ns" "prName d = name"
    "ensure_pod env d (prStatus pr) w = (Inr res', w')"
  shows "\<exists>pr'. stored w' = Some pr' \<and>
    FindStatusCondition (prConditions (prStatus pr')) ConditionCheckpointsPinned =
    FindStatusCondition (prConditions (prStatus d)) ConditionCheckpointsPinned"
proof -
  obtain x w1 where x: "reGetPod env (prNamespace d) (prName d) w = (x, w1)" by fastforce
  have s1: "stored w1 = Some pr" using pod_eq [OF x] assms(1) by simp
  note save = save_pinned [OF s1 assms(2,3)]
  show ?thesis
  proof (cases "\<exists>q. x = Inl NotFound \<and> prPodName (prStatus d) = [] \<and> renderPod env d = Inr q")
    case True
    then obtain q where q: "x = Inl NotFound" "prPodName (prStatus d) = []" "renderPod env d = Inr q" by blast
    obtain y w2 where y: "reCreatePod env q w1 = (y, w2)" by fastforce
    have s2: "stored w2 = Some pr" using create_eq [OF y] s1 by simp
    obtain z w3 where z: "reGetPod env (podNamespace q) (podName q) w2 = (z, w3)" by fastforce
    have s3: "stored w3 = Some pr" using pod_eq [OF z] s2 by simp
    show ?thesis using assms(4) x q y z report_pinned [OF s2 assms(2,3)] report_pinned [OF s3 assms(2,3)]
      by (auto simp: ensure_pod_def IsNotFound_def split: sum.splits if_splits)
  next
    case False
    then show ?thesis using assms(4) x report_pinned [OF s1 assms(2,3)]
      by (auto simp: ensure_pod_def IsNotFound_def split: sum.splits if_splits dest!: save)
  qed
qed

end

lemma report_pins_condition:
  "\<exists>c. FindStatusCondition (prConditions (prStatus (report_pins now b pr))) ConditionCheckpointsPinned = Some c \<and>
     (cStatus c = ConditionTrue \<longleftrightarrow> b)"
proof (cases b)
  case True
  let ?new = "\<lparr>cType = ConditionCheckpointsPinned, cStatus = ConditionTrue, cObservedGeneration = prGeneration pr,
    cLastTransitionTime = 0, cReason = ''Pinned'', cMessage = pinned_message\<rparr>"
  show ?thesis using True FindStatusCondition_set [of now "prConditions (prStatus pr)" ?new]
    by (auto simp: report_pins_def setPinned_def restore_condition_def)
next
  case False
  let ?new = "\<lparr>cType = ConditionCheckpointsPinned, cStatus = ConditionFalse, cObservedGeneration = prGeneration pr,
    cLastTransitionTime = 0, cReason = ''PinNotEnforced'', cMessage = not_pinned_message (prTargetNode (prSpec pr))\<rparr>"
  show ?thesis using False FindStatusCondition_set [of now "prConditions (prStatus pr)" ?new]
    by (auto simp: report_pins_def setPinned_def restore_condition_def)
qed

context restore_pins
begin

lemma reported_pins_held:
  assumes "stored w = Some pr" "under_way r pr" "\<And>v. \<exists>n v'. reGetNode env (prTargetNode (prSpec pr)) v = (Inr n, v')"
    "Reconcile_restore env r codec ns name w fs = (Inr res, w', fs')" "stored w' = Some pr'"
    "FindStatusCondition (prConditions (prStatus pr')) ConditionCheckpointsPinned = Some c" "cStatus c = ConditionTrue"
    "\<forall>cp \<in> set (prCheckpoints (prSpec pr)). \<not> fsStatFail fs (keep_path (ccPath cp))"
    "cp \<in> set (prCheckpoints (prSpec pr))"
  shows "held codec (ccPath cp) (podRestoreOwnerKey pr) fs'"
proof -
  let ?o = "podRestoreOwnerKey pr" and ?cps = "prCheckpoints (prSpec pr)"
  obtain y w1 where y: "reGet env ns name w = (y, w1)" by fastforce
  have s1: "stored w1 = Some pr" using get_stored [OF y] assms(1) by simp
  have yr: "y = Inr pr"
  proof (cases y)
    case (Inl e)
    then have "\<not> IsNotFound e" using get_missing y assms(1) by fastforce
    then show ?thesis using assms(4) y Inl by (simp add: Reconcile_restore_def IgnoreNotFound_def)
  next
    case (Inr d)
    then show ?thesis using get_result y assms(1) by fastforce
  qed
  obtain n w2 where n: "reGetNode env (prTargetNode (prSpec pr)) w1 = (Inr n, w2)" using assms(3) by blast
  have s2: "stored w2 = Some pr" using node_eq [OF n] s1 by simp
  obtain b fs1 where b: "pin_all codec ?o ?cps fs = (b, fs1)" by fastforce
  have e: "ensure_pod env (report_pins (reNow env w2) b pr) (prStatus pr) w2 = (Inr res, w')" "fs' = fs1"
    using assms(2,4) y yr n b
    by (auto simp: Reconcile_restore_def under_way_def restore_checked_def split: prod.splits)
  have "FindStatusCondition (prConditions (prStatus (report_pins (reNow env w2) b pr))) ConditionCheckpointsPinned = Some c"
    using ensure_pinned [OF s2 _ _ e(1)] stored_key [OF assms(1)] assms(5,6) by simp
  then have "b" using report_pins_condition [of "reNow env w2" b pr] assms(7) by auto
  moreover have "\<forall>cp \<in> set ?cps. HasSuffix (ccPath cp) ''.tar'' \<and> \<not> fsStatFail fs (keep_path (ccPath cp))"
    using assms(2,8) accepted_tar by (auto simp: under_way_def)
  ultimately show ?thesis using pin_all_held [of ?o ?cps fs cp] b e(2) assms(9) by simp
qed

end


lemma ex_restore_under_way: "under_way ex_reconciler ex_restore"
  using ex_restore_ok(1) by (simp add: under_way_def ex_restore_def)

lemma ex_restore_checkpoints: "prCheckpoints (prSpec ex_restore) = [\<lparr>ccContainer = ''app'', ccPath = ex_path\<rparr>]"
  by (simp add: ex_restore_def)

text \<open>The environment of the example, with a node that is always there.\<close>

definition node_env :: "RestoreWorld RestoreEnv" where
  "node_env = (rw_env ex_archive_env)\<lparr>reGetNode := (\<lambda>n w. (Inr \<lparr>nodeName = n, nodeUnschedulable = False\<rparr>, w))\<rparr>"

interpretation node: restore_pins node_env "rw_stored ns name" ns name go_json for ns name
  by unfold_locales
     (use rw.get_stored rw.get_result rw.get_missing rw.stored_key rw.update_stored rw.pod_stored rw.create_stored
       in \<open>simp_all add: node_env_def\<close>)


text \<open>C31: No pin is leaked and no foreign pin is touched. If every marker that lists the restore
  is on one of its checkpoints while it has its finalizer, so it is after any reconcile in which the
  calls on its markers do not fail: nothing is pinned before the finalizer is stored, and when the
  finalizer goes the pins are gone. The pins of all other owners are as before, also when calls fail.\<close>

theorem pins_follow_finalizer:
  assumes "restore_pins env stored ns name codec" "stored w = Some pr"
    "Reconcile_restore env r codec ns name w fs = (x, w', fs')"
  shows "(pins_accounted codec (podRestoreOwnerKey pr) (stored w) fs \<and>
       (\<forall>cp \<in> set (prCheckpoints (prSpec pr)). pin_calls_ok fs (ccPath cp)) \<longrightarrow>
       pins_accounted codec (podRestoreOwnerKey pr) (stored w') fs') \<and>
    (\<forall>q owner. owner \<noteq> podRestoreOwnerKey pr \<longrightarrow> pinned_by codec fs' q owner = pinned_by codec fs q owner)"
proof (intro conjI impI allI)
  assume "pins_accounted codec (podRestoreOwnerKey pr) (stored w) fs \<and>
    (\<forall>cp \<in> set (prCheckpoints (prSpec pr)). pin_calls_ok fs (ccPath cp))"
  then show "pins_accounted codec (podRestoreOwnerKey pr) (stored w') fs'"
    using restore_pins.reconcile_accounts [OF assms] by blast
next
  fix q owner assume o: "owner \<noteq> podRestoreOwnerKey pr"
  have m: "marker_codec codec" and st: "restore_store env stored ns name" using assms(1) by (simp_all add: restore_pins_def)
  obtain y w1 where y: "reGet env ns name w = (y, w1)" by fastforce
  show "pinned_by codec fs' q owner = pinned_by codec fs q owner"
  proof (cases y)
    case (Inl e)
    then show ?thesis using assms(3) y by (simp add: Reconcile_restore_def)
  next
    case (Inr d)
    then have "d = pr" using restore_store.get_result [OF st] y assms(2) by fastforce
    then show ?thesis
      using reconcile_markers [OF assms(3)] y Inr marker_codec.pinned_by_all [OF m o] by auto
  qed
qed

theorem pins_follow_finalizer_witness:
  "\<exists>x w' fs'. Reconcile_restore (rw_env ex_archive_env) ex_reconciler go_json ''team'' ''r'' (ex_restore_world []) ex_restore_fs =
       (x, w', fs') \<and>
     pins_accounted go_json ''team/r'' (rw_stored ''team'' ''r'' w') fs'"
proof -
  obtain x w' fs' where r: "Reconcile_restore (rw_env ex_archive_env) ex_reconciler go_json ''team'' ''r''
      (ex_restore_world []) ex_restore_fs = (x, w', fs')" by (metis prod.exhaust)
  have o: "podRestoreOwnerKey ex_restore = ''team/r''" by code_simp
  have tar: "HasSuffix ex_path ''.tar''" by code_simp
  have "pin_state go_json ex_restore_fs p = Unpinned" for p
    using marker_apart(1) [OF tar, of p] by (auto simp: pin_state_def ex_restore_fs_def plain_fs_def fs_lookup_def)
  then have "pins_accounted go_json ''team/r'' (rw_stored ''team'' ''r'' (ex_restore_world [])) ex_restore_fs"
    by (simp add: pins_accounted_def)
  moreover have "pin_calls_ok ex_restore_fs ex_path" by (simp add: pin_calls_ok_def ex_restore_fs_def plain_fs_def)
  ultimately show ?thesis
    using pins_follow_finalizer [OF rwp.restore_pins_axioms ex_restore_ok(4) r] r
    by (simp add: o ex_restore_checkpoints)
qed

subsection \<open>The steady state\<close>


text \<open>A cluster where the restored pod runs.\<close>

definition ex_restored_pod :: Pod where
  "ex_restored_pod = ex_foreign_pod\<lparr>podController := Some ''u1''\<rparr>"

definition quiet_env :: "RestoreWorld RestoreEnv" where
  "quiet_env = node_env\<lparr>reGetPod := (\<lambda>ns name w. (Inr ex_restored_pod, w))\<rparr>"

interpretation quiet: restore_store quiet_env "rw_stored ns name" ns name for ns name
  by unfold_locales
     (use node.get_stored node.get_result node.get_missing node.stored_key node.update_stored node.node_stored node.create_stored
       in \<open>simp_all add: quiet_env_def\<close>)


end
