(* ===== verification/Triggers.thy ===== *)
theory Triggers
  imports Checkpoint_Creator
begin

text \<open>
  \<^verbatim>\<open>api/v1/checkpointschedule_types.go\<close> and the triggers of a CheckpointSchedule in
  \<^verbatim>\<open>internal/controller\<close>: \<^verbatim>\<open>schedule_trigger.go\<close>, \<^verbatim>\<open>annotation_trigger.go\<close>, \<^verbatim>\<open>event_trigger.go\<close>
  and \<^verbatim>\<open>resource_trigger.go\<close>. Each trigger is its poll, a function of its own memory and the
  world; \<open>Start\<close> and \<open>Stop\<close> only run it on a ticker.

  The API server, the checkpointer, the metrics API, the decoders and the clock are parameters
  (\<open>TriggerEnv\<close>). A Go map that is iterated is a list in the order of the iteration, which is
  not specified; where goroutines run concurrently, the order is a parameter.
\<close>

section \<open>API types\<close>

record ResourcePercentThreshold =
  rpUpper :: "int option"
  rpLower :: "int option"

record ResourceThresholdSpec =
  CPUPercent :: "ResourcePercentThreshold option"
  MemoryPercent :: "ResourcePercentThreshold option"
  PollIntervalSeconds :: "int option"

record TriggersSpec =
  tgInterval :: "duration option"
  ResourceThreshold :: "ResourceThresholdSpec option"
  OnKubernetesEvents :: "string list"
  OnAnnotation :: bool

record CheckpointScheduleSpec =
  csNamespace :: string
  csSelector :: LabelSelector
  csContainerNames :: "string list"
  csTriggers :: TriggersSpec

record CheckpointScheduleStatus =
  csConditions :: "Condition list"
  csLastCheckpointTime :: "time option"
  csCheckpointsCreated :: int

record CheckpointSchedule =
  csObjectNamespace :: string
  csName :: string
  csCreationTimestamp :: time
  csDeletionTimestamp :: "time option"
  csFinalizers :: "string list"
  csSpec :: CheckpointScheduleSpec
  csStatus :: CheckpointScheduleStatus

section \<open>The environment\<close>

text \<open>The metrics of a container, and what the metrics API answers.\<close>

record containerMetricsItem =
  cmName :: string
  cmUsage :: smap

record MetricsStatus =
  msReason :: string
  msCode :: int
  msDetails :: "(string \<times> string \<times> string) option"

datatype MetricsError = MetricsNotAvailable | MetricsFailed string

record 'w TriggerEnv =
  tePods :: "'w PodLister"
  teCheckpoint :: "string \<Rightarrow> string \<Rightarrow> string \<Rightarrow> string \<Rightarrow> 'w \<Rightarrow> (CheckpointError + string) \<times> 'w"
  tePatchAnnotations :: "Pod \<Rightarrow> 'w \<Rightarrow> ApiError option \<times> 'w"
  teNodes :: "'w \<Rightarrow> (ApiError + Node list) \<times> 'w"
  teHTTPClient :: "string option"
  teGetMetrics :: "string \<Rightarrow> string \<Rightarrow> 'w \<Rightarrow> (string + HttpResponse) \<times> 'w"
  teMetricsJSON :: "string \<Rightarrow> containerMetricsItem list option"
  teStatusJSON :: "string \<Rightarrow> MetricsStatus option"
  teParseQuantity :: "string \<Rightarrow> quantity option"
  teNow :: "'w \<Rightarrow> time \<times> 'w"

section \<open>Checkpointing the containers of a pod\<close>

text \<open>
  The loop that the annotation and event triggers share: checkpoint every selected container,
  go on after an error, and report whether every checkpoint succeeded.
\<close>

fun checkpoint_containers :: "'w TriggerEnv \<Rightarrow> Pod \<Rightarrow> Container list \<Rightarrow> 'w \<Rightarrow> bool \<times> 'w" where
  "checkpoint_containers env pod [] w = (True, w)"
| "checkpoint_containers env pod (c # cs) w =
     (case teCheckpoint env (podNamespace pod) (podName pod) (ctName c) (podNodeName pod) w of
        (r, w1) \<Rightarrow> (case checkpoint_containers env pod cs w1 of (ok, w2) \<Rightarrow> (\<not> isl r \<and> ok, w2)))"

section \<open>The interval trigger (schedule\_trigger.go)\<close>

text \<open>The containers to checkpoint, by the loops of \<open>runScheduledCheckpoints\<close>.\<close>

definition scheduled_targets :: "CheckpointSchedule \<Rightarrow> Pod list \<Rightarrow> (Pod \<times> Container) list" where
  "scheduled_targets schedule pods =
     (let containerSet = map (\<lambda>name. (name, ())) (csContainerNames (csSpec schedule))
      in concat (map (\<lambda>pod. map (\<lambda>c. (pod, c))
           (filter (\<lambda>c. \<not> (length containerSet > 0 \<and> map_of containerSet (ctName c) = None)) (podContainers pod))) pods))"

text \<open>The goroutines, in the order in which their requests happen; \<open>created\<close> is an \<open>atomic.Int32\<close>.\<close>

fun scheduled_run :: "'w TriggerEnv \<Rightarrow> (Pod \<times> Container) list \<Rightarrow> int \<Rightarrow> 'w \<Rightarrow> int \<times> 'w" where
  "scheduled_run env [] created w = (created, w)"
| "scheduled_run env ((pod, c) # targets) created w =
     (case teCheckpoint env (podNamespace pod) (podName pod) (ctName c) (podNodeName pod) w of
        (Inl err, w1) \<Rightarrow> scheduled_run env targets created w1
      | (Inr path, w1) \<Rightarrow> scheduled_run env targets (wrap32 (created + 1)) w1)"

definition runScheduledCheckpoints ::
  "'w TriggerEnv \<Rightarrow> ((Pod \<times> Container) list \<Rightarrow> (Pod \<times> Container) list) \<Rightarrow> CheckpointSchedule \<Rightarrow> 'w \<Rightarrow> int \<times> 'w" where
  "runScheduledCheckpoints env order schedule w =
     (case getMatchingPods (tePods env) (csNamespace (csSpec schedule)) (csSelector (csSpec schedule)) w of
        (Inl err, w1) \<Rightarrow> (0, w1)
      | (Inr pods, w1) \<Rightarrow> scheduled_run env (order (scheduled_targets schedule pods)) 0 w1)"

section \<open>The annotation trigger (annotation\_trigger.go)\<close>

definition CheckpointTriggerAnnotation :: string where
  "CheckpointTriggerAnnotation = ''checkpoint.criu.org/trigger''"

fun annotation_pods :: "'w TriggerEnv \<Rightarrow> string list \<Rightarrow> Pod list \<Rightarrow> 'w \<Rightarrow> 'w" where
  "annotation_pods env names [] w = w"
| "annotation_pods env names (pod # pods) w =
     (if mget (podAnnotations pod) CheckpointTriggerAnnotation \<noteq> ''true'' then annotation_pods env names pods w
      else
        (case checkpoint_containers env pod (filterContainers pod names) w of
           (ok, w1) \<Rightarrow>
             if \<not> ok then annotation_pods env names pods w1
             else annotation_pods env names pods
               (snd (tePatchAnnotations env
                  (pod\<lparr>podAnnotations := mdel CheckpointTriggerAnnotation (podAnnotations pod)\<rparr>) w1))))"

definition AnnotationTrigger_run :: "'w TriggerEnv \<Rightarrow> CheckpointSchedule \<Rightarrow> 'w \<Rightarrow> 'w" where
  "AnnotationTrigger_run env schedule w =
     (case getMatchingPods (tePods env) (csNamespace (csSpec schedule)) (csSelector (csSpec schedule)) w of
        (Inl err, w1) \<Rightarrow> w1
      | (Inr pods, w1) \<Rightarrow> annotation_pods env (csContainerNames (csSpec schedule)) pods w1)"

section \<open>The event trigger (event\_trigger.go)\<close>

definition EventNodeDrain :: string where "EventNodeDrain = ''NodeDrain''"
definition EventPodEviction :: string where "EventPodEviction = ''PodEviction''"
definition EventPreemption :: string where "EventPreemption = ''Preemption''"
definition disruptionTargetCondition :: string where "disruptionTargetCondition = ''DisruptionTarget''"
definition preemptingEvictorReason :: string where "preemptingEvictorReason = ''PreemptingEvictor''"

text \<open>The two maps hold \<open>true\<close> only, so they are the lists of their keys.\<close>

record EventTrigger =
  watchNodeDrain :: bool
  watchPodEviction :: bool
  watchPreemption :: bool
  seenNodes :: "string list"
  seenPods :: "string list"

fun watch_event :: "string \<Rightarrow> EventTrigger \<Rightarrow> EventTrigger" where
  "watch_event e et =
     (if e = EventNodeDrain then et\<lparr>watchNodeDrain := True\<rparr>
      else if e = EventPodEviction then et\<lparr>watchPodEviction := True\<rparr>
      else if e = EventPreemption then et\<lparr>watchPreemption := True\<rparr> else et)"

definition NewEventTrigger :: "CheckpointSchedule \<Rightarrow> EventTrigger" where
  "NewEventTrigger schedule =
     fold watch_event (OnKubernetesEvents (csTriggers (csSpec schedule)))
       \<lparr>watchNodeDrain = False, watchPodEviction = False, watchPreemption = False, seenNodes = [], seenPods = []\<rparr>"

fun podIsPreempted :: "Pod \<Rightarrow> bool" where
  "podIsPreempted pod =
     list_ex (\<lambda>cond. pcType cond = disruptionTargetCondition \<and> pcReason cond = preemptingEvictorReason \<and>
        pcStatus cond = ConditionTrue) (podConditions pod)"

definition pod_key :: "Pod \<Rightarrow> string" where
  "pod_key pod = podNamespace pod @ ''/'' @ podName pod"

definition checkpointPodContainers :: "'w TriggerEnv \<Rightarrow> string list \<Rightarrow> Pod \<Rightarrow> 'w \<Rightarrow> bool \<times> 'w" where
  "checkpointPodContainers env names pod w = checkpoint_containers env pod (filterContainers pod names) w"

definition checkpointOnce ::
  "'w TriggerEnv \<Rightarrow> string list \<Rightarrow> Pod \<Rightarrow> EventTrigger \<Rightarrow> 'w \<Rightarrow> EventTrigger \<times> 'w" where
  "checkpointOnce env names pod et w =
     (if pod_key pod \<in> set (seenPods et) then (et, w)
      else case checkpointPodContainers env names pod w of
        (ok, w1) \<Rightarrow> (if ok then et\<lparr>seenPods := pod_key pod # seenPods et\<rparr> else et, w1))"

text \<open>The pods on a node: whether one was there, and whether all checkpoints succeeded.\<close>

fun drain_pods ::
  "'w TriggerEnv \<Rightarrow> string list \<Rightarrow> string \<Rightarrow> Pod list \<Rightarrow> bool \<Rightarrow> bool \<Rightarrow> 'w \<Rightarrow> (bool \<times> bool) \<times> 'w" where
  "drain_pods env names node [] fired allOK w = ((fired, allOK), w)"
| "drain_pods env names node (pod # pods) fired allOK w =
     (if podNodeName pod \<noteq> node then drain_pods env names node pods fired allOK w
      else case checkpointPodContainers env names pod w of
        (ok, w1) \<Rightarrow> drain_pods env names node pods True (allOK \<and> ok) w1)"

fun drain_nodes ::
  "'w TriggerEnv \<Rightarrow> string list \<Rightarrow> Pod list \<Rightarrow> string list \<Rightarrow> EventTrigger \<Rightarrow> 'w \<Rightarrow> EventTrigger \<times> 'w" where
  "drain_nodes env names pods [] et w = (et, w)"
| "drain_nodes env names pods (node # nodes) et w =
     (if node \<in> set (seenNodes et) then drain_nodes env names pods nodes et w
      else case drain_pods env names node pods False True w of
        ((fired, allOK), w1) \<Rightarrow>
          drain_nodes env names pods nodes
            (if fired \<and> allOK then et\<lparr>seenNodes := node # seenNodes et\<rparr> else et) w1)"

definition draining_nodes :: "Pod list \<Rightarrow> Node list \<Rightarrow> string list" where
  "draining_nodes pods nodes =
     (let podNodeNames = filter (\<lambda>n. n \<noteq> []) (map podNodeName pods)
      in remdups (map nodeName (filter (\<lambda>n. nodeUnschedulable n \<and> nodeName n \<in> set podNodeNames) nodes)))"

definition handleNodeDrain ::
  "'w TriggerEnv \<Rightarrow> string list \<Rightarrow> Pod list \<Rightarrow> EventTrigger \<Rightarrow> 'w \<Rightarrow> EventTrigger \<times> 'w" where
  "handleNodeDrain env names pods et w =
     (case teNodes env w of
        (Inl err, w1) \<Rightarrow> (et, w1)
      | (Inr nodes, w1) \<Rightarrow>
          (let drainingNow = draining_nodes pods nodes
           in drain_nodes env names pods drainingNow
                (et\<lparr>seenNodes := filter (\<lambda>n. n \<in> set drainingNow) (seenNodes et)\<rparr>) w1))"

fun event_pods ::
  "'w TriggerEnv \<Rightarrow> string list \<Rightarrow> Pod list \<Rightarrow> EventTrigger \<Rightarrow> 'w \<Rightarrow> EventTrigger \<times> 'w" where
  "event_pods env names [] et w = (et, w)"
| "event_pods env names (pod # pods) et w =
     (case (if watchPodEviction et \<and> podDeletionTimestamp pod \<noteq> None
            then checkpointOnce env names pod et w else (et, w)) of
        (et1, w1) \<Rightarrow>
          (case (if watchPreemption et1 \<and> podIsPreempted pod
                 then checkpointOnce env names pod et1 w1 else (et1, w1)) of
             (et2, w2) \<Rightarrow> event_pods env names pods et2 w2))"

definition EventTrigger_run ::
  "'w TriggerEnv \<Rightarrow> CheckpointSchedule \<Rightarrow> EventTrigger \<Rightarrow> 'w \<Rightarrow> EventTrigger \<times> 'w" where
  "EventTrigger_run env schedule et w =
     (case getMatchingPods (tePods env) (csNamespace (csSpec schedule)) (csSelector (csSpec schedule)) w of
        (Inl err, w1) \<Rightarrow> (et, w1)
      | (Inr pods, w1) \<Rightarrow>
          (let names = csContainerNames (csSpec schedule);
               et1 = et\<lparr>seenPods := filter (\<lambda>k. k \<in> set (map pod_key pods)) (seenPods et)\<rparr>
           in case (if watchNodeDrain et1 then handleNodeDrain env names pods et1 w1 else (et1, w1)) of
                (et2, w2) \<Rightarrow> event_pods env names pods et2 w2))"

section \<open>The resource trigger (resource\_trigger.go)\<close>

definition defaultResourcePollInterval :: duration where "defaultResourcePollInterval = 30 * second"
definition checkpointCooldown :: duration where "checkpointCooldown = 5 * minute"
definition metricsAPIGroup :: string where "metricsAPIGroup = ''metrics.k8s.io''"
definition podMetricsResource :: string where "podMetricsResource = ''pods''"

text \<open>\<open>lastCheckpoint\<close>: a missing entry reads as the zero time.\<close>

record ResourceTrigger =
  rtInterval :: duration
  lastCheckpoint :: "(string \<times> time) list"

definition NewResourceTrigger :: "CheckpointSchedule \<Rightarrow> ResourceTrigger" where
  "NewResourceTrigger schedule =
     \<lparr>rtInterval =
        (case ResourceThreshold (csTriggers (csSpec schedule)) of
           None \<Rightarrow> defaultResourcePollInterval
         | Some rt \<Rightarrow> (case PollIntervalSeconds rt of None \<Rightarrow> defaultResourcePollInterval
                                              | Some s \<Rightarrow> wrap64 (s * second))),
      lastCheckpoint = []\<rparr>"

text \<open>The usage as a percentage of the limit, by 64 bit arithmetic; \<open>None\<close> is the answer \<open>false\<close>.\<close>

definition memoryUsagePercent :: "(string \<Rightarrow> quantity option) \<Rightarrow> containerMetricsItem \<Rightarrow> (string \<times> quantity) list \<Rightarrow> int option" where
  "memoryUsagePercent parse cm limits =
     (case map_of (cmUsage cm) ''memory'' of
        None \<Rightarrow> None
      | Some usageStr \<Rightarrow>
          (case parse usageStr of
             None \<Rightarrow> None
           | Some usage \<Rightarrow>
               (case map_of limits ''memory'' of
                  None \<Rightarrow> None
                | Some limit \<Rightarrow>
                    if limit = 0 then None else Some (quot (wrap64 (Value usage * 100)) (Value limit)))))"

definition cpuUsagePercent :: "(string \<Rightarrow> quantity option) \<Rightarrow> containerMetricsItem \<Rightarrow> (string \<times> quantity) list \<Rightarrow> int option" where
  "cpuUsagePercent parse cm limits =
     (case map_of (cmUsage cm) ''cpu'' of
        None \<Rightarrow> None
      | Some usageStr \<Rightarrow>
          (case parse usageStr of
             None \<Rightarrow> None
           | Some usage \<Rightarrow>
               (case map_of limits ''cpu'' of
                  None \<Rightarrow> None
                | Some limit \<Rightarrow>
                    if limit = 0 then None else Some (quot (wrap64 (MilliValue usage * 100)) (MilliValue limit)))))"

definition outside :: "ResourcePercentThreshold option \<Rightarrow> int option \<Rightarrow> bool" where
  "outside threshold usage =
     (case threshold of
        None \<Rightarrow> False
      | Some t \<Rightarrow>
          (case usage of
             None \<Rightarrow> False
           | Some pct \<Rightarrow>
               (case rpUpper t of None \<Rightarrow> False | Some u \<Rightarrow> pct \<ge> u) \<or>
               (case rpLower t of None \<Rightarrow> False | Some l \<Rightarrow> pct \<le> l)))"

definition thresholdExceeded ::
  "(string \<Rightarrow> quantity option) \<Rightarrow> containerMetricsItem \<Rightarrow> (string \<times> quantity) list \<Rightarrow> ResourceThresholdSpec \<Rightarrow> bool" where
  "thresholdExceeded parse cm limits spec \<longleftrightarrow>
     outside (MemoryPercent spec) (memoryUsagePercent parse cm limits) \<or>
     outside (CPUPercent spec) (cpuUsagePercent parse cm limits)"

definition isPodMetricsNotFound :: "(string \<Rightarrow> MetricsStatus option) \<Rightarrow> string \<Rightarrow> string \<Rightarrow> bool" where
  "isPodMetricsNotFound parse body podname =
     (case parse body of
        None \<Rightarrow> False
      | Some status \<Rightarrow>
          if msReason status \<noteq> ''NotFound'' then False
          else if msCode status \<noteq> 0 \<and> msCode status \<noteq> 404 then False
          else case msDetails status of
            None \<Rightarrow> False
          | Some (grp, kind, name) \<Rightarrow> grp = metricsAPIGroup \<and> kind = podMetricsResource \<and> name = podname)"

definition fetchPodMetrics ::
  "'w TriggerEnv \<Rightarrow> string \<Rightarrow> string \<Rightarrow> 'w \<Rightarrow> (MetricsError + containerMetricsItem list) \<times> 'w" where
  "fetchPodMetrics env ns podname w =
     (case teGetMetrics env ns podname w of
        (Inl err, w1) \<Rightarrow> (Inl (MetricsFailed err), w1)
      | (Inr resp, w1) \<Rightarrow>
          (if StatusCode resp = 404 \<and> isPodMetricsNotFound (teStatusJSON env) (Body resp) podname
           then (Inl MetricsNotAvailable, w1)
           else if StatusCode resp \<noteq> 200 then (Inl (MetricsFailed ''status''), w1)
           else case teMetricsJSON env (Body resp) of
             None \<Rightarrow> (Inl (MetricsFailed ''decode''), w1)
           | Some items \<Rightarrow> (Inr items, w1)))"

fun resource_containers ::
  "'w TriggerEnv \<Rightarrow> ResourceThresholdSpec \<Rightarrow> Pod \<Rightarrow> (string \<times> (string \<times> quantity) list) list \<Rightarrow>
     containerMetricsItem list \<Rightarrow> ResourceTrigger \<Rightarrow> 'w \<Rightarrow> ResourceTrigger \<times> 'w" where
  "resource_containers env spec pod limits [] rt w = (rt, w)"
| "resource_containers env spec pod limits (cm # cms) rt w =
     (case map_of limits (cmName cm) of
        None \<Rightarrow> resource_containers env spec pod limits cms rt w
      | Some containerLimits \<Rightarrow>
          if \<not> thresholdExceeded (teParseQuantity env) cm containerLimits spec
          then resource_containers env spec pod limits cms rt w
          else
            (let key = podName pod @ ''/'' @ cmName cm;
                 last = (case map_of (lastCheckpoint rt) key of None \<Rightarrow> 0 | Some t \<Rightarrow> t)
             in case teNow env w of
                  (now, w1) \<Rightarrow>
                    if now - last < checkpointCooldown then resource_containers env spec pod limits cms rt w1
                    else
                      (case teCheckpoint env (podNamespace pod) (podName pod) (cmName cm) (podNodeName pod) w1 of
                         (Inl err, w2) \<Rightarrow> resource_containers env spec pod limits cms rt w2
                       | (Inr path, w2) \<Rightarrow>
                           (case teNow env w2 of
                              (done, w3) \<Rightarrow>
                                resource_containers env spec pod limits cms
                                  (rt\<lparr>lastCheckpoint := (key, done) # lastCheckpoint rt\<rparr>) w3))))"

fun resource_pods ::
  "'w TriggerEnv \<Rightarrow> ResourceThresholdSpec \<Rightarrow> string list \<Rightarrow> Pod list \<Rightarrow> ResourceTrigger \<Rightarrow> 'w \<Rightarrow> ResourceTrigger \<times> 'w" where
  "resource_pods env spec names [] rt w = (rt, w)"
| "resource_pods env spec names (pod # pods) rt w =
     (case fetchPodMetrics env (podNamespace pod) (podName pod) w of
        (Inl err, w1) \<Rightarrow> resource_pods env spec names pods rt w1
      | (Inr items, w1) \<Rightarrow>
          (let limits = rev (map (\<lambda>c. (ctName c, ctLimits c)) (filterContainers pod names))
           in case resource_containers env spec pod limits items rt w1 of
                (rt1, w2) \<Rightarrow> resource_pods env spec names pods rt1 w2))"

definition ResourceTrigger_run ::
  "'w TriggerEnv \<Rightarrow> CheckpointSchedule \<Rightarrow> ResourceTrigger \<Rightarrow> 'w \<Rightarrow> ResourceTrigger \<times> 'w" where
  "ResourceTrigger_run env schedule rt w =
     (case ResourceThreshold (csTriggers (csSpec schedule)) of
        None \<Rightarrow> (rt, w)
      | Some spec \<Rightarrow>
          (case getMatchingPods (tePods env) (csNamespace (csSpec schedule)) (csSelector (csSpec schedule)) w of
             (Inl err, w1) \<Rightarrow> (rt, w1)
           | (Inr pods, w1) \<Rightarrow>
               (case teHTTPClient env of
                  Some err \<Rightarrow> (rt, w1)
                | None \<Rightarrow> resource_pods env spec (csContainerNames (csSpec schedule)) pods rt w1)))"

section \<open>Recording the calls\<close>

datatype TriggerCall = TcCheckpoint string string string string bool | TcPatch Pod

text \<open>An environment that records which checkpoints were asked for, with their success, and the patches.\<close>

definition tracing :: "'w TriggerEnv \<Rightarrow> ('w \<times> TriggerCall list) TriggerEnv" where
  "tracing env =
     \<lparr>tePods = \<lparr>plSelector = plSelector (tePods env),
        plList = (\<lambda>ns sel (w, t). case plList (tePods env) ns sel w of (r, w1) \<Rightarrow> (r, (w1, t)))\<rparr>,
      teCheckpoint = (\<lambda>ns pod c node (w, t). case teCheckpoint env ns pod c node w of
        (r, w1) \<Rightarrow> (r, (w1, t @ [TcCheckpoint ns pod c node (\<not> isl r)]))),
      tePatchAnnotations = (\<lambda>pod (w, t). case tePatchAnnotations env pod w of (r, w1) \<Rightarrow> (r, (w1, t @ [TcPatch pod]))),
      teNodes = (\<lambda>(w, t). case teNodes env w of (r, w1) \<Rightarrow> (r, (w1, t))),
      teHTTPClient = teHTTPClient env,
      teGetMetrics = (\<lambda>ns pod (w, t). case teGetMetrics env ns pod w of (r, w1) \<Rightarrow> (r, (w1, t))),
      teMetricsJSON = teMetricsJSON env, teStatusJSON = teStatusJSON env, teParseQuantity = teParseQuantity env,
      teNow = (\<lambda>(w, t). case teNow env w of (r, w1) \<Rightarrow> (r, (w1, t)))\<rparr>"

lemma tracing_simps [simp]:
  "teCheckpoint (tracing env) ns pod c node (w, t) =
     (fst (teCheckpoint env ns pod c node w),
      (snd (teCheckpoint env ns pod c node w), t @ [TcCheckpoint ns pod c node (\<not> isl (fst (teCheckpoint env ns pod c node w)))]))"
  "tePatchAnnotations (tracing env) p (w, t) =
     (fst (tePatchAnnotations env p w), (snd (tePatchAnnotations env p w), t @ [TcPatch p]))"
  "teNow (tracing env) (w, t) = (fst (teNow env w), (snd (teNow env w), t))"
  "teGetMetrics (tracing env) ns pod (w, t) = (fst (teGetMetrics env ns pod w), (snd (teGetMetrics env ns pod w), t))"
  "teHTTPClient (tracing env) = teHTTPClient env" "teMetricsJSON (tracing env) = teMetricsJSON env"
  "teStatusJSON (tracing env) = teStatusJSON env" "teParseQuantity (tracing env) = teParseQuantity env"
  by (simp_all add: tracing_def case_prod_beta)

lemma getMatchingPods_tracing [simp]:
  "getMatchingPods (tePods (tracing env)) ns sel (w, t) =
     (fst (getMatchingPods (tePods env) ns sel w), (snd (getMatchingPods (tePods env) ns sel w), t))"
  by (simp add: getMatchingPods_def tracing_def case_prod_beta split: option.split sum.split)

text \<open>The requests for some containers of a pod, with their outcomes.\<close>

definition pod_round :: "Pod \<Rightarrow> Container list \<Rightarrow> bool list \<Rightarrow> TriggerCall list" where
  "pod_round pod cs oks =
     map2 (\<lambda>c ok. TcCheckpoint (podNamespace pod) (podName pod) (ctName c) (podNodeName pod) ok) cs oks"

lemma checkpoint_containers_tracing:
  "\<exists>w' oks. length oks = length cs \<and>
     checkpoint_containers (tracing env) pod cs (w, t) = (list_all (\<lambda>ok. ok) oks, (w', t @ pod_round pod cs oks))"
proof (induction cs arbitrary: w t)
  case Nil
  then show ?case by (auto simp: pod_round_def)
next
  case (Cons c cs)
  let ?r = "teCheckpoint env (podNamespace pod) (podName pod) (ctName c) (podNodeName pod) w"
  obtain w' oks where "length oks = length cs"
    "checkpoint_containers (tracing env) pod cs (snd ?r,
       t @ [TcCheckpoint (podNamespace pod) (podName pod) (ctName c) (podNodeName pod) (\<not> isl (fst ?r))]) =
     (list_all (\<lambda>ok. ok) oks, (w', (t @ [TcCheckpoint (podNamespace pod) (podName pod) (ctName c) (podNodeName pod) (\<not> isl (fst ?r))]) @
       pod_round pod cs oks))"
    using Cons.IH by blast
  then show ?case by (intro exI [of _ w'] exI [of _ "(\<not> isl (fst ?r)) # oks"]) (simp add: pod_round_def)
qed

section \<open>The annotation trigger\<close>

text \<open>
  What a poll over these pods does: a pod that asks for it has every selected container
  checkpointed, and its annotation is taken away exactly if all of them succeeded.
\<close>

inductive annotation_calls :: "string list \<Rightarrow> Pod list \<Rightarrow> TriggerCall list \<Rightarrow> bool" for names where
  none: "annotation_calls names [] []"
| skipped: "mget (podAnnotations pod) CheckpointTriggerAnnotation \<noteq> ''true'' \<Longrightarrow> annotation_calls names pods t \<Longrightarrow>
    annotation_calls names (pod # pods) t"
| taken: "mget (podAnnotations pod) CheckpointTriggerAnnotation = ''true'' \<Longrightarrow> annotation_calls names pods t \<Longrightarrow>
    length oks = length (filterContainers pod names) \<Longrightarrow> list_all (\<lambda>ok. ok) oks \<Longrightarrow>
    annotation_calls names (pod # pods)
      (pod_round pod (filterContainers pod names) oks @
       TcPatch (pod\<lparr>podAnnotations := mdel CheckpointTriggerAnnotation (podAnnotations pod)\<rparr>) # t)"
| kept: "mget (podAnnotations pod) CheckpointTriggerAnnotation = ''true'' \<Longrightarrow> annotation_calls names pods t \<Longrightarrow>
    length oks = length (filterContainers pod names) \<Longrightarrow> \<not> list_all (\<lambda>ok. ok) oks \<Longrightarrow>
    annotation_calls names (pod # pods) (pod_round pod (filterContainers pod names) oks @ t)"

lemma annotation_pods_calls:
  "\<exists>w' u. annotation_pods (tracing env) names pods (w, t) = (w', t @ u) \<and> annotation_calls names pods u"
proof (induction pods arbitrary: w t)
  case Nil
  then show ?case by (auto intro: annotation_calls.none)
next
  case (Cons pod pods)
  show ?case
  proof (cases "mget (podAnnotations pod) CheckpointTriggerAnnotation = ''true''")
    case False
    obtain w' u where "annotation_pods (tracing env) names pods (w, t) = (w', t @ u)" "annotation_calls names pods u"
      using Cons.IH by blast
    then show ?thesis using False by (auto intro: annotation_calls.skipped)
  next
    case True
    let ?cs = "filterContainers pod names"
    let ?p = "pod\<lparr>podAnnotations := mdel CheckpointTriggerAnnotation (podAnnotations pod)\<rparr>"
    obtain w1 oks where r: "length oks = length ?cs"
      "checkpoint_containers (tracing env) pod ?cs (w, t) = (list_all (\<lambda>ok. ok) oks, (w1, t @ pod_round pod ?cs oks))"
      using checkpoint_containers_tracing [of ?cs env pod w t] by auto
    show ?thesis
    proof (cases "list_all (\<lambda>ok. ok) oks")
      case ok: True
      obtain w' u where "annotation_pods (tracing env) names pods (snd (tePatchAnnotations env ?p w1),
          (t @ pod_round pod ?cs oks) @ [TcPatch ?p]) = (w', ((t @ pod_round pod ?cs oks) @ [TcPatch ?p]) @ u)"
        "annotation_calls names pods u"
        using Cons.IH by blast
      then show ?thesis using annotation_calls.taken [OF True _ r(1) ok] True r(2) ok by auto
    next
      case bad: False
      obtain w' u where "annotation_pods (tracing env) names pods (w1, t @ pod_round pod ?cs oks) =
          (w', (t @ pod_round pod ?cs oks) @ u)" "annotation_calls names pods u"
        using Cons.IH by blast
      then show ?thesis using annotation_calls.kept [OF True _ r(1) bad] True r(2) bad by auto
    qed
  qed
qed

section \<open>The interval trigger\<close>

lemma scheduled_targets_eq:
  "scheduled_targets schedule pods =
     concat (map (\<lambda>pod. map (\<lambda>c. (pod, c)) (filterContainers pod (csContainerNames (csSpec schedule)))) pods)"
proof -
  have "map_of (map (\<lambda>name. (name, ())) ns) x = (if x \<in> set ns then Some () else None)" for ns and x :: string
    by (induction ns) auto
  then show ?thesis
    by (auto simp: scheduled_targets_def filterContainers_eq Let_def intro!: arg_cong [where f = concat] map_cong filter_cong)
qed

definition target_call :: "Pod \<times> Container \<Rightarrow> bool \<Rightarrow> TriggerCall" where
  "target_call t ok = TcCheckpoint (podNamespace (fst t)) (podName (fst t)) (ctName (snd t)) (podNodeName (fst t)) ok"

lemma scheduled_run_tracing:
  "\<exists>w' oks. length oks = length targets \<and>
     scheduled_run (tracing env) targets n (w, t) =
       (fold (\<lambda>ok m. if ok then wrap32 (m + 1) else m) oks n, (w', t @ map2 target_call targets oks))"
proof (induction targets arbitrary: n w t)
  case Nil
  then show ?case by auto
next
  case (Cons x targets)
  obtain pod c where x: "x = (pod, c)" by fastforce
  let ?r = "teCheckpoint env (podNamespace pod) (podName pod) (ctName c) (podNodeName pod) w"
  let ?ok = "\<not> isl (fst ?r)"
  let ?m = "if ?ok then wrap32 (n + 1) else n"
  let ?t = "t @ [target_call x ?ok]"
  obtain w' oks where IH: "length oks = length targets" "scheduled_run (tracing env) targets ?m (snd ?r, ?t) =
      (fold (\<lambda>ok m. if ok then wrap32 (m + 1) else m) oks ?m, (w', ?t @ map2 target_call targets oks))"
    using Cons.IH by blast
  have "scheduled_run (tracing env) (x # targets) n (w, t) = scheduled_run (tracing env) targets ?m (snd ?r, ?t)"
    by (cases "fst ?r") (simp_all add: x target_call_def)
  then show ?case using IH by (intro exI [of _ w'] exI [of _ "?ok # oks"]) simp
qed

lemma fold_wrap_count: "fold (\<lambda>ok m. if ok then wrap32 (m + 1) else m) oks (wrap32 n) =
    wrap32 (n + int (length (filter (\<lambda>ok. ok) oks)))"
proof (induction oks arbitrary: n)
  case (Cons ok oks)
  have "wrap32 (wrap32 n + 1) = wrap32 (n + 1)" by (simp add: wrap32_def mod_simps)
  then show ?case using Cons.IH [of "n + 1"] Cons.IH [of n] by (simp add: algebra_simps)
qed simp

section \<open>The event trigger\<close>

definition disrupted :: "EventTrigger \<Rightarrow> Pod \<Rightarrow> bool" where
  "disrupted et pod \<longleftrightarrow> watchPodEviction et \<and> podDeletionTimestamp pod \<noteq> None \<or> watchPreemption et \<and> podIsPreempted pod"

text \<open>Among the calls is a round over the selected containers in which all succeeded; a failed request.\<close>

definition round_succeeded :: "string list \<Rightarrow> Pod \<Rightarrow> TriggerCall list \<Rightarrow> bool" where
  "round_succeeded names pod u \<longleftrightarrow>
     (\<exists>oks a b. length oks = length (filterContainers pod names) \<and> list_all (\<lambda>ok. ok) oks \<and>
        u = a @ pod_round pod (filterContainers pod names) oks @ b)"

definition request_failed :: "string list \<Rightarrow> Pod \<Rightarrow> TriggerCall list \<Rightarrow> bool" where
  "request_failed names pod u \<longleftrightarrow>
     (\<exists>c \<in> set (filterContainers pod names).
        TcCheckpoint (podNamespace pod) (podName pod) (ctName c) (podNodeName pod) False \<in> set u)"

text \<open>
  What the calls \<open>u\<close> made for these pods, and the memory before and after, have to do with each
  other: nothing is asked for a remembered pod; a pod is newly remembered only after a successful
  round; a disrupted pod that is not remembered afterwards had a failed request.
\<close>

definition once :: "string list \<Rightarrow> Pod set \<Rightarrow> EventTrigger \<Rightarrow> TriggerCall list \<Rightarrow> EventTrigger \<Rightarrow> bool" where
  "once names pods et u et' \<longleftrightarrow>
     watchPodEviction et' = watchPodEviction et \<and> watchPreemption et' = watchPreemption et \<and>
     set (seenPods et) \<subseteq> set (seenPods et') \<and>
     (\<forall>ns n c node ok. TcCheckpoint ns n c node ok \<in> set u \<longrightarrow> ns @ ''/'' @ n \<notin> set (seenPods et)) \<and>
     (\<forall>k. k \<in> set (seenPods et') \<longrightarrow> k \<notin> set (seenPods et) \<longrightarrow>
        (\<exists>pod \<in> pods. pod_key pod = k \<and> disrupted et pod \<and> round_succeeded names pod u)) \<and>
     (\<forall>pod \<in> pods. disrupted et pod \<longrightarrow> pod_key pod \<notin> set (seenPods et') \<longrightarrow> request_failed names pod u) \<and>
     seenNodes et' = seenNodes et"

lemma round_succeeded_append: "round_succeeded names pod u \<Longrightarrow> round_succeeded names pod (a @ u @ b)"
proof -
  assume "round_succeeded names pod u"
  then obtain oks x y where "length oks = length (filterContainers pod names)" "list_all (\<lambda>ok. ok) oks"
    "u = x @ pod_round pod (filterContainers pod names) oks @ y" by (auto simp: round_succeeded_def)
  then show ?thesis unfolding round_succeeded_def
    by (intro exI [of _ oks] exI [of _ "a @ x"] exI [of _ "y @ b"]) simp
qed

lemma onceI:
  assumes "watchPodEviction et' = watchPodEviction et" "watchPreemption et' = watchPreemption et"
    "set (seenPods et) \<subseteq> set (seenPods et')"
    "\<And>ns n c node ok. TcCheckpoint ns n c node ok \<in> set u \<Longrightarrow> ns @ ''/'' @ n \<notin> set (seenPods et)"
    "\<And>k. k \<in> set (seenPods et') \<Longrightarrow> k \<notin> set (seenPods et) \<Longrightarrow>
       \<exists>pod \<in> pods. pod_key pod = k \<and> disrupted et pod \<and> round_succeeded names pod u"
    "\<And>pod. pod \<in> pods \<Longrightarrow> disrupted et pod \<Longrightarrow> pod_key pod \<notin> set (seenPods et') \<Longrightarrow> request_failed names pod u"
    "seenNodes et' = seenNodes et"
  shows "once names pods et u et'"
  unfolding once_def using assms by blast

lemma onceD:
  assumes "once names pods et u et'"
  shows "watchPodEviction et' = watchPodEviction et" "watchPreemption et' = watchPreemption et"
    "set (seenPods et) \<subseteq> set (seenPods et')"
    "TcCheckpoint ns n c node ok \<in> set u \<Longrightarrow> ns @ ''/'' @ n \<notin> set (seenPods et)"
    "k \<in> set (seenPods et') \<Longrightarrow> k \<notin> set (seenPods et) \<Longrightarrow>
       \<exists>pod \<in> pods. pod_key pod = k \<and> disrupted et pod \<and> round_succeeded names pod u"
    "pod \<in> pods \<Longrightarrow> disrupted et pod \<Longrightarrow> pod_key pod \<notin> set (seenPods et') \<Longrightarrow> request_failed names pod u"
    "seenNodes et' = seenNodes et"
  using assms unfolding once_def by blast+

lemma once_refl: "(\<And>pod. pod \<in> pods \<Longrightarrow> disrupted et pod \<Longrightarrow> pod_key pod \<in> set (seenPods et)) \<Longrightarrow> once names pods et [] et"
  by (rule onceI) auto

lemma once_mono:
  assumes "once names P et u et'" "P \<subseteq> Q" "\<And>pod. pod \<in> Q \<Longrightarrow> disrupted et pod \<Longrightarrow> pod \<in> P"
  shows "once names Q et u et'"
  using assms(2,3) onceD [OF assms(1)] by (intro onceI) blast+

lemma once_trans:
  assumes "once names P et u et1" "once names Q et1 v et2"
  shows "once names (P \<union> Q) et (u @ v) et2"
proof (rule onceI)
  have d: "disrupted et1 pod = disrupted et pod" for pod using onceD(1,2) [OF assms(1)] by (simp add: disrupted_def)
  note s = onceD(3) [OF assms(1)] onceD(3) [OF assms(2)]
  show "watchPodEviction et2 = watchPodEviction et" "watchPreemption et2 = watchPreemption et"
    "set (seenPods et) \<subseteq> set (seenPods et2)"
    using onceD(1,2) [OF assms(1)] onceD(1,2) [OF assms(2)] s by auto
  show "ns @ ''/'' @ n \<notin> set (seenPods et)" if call: "TcCheckpoint ns n c node ok \<in> set (u @ v)" for ns n c node ok
  proof (cases "TcCheckpoint ns n c node ok \<in> set u")
    case True
    then show ?thesis using onceD(4) [OF assms(1)] by blast
  next
    case False
    then have "TcCheckpoint ns n c node ok \<in> set v" using call by simp
    then show ?thesis using onceD(4) [OF assms(2)] s(1) by blast
  qed
  show "\<exists>pod \<in> P \<union> Q. pod_key pod = k \<and> disrupted et pod \<and> round_succeeded names pod (u @ v)"
    if k: "k \<in> set (seenPods et2)" "k \<notin> set (seenPods et)" for k
  proof (cases "k \<in> set (seenPods et1)")
    case True
    then obtain pod where "pod \<in> P" "pod_key pod = k" "disrupted et pod" "round_succeeded names pod u"
      using onceD(5) [OF assms(1)] k(2) by blast
    then show ?thesis using round_succeeded_append [of names pod u "[]" v] by auto
  next
    case False
    then obtain pod where "pod \<in> Q" "pod_key pod = k" "disrupted et pod" "round_succeeded names pod v"
      using onceD(5) [OF assms(2)] k(1) d by blast
    then show ?thesis using round_succeeded_append [of names pod v u "[]"] by auto
  qed
  show "request_failed names pod (u @ v)"
    if p: "pod \<in> P \<union> Q" "disrupted et pod" "pod_key pod \<notin> set (seenPods et2)" for pod
  proof -
    have "pod_key pod \<notin> set (seenPods et1)" using p(3) s(2) by blast
    then have "request_failed names pod u \<or> request_failed names pod v"
      using p d onceD(6) [OF assms(1)] onceD(6) [OF assms(2)] by blast
    then show ?thesis by (auto simp: request_failed_def)
  qed
  show "seenNodes et2 = seenNodes et" using onceD(7) [OF assms(1)] onceD(7) [OF assms(2)] by simp
qed

lemma pod_round_calls:
  "TcCheckpoint ns n c node ok \<in> set (pod_round pod cs oks) \<Longrightarrow> ns @ ''/'' @ n = pod_key pod \<and> node = podNodeName pod"
  by (auto simp: pod_round_def pod_key_def)

lemma pod_round_outcome:
  assumes "length oks = length (filterContainers pod names)"
  shows "list_all (\<lambda>ok. ok) oks \<Longrightarrow> round_succeeded names pod (pod_round pod (filterContainers pod names) oks)"
    "\<not> list_all (\<lambda>ok. ok) oks \<Longrightarrow> request_failed names pod (pod_round pod (filterContainers pod names) oks)"
proof -
  let ?cs = "filterContainers pod names"
  show "round_succeeded names pod (pod_round pod ?cs oks)" if "list_all (\<lambda>ok. ok) oks"
    unfolding round_succeeded_def using assms that by (intro exI [of _ oks] exI [of _ "[]"]) simp
  show "request_failed names pod (pod_round pod ?cs oks)" if bad: "\<not> list_all (\<lambda>ok. ok) oks"
  proof -
    obtain i where i: "i < length oks" "\<not> oks ! i" using bad by (auto simp: list_all_length)
    then have "pod_round pod ?cs oks ! i =
        TcCheckpoint (podNamespace pod) (podName pod) (ctName (?cs ! i)) (podNodeName pod) False"
      using assms by (simp add: pod_round_def)
    moreover have "i < length (pod_round pod ?cs oks)" using i assms by (simp add: pod_round_def)
    ultimately have "TcCheckpoint (podNamespace pod) (podName pod) (ctName (?cs ! i)) (podNodeName pod) False \<in>
        set (pod_round pod ?cs oks)"
      by (metis nth_mem)
    moreover have "?cs ! i \<in> set ?cs" using i assms by simp
    ultimately show ?thesis unfolding request_failed_def by blast
  qed
qed

lemma checkpointOnce_once:
  assumes "disrupted et pod"
  shows "\<exists>et' w' u. checkpointOnce (tracing env) names pod et (w, t) = (et', (w', t @ u)) \<and> once names {pod} et u et'"
proof (cases "pod_key pod \<in> set (seenPods et)")
  case True
  then have "once names {pod} et [] et" by (intro once_refl) simp
  then show ?thesis using True by (intro exI [of _ et] exI [of _ w] exI [of _ "[]"]) (simp add: checkpointOnce_def)
next
  case False
  let ?cs = "filterContainers pod names"
  obtain w1 oks where r: "length oks = length ?cs"
    "checkpoint_containers (tracing env) pod ?cs (w, t) = (list_all (\<lambda>ok. ok) oks, (w1, t @ pod_round pod ?cs oks))"
    using checkpoint_containers_tracing [of ?cs env pod w t] by auto
  let ?et = "if list_all (\<lambda>ok. ok) oks then et\<lparr>seenPods := pod_key pod # seenPods et\<rparr> else et"
  have "once names {pod} et (pod_round pod ?cs oks) ?et"
  proof (rule onceI)
    show "ns @ ''/'' @ n \<notin> set (seenPods et)" if "TcCheckpoint ns n c node ok \<in> set (pod_round pod ?cs oks)" for ns n c node ok
      using pod_round_calls [OF that] False by simp
  qed (use assms pod_round_outcome [OF r(1)] in \<open>auto split: if_splits\<close>)
  then show ?thesis using False r(2)
    by (intro exI [of _ ?et] exI [of _ w1] exI [of _ "pod_round pod ?cs oks"])
       (simp add: checkpointOnce_def checkpointPodContainers_def)
qed

text \<open>One of the two checks of a pod, with its condition.\<close>

lemma checkpointOnce_if:
  assumes "cond \<Longrightarrow> disrupted et pod"
  shows "\<exists>et' w' u. (if cond then checkpointOnce (tracing env) names pod et (w, t) else (et, (w, t))) = (et', (w', t @ u)) \<and>
    once names (if cond then {pod} else {}) et u et'"
proof (cases cond)
  case True
  then show ?thesis using checkpointOnce_once [OF assms] by simp
next
  case False
  have "once names {} et [] et" by (rule once_refl) simp
  then show ?thesis using False by auto
qed

lemma event_pods_once:
  "\<exists>et' w' u. event_pods (tracing env) names pods et (w, t) = (et', (w', t @ u)) \<and> once names (set pods) et u et'"
proof (induction pods arbitrary: et w t)
  case Nil
  have "once names {} et [] et" by (rule once_refl) simp
  then show ?case by auto
next
  case (Cons pod pods)
  let ?evicted = "watchPodEviction et \<and> podDeletionTimestamp pod \<noteq> None"
  obtain et1 w1 u1 where 1: "(if ?evicted then checkpointOnce (tracing env) names pod et (w, t) else (et, (w, t))) = (et1, (w1, t @ u1))"
    "once names (if ?evicted then {pod} else {}) et u1 et1"
    using checkpointOnce_if [of ?evicted et pod env names w t] by (auto simp: disrupted_def)
  let ?preempted = "watchPreemption et1 \<and> podIsPreempted pod"
  obtain et2 w2 u2 where 2: "(if ?preempted then checkpointOnce (tracing env) names pod et1 (w1, t @ u1) else (et1, (w1, t @ u1))) =
      (et2, (w2, (t @ u1) @ u2))" "once names (if ?preempted then {pod} else {}) et1 u2 et2"
    using checkpointOnce_if [of ?preempted et1 pod env names w1 "t @ u1"] by (auto simp: disrupted_def)
  obtain et3 w3 u3 where 3: "event_pods (tracing env) names pods et2 (w2, (t @ u1) @ u2) = (et3, (w3, ((t @ u1) @ u2) @ u3))"
    "once names (set pods) et2 u3 et3"
    using Cons.IH by blast
  have "once names {pod} et (u1 @ u2) et2"
    by (rule once_mono [OF once_trans [OF 1(2) 2(2)]])
       (use onceD(1,2) [OF 1(2)] in \<open>auto simp: disrupted_def split: if_splits\<close>)
  then have "once names ({pod} \<union> set pods) et ((u1 @ u2) @ u3) et3"
    by (rule once_trans [OF _ 3(2)])
  then show ?case using 1(1) 2(1) 3(1)
    by (intro exI [of _ et3] exI [of _ w3] exI [of _ "u1 @ u2 @ u3"]) (simp del: podIsPreempted.simps)
qed

text \<open>
  The same for the nodes being drained: nothing is asked for pods of a remembered node; a node is
  newly remembered only after a successful round of every selected pod on it; a node that is not
  remembered afterwards had a failed request or holds no selected pod.
\<close>

definition drain_once :: "string list \<Rightarrow> Pod list \<Rightarrow> string set \<Rightarrow> EventTrigger \<Rightarrow> TriggerCall list \<Rightarrow> EventTrigger \<Rightarrow> bool" where
  "drain_once names pods nodes et u et' \<longleftrightarrow>
     et' = et\<lparr>seenNodes := seenNodes et'\<rparr> \<and> set (seenNodes et) \<subseteq> set (seenNodes et') \<and>
     (\<forall>ns n c node ok. TcCheckpoint ns n c node ok \<in> set u \<longrightarrow> node \<in> nodes \<and> node \<notin> set (seenNodes et)) \<and>
     (\<forall>node. node \<in> set (seenNodes et') \<longrightarrow> node \<notin> set (seenNodes et) \<longrightarrow>
        node \<in> nodes \<and> (\<forall>pod \<in> set pods. podNodeName pod = node \<longrightarrow> round_succeeded names pod u)) \<and>
     (\<forall>node \<in> nodes. node \<notin> set (seenNodes et') \<longrightarrow> (\<exists>pod \<in> set pods. podNodeName pod = node) \<longrightarrow>
        (\<exists>pod \<in> set pods. podNodeName pod = node \<and> request_failed names pod u))"

lemma request_failed_append: "request_failed names pod u \<Longrightarrow> request_failed names pod (a @ u @ b)"
  by (auto simp: request_failed_def)

lemma drain_onceI:
  assumes "et' = et\<lparr>seenNodes := seenNodes et'\<rparr>" "set (seenNodes et) \<subseteq> set (seenNodes et')"
    "\<And>ns n c node ok. TcCheckpoint ns n c node ok \<in> set u \<Longrightarrow> node \<in> nodes \<and> node \<notin> set (seenNodes et)"
    "\<And>node. node \<in> set (seenNodes et') \<Longrightarrow> node \<notin> set (seenNodes et) \<Longrightarrow>
       node \<in> nodes \<and> (\<forall>pod \<in> set pods. podNodeName pod = node \<longrightarrow> round_succeeded names pod u)"
    "\<And>node. node \<in> nodes \<Longrightarrow> node \<notin> set (seenNodes et') \<Longrightarrow> \<exists>pod \<in> set pods. podNodeName pod = node \<Longrightarrow>
       \<exists>pod \<in> set pods. podNodeName pod = node \<and> request_failed names pod u"
  shows "drain_once names pods nodes et u et'"
  unfolding drain_once_def by (intro conjI ballI allI impI assms) (use assms(3,4) in blast)+

lemma drain_onceD:
  assumes "drain_once names pods nodes et u et'"
  shows "et' = et\<lparr>seenNodes := seenNodes et'\<rparr>" "set (seenNodes et) \<subseteq> set (seenNodes et')"
    "TcCheckpoint ns n c node ok \<in> set u \<Longrightarrow> node \<in> nodes \<and> node \<notin> set (seenNodes et)"
    "node \<in> set (seenNodes et') \<Longrightarrow> node \<notin> set (seenNodes et) \<Longrightarrow>
       node \<in> nodes \<and> (\<forall>pod \<in> set pods. podNodeName pod = node \<longrightarrow> round_succeeded names pod u)"
    "node \<in> nodes \<Longrightarrow> node \<notin> set (seenNodes et') \<Longrightarrow> \<exists>pod \<in> set pods. podNodeName pod = node \<Longrightarrow>
       \<exists>pod \<in> set pods. podNodeName pod = node \<and> request_failed names pod u"
proof -
  note d = assms [unfolded drain_once_def]
  show "et' = et\<lparr>seenNodes := seenNodes et'\<rparr>" "set (seenNodes et) \<subseteq> set (seenNodes et')" using d by simp_all
  show "TcCheckpoint ns n c node ok \<in> set u \<Longrightarrow> node \<in> nodes \<and> node \<notin> set (seenNodes et)"
    using d [THEN conjunct2, THEN conjunct2, THEN conjunct1] by blast
  note e = d [THEN conjunct2, THEN conjunct2, THEN conjunct2]
  show "node \<in> set (seenNodes et') \<Longrightarrow> node \<notin> set (seenNodes et) \<Longrightarrow>
       node \<in> nodes \<and> (\<forall>pod \<in> set pods. podNodeName pod = node \<longrightarrow> round_succeeded names pod u)"
    using e [THEN conjunct1, THEN spec, of node] by simp
  show "node \<in> nodes \<Longrightarrow> node \<notin> set (seenNodes et') \<Longrightarrow> \<exists>pod \<in> set pods. podNodeName pod = node \<Longrightarrow>
       \<exists>pod \<in> set pods. podNodeName pod = node \<and> request_failed names pod u"
    using e [THEN conjunct2, THEN bspec, of node] by simp
qed

lemma drain_once_trans:
  assumes 1: "drain_once names pods P et u et1" and 2: "drain_once names pods Q et1 v et2"
  shows "drain_once names pods (P \<union> Q) et (u @ v) et2"
proof (rule drain_onceI)
  note s = drain_onceD(2) [OF 1] drain_onceD(2) [OF 2]
  show "et2 = et\<lparr>seenNodes := seenNodes et2\<rparr>"
    using drain_onceD(1) [OF 1] drain_onceD(1) [OF 2] by (cases et; cases et1; cases et2) auto
  show "set (seenNodes et) \<subseteq> set (seenNodes et2)" using s by blast
  show "node \<in> P \<union> Q \<and> node \<notin> set (seenNodes et)" if "TcCheckpoint ns n c node ok \<in> set (u @ v)" for ns n c node ok
  proof (cases "TcCheckpoint ns n c node ok \<in> set u")
    case True
    then show ?thesis using drain_onceD(3) [OF 1] by blast
  next
    case False
    then have "TcCheckpoint ns n c node ok \<in> set v" using that by simp
    then show ?thesis using drain_onceD(3) [OF 2] s(1) by blast
  qed
  show "node \<in> P \<union> Q \<and> (\<forall>pod \<in> set pods. podNodeName pod = node \<longrightarrow> round_succeeded names pod (u @ v))"
    if n: "node \<in> set (seenNodes et2)" "node \<notin> set (seenNodes et)" for node
  proof (cases "node \<in> set (seenNodes et1)")
    case True
    note f = drain_onceD(4) [OF 1 True n(2)]
    then show ?thesis using round_succeeded_append [of names _ u "[]" v] by simp
  next
    case False
    note f = drain_onceD(4) [OF 2 n(1) False]
    then show ?thesis using round_succeeded_append [of names _ v u "[]"] by simp
  qed
  show "\<exists>pod \<in> set pods. podNodeName pod = node \<and> request_failed names pod (u @ v)"
    if n: "node \<in> P \<union> Q" "node \<notin> set (seenNodes et2)" "\<exists>pod \<in> set pods. podNodeName pod = node" for node
  proof (cases "node \<in> Q")
    case True
    show ?thesis using drain_onceD(5) [OF 2 True n(2,3)] request_failed_append [of names _ v u "[]"] by auto
  next
    case False
    have "node \<in> P" "node \<notin> set (seenNodes et1)" using n(1,2) False s(2) by auto
    then show ?thesis using drain_onceD(5) [OF 1 _ _ n(3)] request_failed_append [of names _ u "[]" v] by auto
  qed
qed

text \<open>The outcome of the rounds over the pods of one node.\<close>

definition drain_outcome :: "string list \<Rightarrow> string \<Rightarrow> Pod list \<Rightarrow> bool \<Rightarrow> TriggerCall list \<Rightarrow> bool" where
  "drain_outcome names node pods ok u \<longleftrightarrow>
     (\<forall>ns n c m r. TcCheckpoint ns n c m r \<in> set u \<longrightarrow> m = node) \<and>
     (if ok then \<forall>pod \<in> set pods. podNodeName pod = node \<longrightarrow> round_succeeded names pod u
      else \<exists>pod \<in> set pods. podNodeName pod = node \<and> request_failed names pod u)"

lemma drain_outcome_other:
  "podNodeName pod \<noteq> node \<Longrightarrow> drain_outcome names node (pod # pods) ok u = drain_outcome names node pods ok u"
  by (simp add: drain_outcome_def)

lemma drain_outcome_round:
  assumes on: "podNodeName pod = node" and oks: "length oks = length (filterContainers pod names)"
    and rest: "drain_outcome names node pods ok u"
  shows "drain_outcome names node (pod # pods) (list_all (\<lambda>ok. ok) oks \<and> ok) (pod_round pod (filterContainers pod names) oks @ u)"
proof -
  let ?u = "pod_round pod (filterContainers pod names) oks" and ?ok = "list_all (\<lambda>ok. ok) oks"
  have calls: "m = node" if "TcCheckpoint ns n c m r \<in> set (?u @ u)" for ns n c m r
  proof (cases "TcCheckpoint ns n c m r \<in> set ?u")
    case True
    then show ?thesis using pod_round_calls on by blast
  next
    case False
    then have "TcCheckpoint ns n c m r \<in> set u" using that by simp
    then show ?thesis using rest unfolding drain_outcome_def by blast
  qed
  have late: "round_succeeded names p u \<Longrightarrow> round_succeeded names p (?u @ u)"
    "request_failed names p u \<Longrightarrow> request_failed names p (?u @ u)" for p
    using round_succeeded_append [of names p u ?u "[]"] request_failed_append [of names p u ?u "[]"] by simp_all
  consider "\<not> ?ok" | "?ok" "ok" | "?ok" "\<not> ok" by blast
  then show ?thesis
  proof cases
    case 1
    then have "request_failed names pod (?u @ u)"
      using pod_round_outcome(2) [OF oks] request_failed_append [of names pod ?u "[]" u] by simp
    then show ?thesis unfolding drain_outcome_def using 1 on calls by auto
  next
    case 2
    then have "round_succeeded names pod (?u @ u)"
      using pod_round_outcome(1) [OF oks] round_succeeded_append [of names pod ?u "[]" u] by simp
    then show ?thesis using 2 rest late(1) calls unfolding drain_outcome_def by auto
  next
    case 3
    then obtain p where "p \<in> set pods" "podNodeName p = node" "request_failed names p u"
      using rest unfolding drain_outcome_def by auto
    then show ?thesis using 3 late(2) calls unfolding drain_outcome_def by auto
  qed
qed

lemma drain_pods_tracing:
  "\<exists>ok w' u. drain_pods (tracing env) names node pods fired allOK (w, t) =
       ((fired \<or> (\<exists>pod \<in> set pods. podNodeName pod = node), allOK \<and> ok), (w', t @ u)) \<and>
     drain_outcome names node pods ok u"
proof (induction pods arbitrary: fired allOK w t)
  case Nil
  then show ?case by (intro exI [of _ True] exI [of _ w] exI [of _ "[]"]) (simp add: drain_outcome_def)
next
  case (Cons pod pods)
  show ?case
  proof (cases "podNodeName pod = node")
    case False
    obtain ok w' u where "drain_pods (tracing env) names node pods fired allOK (w, t) =
       ((fired \<or> (\<exists>pod \<in> set pods. podNodeName pod = node), allOK \<and> ok), (w', t @ u))"
      "drain_outcome names node pods ok u" using Cons.IH by blast
    then show ?thesis using False
      by (intro exI [of _ ok] exI [of _ w'] exI [of _ u]) (simp add: drain_outcome_other)
  next
    case True
    let ?cs = "filterContainers pod names"
    obtain w1 oks where r: "length oks = length ?cs"
      "checkpoint_containers (tracing env) pod ?cs (w, t) = (list_all (\<lambda>ok. ok) oks, (w1, t @ pod_round pod ?cs oks))"
      using checkpoint_containers_tracing [of ?cs env pod w t] by auto
    let ?u = "pod_round pod ?cs oks" and ?ok = "list_all (\<lambda>ok. ok) oks"
    obtain ok w' u where IH: "drain_pods (tracing env) names node pods True (allOK \<and> ?ok) (w1, t @ ?u) =
        ((True \<or> (\<exists>pod \<in> set pods. podNodeName pod = node), (allOK \<and> ?ok) \<and> ok), (w', (t @ ?u) @ u))"
      "drain_outcome names node pods ok u"
      using Cons.IH by blast
    show ?thesis using True r(2) IH(1) drain_outcome_round [OF True r(1) IH(2)]
      by (intro exI [of _ "?ok \<and> ok"] exI [of _ w'] exI [of _ "?u @ u"])
         (simp add: checkpointPodContainers_def conj_assoc)
  qed
qed

lemma drain_nodes_once:
  "\<exists>et' w' u. drain_nodes (tracing env) names pods nodes et (w, t) = (et', (w', t @ u)) \<and>
     drain_once names pods (set nodes) et u et'"
proof (induction nodes arbitrary: et w t)
  case Nil
  then show ?case by (intro exI [of _ et] exI [of _ w] exI [of _ "[]"]) (simp add: drain_once_def)
next
  case (Cons node nodes)
  obtain et1 w1 u1 where 1: "drain_nodes (tracing env) names pods (node # nodes) et (w, t) =
      drain_nodes (tracing env) names pods nodes et1 (w1, t @ u1)" "drain_once names pods {node} et u1 et1"
  proof (cases "node \<in> set (seenNodes et)")
    case True
    then show ?thesis using that [of et w "[]"] by (simp add: drain_once_def)
  next
    case False
    obtain ok w1 u where r: "drain_pods (tracing env) names node pods False True (w, t) =
        ((False \<or> (\<exists>pod \<in> set pods. podNodeName pod = node), True \<and> ok), (w1, t @ u))"
      "drain_outcome names node pods ok u" using drain_pods_tracing [of env names node pods False True w t] by blast
    let ?et = "if (\<exists>pod \<in> set pods. podNodeName pod = node) \<and> ok then et\<lparr>seenNodes := node # seenNodes et\<rparr> else et"
    have "drain_once names pods {node} et u ?et"
    proof (rule drain_onceI)
      show "m \<in> {node} \<and> m \<notin> set (seenNodes et)" if "TcCheckpoint ns n c m ok \<in> set u" for ns n c m ok
        using r(2) that False unfolding drain_outcome_def by blast
    qed (use r(2) in \<open>auto simp: drain_outcome_def split: if_splits\<close>)
    then show ?thesis using that [of ?et w1 u] r(1) False by simp
  qed
  obtain et2 w2 u2 where 2: "drain_nodes (tracing env) names pods nodes et1 (w1, t @ u1) = (et2, (w2, (t @ u1) @ u2))"
    "drain_once names pods (set nodes) et1 u2 et2" using Cons.IH by blast
  have "drain_once names pods ({node} \<union> set nodes) et (u1 @ u2) et2" by (rule drain_once_trans [OF 1(2) 2(2)])
  then show ?case using 1(1) 2(1) by auto
qed

end
