(* ===== verification/Trigger_Behaviour.thy ===== *)
theory Trigger_Behaviour
  imports Triggers "HOL-Library.Multiset"
begin

text \<open>
  What the triggers of a CheckpointSchedule promise: the interval trigger checkpoints exactly the
  selected containers, the annotation trigger answers each request once it succeeded, the event
  trigger does not checkpoint a disrupted pod or a drained node twice, and the resource trigger
  keeps its cooldown.
\<close>

section \<open>The resource trigger\<close>

text \<open>The keys of the successful requests, in order.\<close>

definition success_keys :: "TriggerCall list \<Rightarrow> string list" where
  "success_keys u = concat (map (\<lambda>call. case call of
     TcCheckpoint ns pod c node ok \<Rightarrow> if ok then [pod @ ''/'' @ c] else [] | TcPatch p \<Rightarrow> []) u)"

lemma success_keys_simps [simp]:
  "success_keys [] = []" "success_keys (u @ v) = success_keys u @ success_keys v"
  "success_keys [TcCheckpoint ns pod c node ok] = (if ok then [pod @ ''/'' @ c] else [])"
  by (simp_all add: success_keys_def)

text \<open>The record of the trigger, newest first: entries of one container are a cooldown apart.\<close>

definition cooled :: "(string \<times> time) list \<Rightarrow> bool" where
  "cooled h \<longleftrightarrow> sorted_wrt (\<lambda>(k, t) (k', t'). k = k' \<longrightarrow> t - t' \<ge> checkpointCooldown) h"

definition recorded :: "ResourceTrigger \<Rightarrow> TriggerCall list \<Rightarrow> ResourceTrigger \<Rightarrow> bool" where
  "recorded rt u rt' \<longleftrightarrow>
     map fst (lastCheckpoint rt') = rev (success_keys u) @ map fst (lastCheckpoint rt) \<and>
     (cooled (lastCheckpoint rt) \<longrightarrow> cooled (lastCheckpoint rt'))"

lemma recorded_refl: "success_keys u = [] \<Longrightarrow> recorded rt u rt"
  by (simp add: recorded_def)

lemma recorded_trans: "recorded rt u rt1 \<Longrightarrow> recorded rt1 v rt2 \<Longrightarrow> recorded rt (u @ v) rt2"
  by (simp add: recorded_def)

lemma cooled_newest:
  assumes "cooled h" "map_of h k = Some t" "(k, t') \<in> set h"
  shows "t' \<le> t"
  using assms
proof (induction h)
  case (Cons x h)
  obtain k0 t0 where "x = (k0, t0)" by fastforce
  moreover have "0 < checkpointCooldown" by (simp add: checkpointCooldown_def)
  ultimately show ?case using Cons by (fastforce simp: cooled_def split: if_splits)
qed simp

lemma recorded_success:
  assumes "key = pod @ ''/'' @ c" "t - (case map_of (lastCheckpoint rt) key of None \<Rightarrow> 0 | Some l \<Rightarrow> l) \<ge> checkpointCooldown"
  shows "recorded rt [TcCheckpoint ns pod c node True] (rt\<lparr>lastCheckpoint := (key, t) # lastCheckpoint rt\<rparr>)"
proof -
  have "cooled ((key, t) # lastCheckpoint rt)" if h: "cooled (lastCheckpoint rt)"
  proof -
    have "t - t' \<ge> checkpointCooldown" if e: "(key, t') \<in> set (lastCheckpoint rt)" for t'
    proof -
      obtain l where "map_of (lastCheckpoint rt) key = Some l" using e weak_map_of_SomeI by fastforce
      then show ?thesis using assms(2) cooled_newest [OF h _ e] by simp
    qed
    then show ?thesis using h by (auto simp: cooled_def)
  qed
  then show ?thesis using assms(1) by (simp add: recorded_def)
qed

lemma fetchPodMetrics_tracing:
  "fetchPodMetrics (tracing env) ns pod (w, t) =
     (fst (fetchPodMetrics env ns pod w), (snd (fetchPodMetrics env ns pod w), t))"
  by (simp add: fetchPodMetrics_def case_prod_beta split: sum.split option.split)

text \<open>
  The life of a trigger: polls, and between them anything may happen in the world, even a
  change of the clock.
\<close>

inductive resource_history :: "'w TriggerEnv \<Rightarrow> CheckpointSchedule \<Rightarrow> ResourceTrigger \<Rightarrow> 'w \<times> TriggerCall list \<Rightarrow> bool"
  for env schedule where
  start: "resource_history env schedule (NewResourceTrigger schedule) (w, [])"
| poll: "resource_history env schedule rt (w, t) \<Longrightarrow> ResourceTrigger_run (tracing env) schedule rt (w, t) = (rt', (w', t')) \<Longrightarrow>
    resource_history env schedule rt' (w', t')"
| wait: "resource_history env schedule rt (w, t) \<Longrightarrow> resource_history env schedule rt (w', t)"

text \<open>The clock the trigger reads does not run backwards while a container is being checkpointed.\<close>

locale trigger_clock =
  fixes env :: "'w TriggerEnv" and clock :: "'w \<Rightarrow> time"
  assumes now: "clock w \<le> fst (teNow env w)" "fst (teNow env w) \<le> clock (snd (teNow env w))"
    and checkpoint: "clock w \<le> clock (snd (teCheckpoint env ns pod c node w))"
begin

text \<open>
  One container: the loop goes on with the others after no call, a failed call, or a success
  that is recorded and keeps the cooldown.
\<close>

lemma resource_container_step:
  obtains rt1 w1 u where "resource_containers (tracing env) spec pod limits (cm # cms) rt (w, t) =
      resource_containers (tracing env) spec pod limits cms rt1 (w1, t @ u)" "recorded rt u rt1"
proof -
  let ?key = "podName pod @ ''/'' @ cmName cm"
  let ?last = "case map_of (lastCheckpoint rt) ?key of None \<Rightarrow> 0 | Some l \<Rightarrow> l"
  let ?n = "teNow env w"
  let ?c = "teCheckpoint env (podNamespace pod) (podName pod) (cmName cm) (podNodeName pod) (snd ?n)"
  let ?d = "teNow env (snd ?c)"
  let ?call = "TcCheckpoint (podNamespace pod) (podName pod) (cmName cm) (podNodeName pod)"
  consider (unlimited) "map_of limits (cmName cm) = None"
    | (below) ls where "map_of limits (cmName cm) = Some ls" "\<not> thresholdExceeded (teParseQuantity env) cm ls spec"
    | (cooling) ls where "map_of limits (cmName cm) = Some ls" "thresholdExceeded (teParseQuantity env) cm ls spec"
        "fst ?n - ?last < checkpointCooldown"
    | (failed) ls err where "map_of limits (cmName cm) = Some ls" "thresholdExceeded (teParseQuantity env) cm ls spec"
        "\<not> fst ?n - ?last < checkpointCooldown" "fst ?c = Inl err"
    | (success) ls path where "map_of limits (cmName cm) = Some ls" "thresholdExceeded (teParseQuantity env) cm ls spec"
        "\<not> fst ?n - ?last < checkpointCooldown" "fst ?c = Inr path"
    by (cases "map_of limits (cmName cm)"; cases "fst ?c") blast+
  then show thesis
  proof cases
    case unlimited
    then show ?thesis using that [of rt w "[]"] by (simp add: recorded_refl)
  next
    case below
    then show ?thesis using that [of rt w "[]"] by (simp add: recorded_refl)
  next
    case cooling
    then show ?thesis using that [of rt "snd ?n" "[]"] by (simp add: recorded_refl Let_def)
  next
    case failed
    then show ?thesis using that [of rt "snd ?c" "[?call False]"] by (simp add: recorded_refl Let_def)
  next
    case success
    let ?rt = "rt\<lparr>lastCheckpoint := (?key, fst ?d) # lastCheckpoint rt\<rparr>"
    have "fst ?n \<le> fst ?d"
      using now(2) [of w] now(1) [of "snd ?c"]
        checkpoint [of "snd ?n" "podNamespace pod" "podName pod" "cmName cm" "podNodeName pod"] by linarith
    then have "fst ?d - ?last \<ge> checkpointCooldown" using success(3) by linarith
    then have "recorded rt [?call True] ?rt" by (rule recorded_success [OF refl])
    then show ?thesis using success that [of ?rt "snd ?d" "[?call True]"] by (simp add: Let_def)
  qed
qed

lemma resource_containers_recorded:
  "\<exists>rt' w' u. resource_containers (tracing env) spec pod limits cms rt (w, t) = (rt', (w', t @ u)) \<and> recorded rt u rt'"
proof (induction cms arbitrary: rt w t)
  case Nil
  then show ?case by (auto intro: recorded_refl)
next
  case (Cons cm cms)
  obtain rt1 w1 u1 where 1: "resource_containers (tracing env) spec pod limits (cm # cms) rt (w, t) =
      resource_containers (tracing env) spec pod limits cms rt1 (w1, t @ u1)" "recorded rt u1 rt1"
    by (rule resource_container_step)
  obtain rt2 w2 u2 where 2: "resource_containers (tracing env) spec pod limits cms rt1 (w1, t @ u1) = (rt2, (w2, (t @ u1) @ u2))"
    "recorded rt1 u2 rt2" using Cons.IH by blast
  show ?case unfolding 1(1) using 2(1) recorded_trans [OF 1(2) 2(2)]
    by (intro exI [of _ rt2] exI [of _ w2] exI [of _ "u1 @ u2"]) simp
qed

lemma resource_pods_recorded:
  "\<exists>rt' w' u. resource_pods (tracing env) spec names pods rt (w, t) = (rt', (w', t @ u)) \<and> recorded rt u rt'"
proof (induction pods arbitrary: rt w t)
  case Nil
  then show ?case by (auto intro: recorded_refl)
next
  case (Cons pod pods)
  let ?f = "fetchPodMetrics env (podNamespace pod) (podName pod) w"
  let ?limits = "rev (map (\<lambda>c. (ctName c, ctLimits c)) (filterContainers pod names))"
  have f: "fetchPodMetrics (tracing env) (podNamespace pod) (podName pod) (w, t) = (fst ?f, (snd ?f, t))"
    by (simp add: fetchPodMetrics_tracing)
  show ?case
  proof (cases "fst ?f")
    case (Inl err)
    obtain rt' w' u where "resource_pods (tracing env) spec names pods rt (snd ?f, t) = (rt', (w', t @ u))" "recorded rt u rt'"
      using Cons.IH by blast
    then show ?thesis using f Inl by auto
  next
    case (Inr items)
    obtain rt1 w1 u1 where 1: "resource_containers (tracing env) spec pod ?limits items rt (snd ?f, t) = (rt1, (w1, t @ u1))"
      "recorded rt u1 rt1" using resource_containers_recorded by blast
    obtain rt2 w2 u2 where 2: "resource_pods (tracing env) spec names pods rt1 (w1, t @ u1) = (rt2, (w2, (t @ u1) @ u2))"
      "recorded rt1 u2 rt2" using Cons.IH by blast
    show ?thesis using f Inr 1(1) 2(1) recorded_trans [OF 1(2) 2(2)]
      by (intro exI [of _ rt2] exI [of _ w2] exI [of _ "u1 @ u2"]) (simp add: Let_def)
  qed
qed

lemma run_recorded:
  "\<exists>rt' w' u. ResourceTrigger_run (tracing env) schedule rt (w, t) = (rt', (w', t @ u)) \<and> recorded rt u rt'"
proof (cases "ResourceThreshold (csTriggers (csSpec schedule))")
  case None
  then show ?thesis by (intro exI [of _ rt] exI [of _ w] exI [of _ "[]"]) (simp add: ResourceTrigger_run_def recorded_refl)
next
  case (Some spec)
  let ?p = "getMatchingPods (tePods env) (csNamespace (csSpec schedule)) (csSelector (csSpec schedule)) w"
  show ?thesis
  proof (cases "\<exists>pods. fst ?p = Inr pods \<and> teHTTPClient env = None")
    case True
    then obtain pods where pods: "fst ?p = Inr pods" "teHTTPClient env = None" by blast
    obtain rt' w' u where "resource_pods (tracing env) spec (csContainerNames (csSpec schedule)) pods rt (snd ?p, t) = (rt', (w', t @ u))"
      "recorded rt u rt'" using resource_pods_recorded by blast
    then show ?thesis using Some pods
      by (intro exI [of _ rt'] exI [of _ w'] exI [of _ u]) (simp add: ResourceTrigger_run_def)
  next
    case False
    then have "ResourceTrigger_run (tracing env) schedule rt (w, t) = (rt, (snd ?p, t))"
      using Some by (cases "fst ?p"; cases "teHTTPClient env") (simp_all add: ResourceTrigger_run_def)
    then show ?thesis by (intro exI [of _ rt] exI [of _ "snd ?p"] exI [of _ "[]"]) (simp add: recorded_refl)
  qed
qed

lemma history_recorded:
  "resource_history env schedule rt (w, t) \<Longrightarrow>
     map fst (lastCheckpoint rt) = rev (success_keys t) \<and> cooled (lastCheckpoint rt)"
proof (induction rt "(w, t)" arbitrary: w t rule: resource_history.induct)
  case (start w)
  then show ?case by (simp add: NewResourceTrigger_def cooled_def)
next
  case (poll rt w t rt' w' t')
  obtain rt2 w2 u where "ResourceTrigger_run (tracing env) schedule rt (w, t) = (rt2, (w2, t @ u))" "recorded rt u rt2"
    using run_recorded by blast
  then show ?case using poll by (simp add: recorded_def)
next
  case (wait rt w t w')
  then show ?case by simp
qed

end

section \<open>A small cluster\<close>

text \<open>
  One pod on a cordoned node, being evicted, with a trigger annotation and 90 percent of its
  memory used. The world is the time; a checkpoint takes a nanosecond.
\<close>

definition lab_pod :: Pod where
  "lab_pod = \<lparr>podName = ''db-0'', podNamespace = ''shop'', podLabels = [],
     podAnnotations = [(CheckpointTriggerAnnotation, ''true'')], podController = None, podDeletionTimestamp = Some 7,
     podNodeName = ''n1'', podContainers = [\<lparr>ctName = ''db'', ctImage = ''db:1'', ctLimits = [(''memory'', 100 * 10 ^ 9)]\<rparr>],
     podPhase = ''Running'', podReason = [], podMessage = [], podConditions = []\<rparr>"

definition lab_env :: "time TriggerEnv" where
  "lab_env =
     \<lparr>tePods = \<lparr>plSelector = (\<lambda>_. None), plList = (\<lambda>_ _ w. (Inr [lab_pod, lab_pod\<lparr>podPhase := ''Pending''\<rparr>], w))\<rparr>,
      teCheckpoint = (\<lambda>_ _ _ _ w. (Inr ''archive.tar'', w + 1)),
      tePatchAnnotations = (\<lambda>_ w. (None, w)),
      teNodes = (\<lambda>w. (Inr [\<lparr>nodeName = ''n1'', nodeUnschedulable = True\<rparr>], w)),
      teHTTPClient = None,
      teGetMetrics = (\<lambda>_ _ w. (Inr \<lparr>StatusCode = 200, Body = []\<rparr>, w)),
      teMetricsJSON = (\<lambda>_. Some [\<lparr>cmName = ''db'', cmUsage = [(''memory'', ''90'')]\<rparr>]),
      teStatusJSON = (\<lambda>_. None),
      teParseQuantity = (\<lambda>_. Some (90 * 10 ^ 9)),
      teNow = (\<lambda>w. (w, w))\<rparr>"

definition lab_schedule :: CheckpointSchedule where
  "lab_schedule =
     \<lparr>csObjectNamespace = ''shop'', csName = ''s'', csCreationTimestamp = 0, csDeletionTimestamp = None, csFinalizers = [],
      csSpec = \<lparr>csNamespace = ''shop'', csSelector = \<lparr>matchLabels = [], matchExpressions = []\<rparr>, csContainerNames = [''db''],
        csTriggers = \<lparr>tgInterval = None,
          ResourceThreshold = Some \<lparr>CPUPercent = None, MemoryPercent = Some \<lparr>rpUpper = Some 80, rpLower = None\<rparr>, PollIntervalSeconds = None\<rparr>,
          OnKubernetesEvents = [''NodeDrain'', ''PodEviction''], OnAnnotation = True\<rparr>\<rparr>,
      csStatus = \<lparr>csConditions = [], csLastCheckpointTime = None, csCheckpointsCreated = 0\<rparr>\<rparr>"

interpretation lab: trigger_clock lab_env "\<lambda>w. w"
  by unfold_locales (simp_all add: lab_env_def)

lemmas lab_defs = lab_env_def lab_pod_def lab_schedule_def PodRunning_def CheckpointTriggerAnnotation_def

section \<open>Properties\<close>

text \<open>The pods a schedule applies to, as the API server lists them.\<close>

definition lists_pods :: "'w TriggerEnv \<Rightarrow> CheckpointSchedule \<Rightarrow> 'w \<Rightarrow> Pod list \<Rightarrow> 'w \<Rightarrow> bool" where
  "lists_pods env schedule w items w1 \<longleftrightarrow>
     plSelector (tePods env) (csSelector (csSpec schedule)) = None \<and>
     plList (tePods env) (csNamespace (csSpec schedule)) (csSelector (csSpec schedule)) w = (Inr items, w1)"

lemma lists_pods_matching:
  "lists_pods env schedule w items w1 \<Longrightarrow>
     getMatchingPods (tePods env) (csNamespace (csSpec schedule)) (csSelector (csSpec schedule)) w =
       (Inr (filter (\<lambda>p. podPhase p = PodRunning) items), w1)"
  by (simp add: lists_pods_def getMatchingPods_def running_pods_filter)

lemma lab_lists: "lists_pods lab_env lab_schedule w [lab_pod, lab_pod\<lparr>podPhase := ''Pending''\<rparr>] w"
  by (simp add: lists_pods_def lab_env_def)

lemma lab_running: "filter (\<lambda>p. podPhase p = PodRunning) [lab_pod, lab_pod\<lparr>podPhase := ''Pending''\<rparr>] = [lab_pod]"
  by (simp add: lab_pod_def PodRunning_def)

text \<open>Which container a request is for.\<close>

fun asked :: "TriggerCall \<Rightarrow> (string \<times> string \<times> string \<times> string) list" where
  "asked (TcCheckpoint ns pod c node ok) = [(ns, pod, c, node)]"
| "asked (TcPatch p) = []"

fun succeeded :: "TriggerCall \<Rightarrow> bool" where
  "succeeded (TcCheckpoint ns pod c node ok) = ok"
| "succeeded (TcPatch p) = False"

lemma target_calls:
  assumes "length oks = length targets"
  shows "concat (map asked (map2 target_call targets oks)) =
      map (\<lambda>(pod, c). (podNamespace pod, podName pod, ctName c, podNodeName pod)) targets"
    "length (filter succeeded (map2 target_call targets oks)) = length (filter (\<lambda>ok. ok) oks)"
  using assms by (induction oks targets rule: list_induct2) (auto simp: target_call_def)

lemma scheduled_targets_mset:
  "image_mset (\<lambda>(pod, c). (podNamespace pod, podName pod, ctName c, podNodeName pod)) (mset (scheduled_targets schedule pods)) =
     (\<Sum>pod \<in># mset pods. image_mset (\<lambda>c. (podNamespace pod, podName pod, ctName c, podNodeName pod))
        (mset (filter (\<lambda>c. csContainerNames (csSpec schedule) = [] \<or> ctName c \<in> set (csContainerNames (csSpec schedule)))
           (podContainers pod))))"
  unfolding scheduled_targets_eq filterContainers_eq
  by (induction pods) (simp_all add: image_mset.compositionality comp_def)

text \<open>C33: A round of the interval trigger asks, in whatever order the goroutines run, for exactly one
  checkpoint of every selected container of every running pod that matches the schedule, and
  returns the number of those that succeeded, as a 32 bit integer.
\<close>

theorem scheduled_round_exact:
  assumes "lists_pods env schedule w items w1" "\<And>xs. mset (order xs) = mset xs"
  shows "\<exists>w' u. runScheduledCheckpoints (tracing env) order schedule (w, t) =
        (wrap32 (int (length (filter succeeded u))), (w', t @ u)) \<and>
      mset (concat (map asked u)) =
        (\<Sum>pod \<in># mset (filter (\<lambda>p. podPhase p = PodRunning) items).
           image_mset (\<lambda>c. (podNamespace pod, podName pod, ctName c, podNodeName pod))
             (mset (filter (\<lambda>c. csContainerNames (csSpec schedule) = [] \<or> ctName c \<in> set (csContainerNames (csSpec schedule)))
                (podContainers pod))))"
proof -
  let ?names = "csContainerNames (csSpec schedule)"
  let ?pods = "filter (\<lambda>p. podPhase p = PodRunning) items"
  let ?targets = "order (scheduled_targets schedule ?pods)"
  obtain w' oks where r: "length oks = length ?targets"
    "scheduled_run (tracing env) ?targets 0 (w1, t) =
       (fold (\<lambda>ok m. if ok then wrap32 (m + 1) else m) oks 0, (w', t @ map2 target_call ?targets oks))"
    using scheduled_run_tracing [of ?targets env 0 w1 t] by blast
  have count: "fold (\<lambda>ok m. if ok then wrap32 (m + 1) else m) oks 0 = wrap32 (int (length (filter (\<lambda>ok. ok) oks)))"
    using fold_wrap_count [of oks 0] by (simp add: wrap32_def)
  have "mset (concat (map asked (map2 target_call ?targets oks))) =
      image_mset (\<lambda>(pod, c). (podNamespace pod, podName pod, ctName c, podNodeName pod)) (mset (scheduled_targets schedule ?pods))"
    unfolding target_calls(1) [OF r(1)] by (simp add: assms(2))
  also have "\<dots> = (\<Sum>pod \<in># mset ?pods. image_mset (\<lambda>c. (podNamespace pod, podName pod, ctName c, podNodeName pod))
      (mset (filter (\<lambda>c. ?names = [] \<or> ctName c \<in> set ?names) (podContainers pod))))"
    by (rule scheduled_targets_mset)
  finally show ?thesis
    using r(2) count target_calls(2) [OF r(1)] lists_pods_matching [OF assms(1)]
    by (intro exI [of _ w'] exI [of _ "map2 target_call ?targets oks"]) (simp add: runScheduledCheckpoints_def)
qed

text \<open>C34: A poll of the annotation trigger checkpoints every selected container of each running pod
  whose trigger annotation is ''true'', and no other; it takes the annotation away right after
  those requests exactly if all of them succeeded.
\<close>

theorem annotation_trigger_calls:
  assumes "lists_pods env schedule w items w1"
  shows "\<exists>w' u. AnnotationTrigger_run (tracing env) schedule (w, t) = (w', t @ u) \<and>
      annotation_calls (csContainerNames (csSpec schedule)) (filter (\<lambda>p. podPhase p = PodRunning) items) u"
proof -
  obtain w' u where "annotation_pods (tracing env) (csContainerNames (csSpec schedule))
      (filter (\<lambda>p. podPhase p = PodRunning) items) (w1, t) = (w', t @ u)"
    "annotation_calls (csContainerNames (csSpec schedule)) (filter (\<lambda>p. podPhase p = PodRunning) items) u"
    using annotation_pods_calls [of env "csContainerNames (csSpec schedule)" "filter (\<lambda>p. podPhase p = PodRunning) items" w1 t]
    by blast
  then show ?thesis using lists_pods_matching [OF assms] by (auto simp: AnnotationTrigger_run_def)
qed

text \<open>C36: A container whose resource trigger fired is left alone for the cooldown: over the whole life
  of the trigger, whatever happens between the polls, its record holds every successful checkpoint
  it made, in order, and two records of the same container are at least five minutes apart.
\<close>

theorem resource_cooldown:
  assumes "trigger_clock env clock" "resource_history env schedule rt (w, t)"
  shows "map fst (lastCheckpoint rt) = rev (success_keys t) \<and>
    sorted_wrt (\<lambda>(k, new) (k', old). k = k' \<longrightarrow> new - old \<ge> 5 * 60 * 10 ^ 9) (lastCheckpoint rt)"
  using trigger_clock.history_recorded [OF assms] by (simp add: cooled_def checkpointCooldown_def)

theorem scheduled_round_exact_witness:
  "runScheduledCheckpoints (tracing lab_env) rev lab_schedule (0, []) =
     (1, (1, [TcCheckpoint ''shop'' ''db-0'' ''db'' ''n1'' True])) \<and>
   (\<exists>w' u. runScheduledCheckpoints (tracing lab_env) rev lab_schedule (0, []) =
        (wrap32 (int (length (filter succeeded u))), (w', [] @ u)) \<and>
      mset (concat (map asked u)) =
        (\<Sum>pod \<in># mset (filter (\<lambda>p. podPhase p = PodRunning) [lab_pod, lab_pod\<lparr>podPhase := ''Pending''\<rparr>]).
           image_mset (\<lambda>c. (podNamespace pod, podName pod, ctName c, podNodeName pod))
             (mset (filter (\<lambda>c. csContainerNames (csSpec lab_schedule) = [] \<or> ctName c \<in> set (csContainerNames (csSpec lab_schedule)))
                (podContainers pod)))))"
proof
  show "runScheduledCheckpoints (tracing lab_env) rev lab_schedule (0, []) =
     (1, (1, [TcCheckpoint ''shop'' ''db-0'' ''db'' ''n1'' True]))"
    by (simp add: runScheduledCheckpoints_def getMatchingPods_def tracing_def scheduled_targets_def lab_defs wrap32_def)
qed (rule scheduled_round_exact [OF lab_lists mset_rev])

theorem annotation_trigger_calls_witness:
  "AnnotationTrigger_run (tracing lab_env) lab_schedule (0, []) =
     (1, [TcCheckpoint ''shop'' ''db-0'' ''db'' ''n1'' True, TcPatch (lab_pod\<lparr>podAnnotations := []\<rparr>)]) \<and>
   (\<exists>w' u. AnnotationTrigger_run (tracing lab_env) lab_schedule (0, []) = (w', [] @ u) \<and>
      annotation_calls (csContainerNames (csSpec lab_schedule))
        (filter (\<lambda>p. podPhase p = PodRunning) [lab_pod, lab_pod\<lparr>podPhase := ''Pending''\<rparr>]) u)"
proof
  show "AnnotationTrigger_run (tracing lab_env) lab_schedule (0, []) =
     (1, [TcCheckpoint ''shop'' ''db-0'' ''db'' ''n1'' True, TcPatch (lab_pod\<lparr>podAnnotations := []\<rparr>)])"
    by (simp add: AnnotationTrigger_run_def getMatchingPods_def filterContainers_eq tracing_def mget_def mdel_def lab_defs)
qed (rule annotation_trigger_calls [OF lab_lists])

text \<open>C35: A poll of the event trigger disturbs nothing twice. First, on nodes that are being drained,
  it checkpoints the selected pods of those it does not remember, and remembers a node only after
  every selected pod on it was checkpointed. Then it checkpoints the evicted and preempted pods it
  does not remember, and remembers a pod only after all its selected containers succeeded; a
  disrupted pod it still does not remember had a failed request, so the next poll tries again.
  Pods that are gone and nodes no longer drained are forgotten.
\<close>

theorem event_trigger_once:
  assumes "lists_pods env schedule w items w1" "teNodes env w1 = (Inr nodes, w2)"
    and "names = csContainerNames (csSpec schedule)" "pods = filter (\<lambda>p. podPhase p = PodRunning) items"
    and "draining = (if watchNodeDrain et then set (draining_nodes pods nodes) else {})"
    and "et0 = et\<lparr>seenPods := filter (\<lambda>k. k \<in> pod_key ` set pods) (seenPods et),
      seenNodes := if watchNodeDrain et then filter (\<lambda>n. n \<in> draining) (seenNodes et) else seenNodes et\<rparr>"
  shows "\<exists>et1 et2 w' u v. EventTrigger_run (tracing env) schedule et (w, t) = (et2, (w', t @ u @ v)) \<and>
      drain_once names pods draining et0 u et1 \<and> once names (set pods) et1 v et2"
proof -
  let ?et = "et\<lparr>seenPods := filter (\<lambda>k. k \<in> set (map pod_key pods)) (seenPods et)\<rparr>"
  obtain et1 wm u where 1: "(if watchNodeDrain ?et then handleNodeDrain (tracing env) names pods ?et (w1, t) else (?et, (w1, t))) =
      (et1, (wm, t @ u))" "drain_once names pods draining et0 u et1"
  proof (cases "watchNodeDrain et")
    case True
    obtain et1 wm u where "drain_nodes (tracing env) names pods (draining_nodes pods nodes) et0 (w2, t) = (et1, (wm, t @ u))"
      "drain_once names pods (set (draining_nodes pods nodes)) et0 u et1"
      using drain_nodes_once [of env names pods "draining_nodes pods nodes" et0 w2 t] by blast
    moreover have "teNodes (tracing env) (w1, t) = (Inr nodes, (w2, t))" using assms(2) by (simp add: tracing_def)
    ultimately show ?thesis using that [of et1 wm u] True assms(5,6) by (simp add: handleNodeDrain_def Let_def)
  next
    case False
    moreover have "drain_once names pods {} ?et [] ?et" by (simp add: drain_once_def)
    ultimately show ?thesis using that [of ?et w1 "[]"] assms(5,6) by simp
  qed
  obtain et2 w' v where 2: "event_pods (tracing env) names pods et1 (wm, t @ u) = (et2, (w', (t @ u) @ v))"
    "once names (set pods) et1 v et2" using event_pods_once [of env names pods et1 wm "t @ u"] by blast
  have "EventTrigger_run (tracing env) schedule et (w, t) =
      (case (if watchNodeDrain ?et then handleNodeDrain (tracing env) names pods ?et (w1, t) else (?et, (w1, t))) of
         (a, b) \<Rightarrow> event_pods (tracing env) names pods a b)"
    unfolding EventTrigger_run_def getMatchingPods_tracing lists_pods_matching [OF assms(1)] assms(3,4) Let_def by simp
  also have "\<dots> = (et2, (w', t @ u @ v))" by (simp only: 1(1) 2(1) prod.case append_assoc)
  finally have "EventTrigger_run (tracing env) schedule et (w, t) = (et2, (w', t @ u @ v))" .
  then show ?thesis using 1(2) 2(2) by blast
qed

theorem event_trigger_once_witness:
  "EventTrigger_run (tracing lab_env) lab_schedule (NewEventTrigger lab_schedule) (0, []) =
     (\<lparr>watchNodeDrain = True, watchPodEviction = True, watchPreemption = False, seenNodes = [''n1''], seenPods = [''shop/db-0'']\<rparr>,
      (2, [TcCheckpoint ''shop'' ''db-0'' ''db'' ''n1'' True, TcCheckpoint ''shop'' ''db-0'' ''db'' ''n1'' True])) \<and>
   (\<exists>et1 et2 w' u v. EventTrigger_run (tracing lab_env) lab_schedule (NewEventTrigger lab_schedule) (0, []) = (et2, (w', [] @ u @ v)) \<and>
      drain_once [''db''] [lab_pod] {''n1''} (NewEventTrigger lab_schedule) u et1 \<and> once [''db''] (set [lab_pod]) et1 v et2)"
proof
  have new: "NewEventTrigger lab_schedule =
      \<lparr>watchNodeDrain = True, watchPodEviction = True, watchPreemption = False, seenNodes = [], seenPods = []\<rparr>"
    by (simp add: NewEventTrigger_def lab_schedule_def EventNodeDrain_def EventPodEviction_def EventPreemption_def)
  have nodes: "draining_nodes [lab_pod] [\<lparr>nodeName = ''n1'', nodeUnschedulable = True\<rparr>] = [''n1'']"
    by (simp add: draining_nodes_def lab_pod_def)
  show "EventTrigger_run (tracing lab_env) lab_schedule (NewEventTrigger lab_schedule) (0, []) =
     (\<lparr>watchNodeDrain = True, watchPodEviction = True, watchPreemption = False, seenNodes = [''n1''], seenPods = [''shop/db-0'']\<rparr>,
      (2, [TcCheckpoint ''shop'' ''db-0'' ''db'' ''n1'' True, TcCheckpoint ''shop'' ''db-0'' ''db'' ''n1'' True]))"
    unfolding new
    by (simp add: EventTrigger_run_def getMatchingPods_def handleNodeDrain_def draining_nodes_def checkpointPodContainers_def
        checkpointOnce_def filterContainers_eq pod_key_def tracing_def lab_defs)
  have "teNodes lab_env 0 = (Inr [\<lparr>nodeName = ''n1'', nodeUnschedulable = True\<rparr>], 0)" by (simp add: lab_env_def)
  moreover have "[''db''] = csContainerNames (csSpec lab_schedule)" by (simp add: lab_schedule_def)
  moreover have "{''n1''} = (if watchNodeDrain (NewEventTrigger lab_schedule)
      then set (draining_nodes [lab_pod] [\<lparr>nodeName = ''n1'', nodeUnschedulable = True\<rparr>]) else {})"
    by (simp add: new nodes)
  ultimately show "\<exists>et1 et2 w' u v. EventTrigger_run (tracing lab_env) lab_schedule (NewEventTrigger lab_schedule) (0, []) = (et2, (w', [] @ u @ v)) \<and>
      drain_once [''db''] [lab_pod] {''n1''} (NewEventTrigger lab_schedule) u et1 \<and> once [''db''] (set [lab_pod]) et1 v et2"
    by (intro event_trigger_once [OF lab_lists _ _ lab_running [symmetric], where et = "NewEventTrigger lab_schedule"])
      (simp_all add: new)
qed

theorem resource_cooldown_witness:
  "resource_history lab_env lab_schedule
     \<lparr>rtInterval = 30 * 10 ^ 9, lastCheckpoint = [(''db-0/db'', 2 * 10 ^ 12 + 1), (''db-0/db'', 10 ^ 12 + 1)]\<rparr>
     (2 * 10 ^ 12 + 1, [TcCheckpoint ''shop'' ''db-0'' ''db'' ''n1'' True, TcCheckpoint ''shop'' ''db-0'' ''db'' ''n1'' True]) \<and>
   sorted_wrt (\<lambda>(k, new) (k', old). k = k' \<longrightarrow> new - old \<ge> 5 * 60 * 10 ^ 9)
     [(''db-0/db'', 2 * 10 ^ 12 + 1), (''db-0/db'', 10 ^ 12 + 1 :: time)]"
proof -
  note run = ResourceTrigger_run_def getMatchingPods_def fetchPodMetrics_def filterContainers_eq thresholdExceeded_def
    outside_def memoryUsagePercent_def Value_def quot_def wrap64_def checkpointCooldown_def tracing_def lab_defs Let_def
  have "resource_history lab_env lab_schedule \<lparr>rtInterval = 30 * 10 ^ 9, lastCheckpoint = []\<rparr> (0, [])"
    using resource_history.start [of lab_env lab_schedule 0]
    by (simp add: NewResourceTrigger_def defaultResourcePollInterval_def lab_schedule_def)
  then have "resource_history lab_env lab_schedule \<lparr>rtInterval = 30 * 10 ^ 9, lastCheckpoint = []\<rparr> (10 ^ 12, [])"
    by (rule resource_history.wait)
  then have "resource_history lab_env lab_schedule \<lparr>rtInterval = 30 * 10 ^ 9, lastCheckpoint = [(''db-0/db'', 10 ^ 12 + 1)]\<rparr>
     (10 ^ 12 + 1, [TcCheckpoint ''shop'' ''db-0'' ''db'' ''n1'' True])"
    by (rule resource_history.poll) (simp add: run)
  then have "resource_history lab_env lab_schedule \<lparr>rtInterval = 30 * 10 ^ 9, lastCheckpoint = [(''db-0/db'', 10 ^ 12 + 1)]\<rparr>
     (2 * 10 ^ 12, [TcCheckpoint ''shop'' ''db-0'' ''db'' ''n1'' True])"
    by (rule resource_history.wait)
  then have h: "resource_history lab_env lab_schedule
     \<lparr>rtInterval = 30 * 10 ^ 9, lastCheckpoint = [(''db-0/db'', 2 * 10 ^ 12 + 1), (''db-0/db'', 10 ^ 12 + 1)]\<rparr>
     (2 * 10 ^ 12 + 1, [TcCheckpoint ''shop'' ''db-0'' ''db'' ''n1'' True, TcCheckpoint ''shop'' ''db-0'' ''db'' ''n1'' True])"
    by (rule resource_history.poll) (simp add: run)
  show ?thesis using resource_cooldown [OF lab.trigger_clock_axioms h] h by simp
qed

end
