(* ===== verification/Schedule_Controller.thy ===== *)
theory Schedule_Controller
  imports Trigger_Behaviour
begin

text \<open>
  \<^verbatim>\<open>internal/controller/checkpointschedule_controller.go\<close>: the reconciler of a CheckpointSchedule,
  which starts and stops the triggers and takes the periodic checkpoints.

  The goroutines that \<open>Start\<close> launches are kept with the reconciler's map: a trigger is a handle,
  and closing the channel of a trigger that was stopped before is the panic \<open>None\<close>. So is the
  ticker of a goroutine that polls with an interval that is not positive. The manager
  reconciles one object at a time, so the lock of the map is not modelled.
\<close>

section \<open>Definitions\<close>

definition checkpointScheduleFinalizer :: string where
  "checkpointScheduleFinalizer = ''criu.org/checkpoint-schedule-finalizer''"

datatype Stoppable =
    StAnnotation CheckpointSchedule
  | StResource CheckpointSchedule ResourceTrigger
  | StEvent CheckpointSchedule EventTrigger

record ScheduleController =
  activeTriggers :: "(string \<times> nat list) list"
  goroutines :: "(nat \<times> Stoppable) list"
  nextHandle :: nat

record 'w ScheduleEnv =
  seGet :: "string \<Rightarrow> string \<Rightarrow> 'w \<Rightarrow> (ApiError + CheckpointSchedule) \<times> 'w"
  seUpdate :: "CheckpointSchedule \<Rightarrow> 'w \<Rightarrow> ApiError option \<times> 'w"
  seUpdateStatus :: "CheckpointSchedule \<Rightarrow> 'w \<Rightarrow> ApiError option \<times> 'w"
  seTriggers :: "'w TriggerEnv"

subsection \<open>The triggers\<close>

definition eventPollInterval :: duration where "eventPollInterval = 5 * second"
definition annotationPollInterval :: duration where "annotationPollInterval = 30 * second"

fun poll_interval :: "Stoppable \<Rightarrow> duration" where
  "poll_interval (StAnnotation schedule) = annotationPollInterval"
| "poll_interval (StResource schedule rt) = rtInterval rt"
| "poll_interval (StEvent schedule et) = eventPollInterval"

text \<open>\<^verbatim>\<open>time.NewTicker\<close> panics unless the interval is positive.\<close>

definition Start :: "Stoppable \<Rightarrow> ScheduleController \<Rightarrow> (nat \<times> ScheduleController) option" where
  "Start t c =
     (if poll_interval t \<le> 0 then None
      else Some (nextHandle c, c\<lparr>goroutines := (nextHandle c, t) # goroutines c, nextHandle := Suc (nextHandle c)\<rparr>))"

definition Stop :: "nat \<Rightarrow> ScheduleController \<Rightarrow> ScheduleController option" where
  "Stop h c =
     (if h \<in> fst ` set (goroutines c) then Some (c\<lparr>goroutines := filter (\<lambda>(h', t). h' \<noteq> h) (goroutines c)\<rparr>) else None)"

text \<open>
  A tick of the loop that \<open>Start\<close> launched: one poll, which may change the memory of the trigger. A
  goroutine that was stopped has returned from the loop.
\<close>

fun poll_trigger :: "'w TriggerEnv \<Rightarrow> Stoppable \<Rightarrow> 'w \<Rightarrow> Stoppable \<times> 'w" where
  "poll_trigger env (StAnnotation schedule) w = (StAnnotation schedule, AnnotationTrigger_run env schedule w)"
| "poll_trigger env (StResource schedule rt) w = (case ResourceTrigger_run env schedule rt w of (rt', w') \<Rightarrow> (StResource schedule rt', w'))"
| "poll_trigger env (StEvent schedule et) w = (case EventTrigger_run env schedule et w of (et', w') \<Rightarrow> (StEvent schedule et', w'))"

definition tick :: "'w TriggerEnv \<Rightarrow> nat \<Rightarrow> ScheduleController \<Rightarrow> 'w \<Rightarrow> ScheduleController \<times> 'w" where
  "tick env h c w =
     (case map_of (goroutines c) h of
        None \<Rightarrow> (c, w)
      | Some t \<Rightarrow>
          (case poll_trigger env t w of
             (t', w') \<Rightarrow> (c\<lparr>goroutines := map (\<lambda>(h', u). (h', if h' = h then t' else u)) (goroutines c)\<rparr>, w')))"

fun stop_each :: "nat list \<Rightarrow> ScheduleController \<Rightarrow> ScheduleController option" where
  "stop_each [] c = Some c"
| "stop_each (h # hs) c = (case Stop h c of None \<Rightarrow> None | Some c1 \<Rightarrow> stop_each hs c1)"

definition stopTriggers :: "string \<Rightarrow> ScheduleController \<Rightarrow> ScheduleController option" where
  "stopTriggers key c =
     (case stop_each (case map_of (activeTriggers c) key of None \<Rightarrow> [] | Some hs \<Rightarrow> hs) c of
        None \<Rightarrow> None
      | Some c1 \<Rightarrow> Some (c1\<lparr>activeTriggers := filter (\<lambda>(k, hs). k \<noteq> key) (activeTriggers c1)\<rparr>))"

definition wanted_triggers :: "CheckpointSchedule \<Rightarrow> Stoppable list" where
  "wanted_triggers schedule =
     (let triggers = csTriggers (csSpec schedule)
      in (if OnAnnotation triggers then [StAnnotation schedule] else []) @
         (if ResourceThreshold triggers \<noteq> None then [StResource schedule (NewResourceTrigger schedule)] else []) @
         (if length (OnKubernetesEvents triggers) > 0 then [StEvent schedule (NewEventTrigger schedule)] else []))"

fun start_each :: "Stoppable list \<Rightarrow> ScheduleController \<Rightarrow> (nat list \<times> ScheduleController) option" where
  "start_each [] c = Some ([], c)"
| "start_each (t # ts) c =
     (case Start t c of
        None \<Rightarrow> None
      | Some (h, c1) \<Rightarrow> (case start_each ts c1 of None \<Rightarrow> None | Some (hs, c2) \<Rightarrow> Some (h # hs, c2)))"

definition startTriggers :: "string \<Rightarrow> CheckpointSchedule \<Rightarrow> ScheduleController \<Rightarrow> ScheduleController option" where
  "startTriggers key schedule c =
     (case map_of (activeTriggers c) key of
        Some hs \<Rightarrow> Some c
      | None \<Rightarrow>
          (case start_each (wanted_triggers schedule) c of
             None \<Rightarrow> None
           | Some (hs, c1) \<Rightarrow> Some (c1\<lparr>activeTriggers := (key, hs) # activeTriggers c1\<rparr>)))"

subsection \<open>Reconciling\<close>

definition record_round :: "'w ScheduleEnv \<Rightarrow> CheckpointSchedule \<Rightarrow> time \<Rightarrow> int \<Rightarrow> 'w \<Rightarrow> ApiError option \<times> 'w" where
  "record_round env schedule now created w =
     (case seGet env (csObjectNamespace schedule) (csName schedule) w of
        (Inl err, w1) \<Rightarrow> (Some err, w1)
      | (Inr latest, w1) \<Rightarrow>
          seUpdateStatus env (latest\<lparr>csStatus := (csStatus latest)\<lparr>csLastCheckpointTime := Some now,
            csCheckpointsCreated := wrap64 (csCheckpointsCreated (csStatus latest) + created)\<rparr>\<rparr>) w1)"

definition reconcileInterval ::
  "'w ScheduleEnv \<Rightarrow> ((Pod \<times> Container) list \<Rightarrow> (Pod \<times> Container) list) \<Rightarrow> CheckpointSchedule \<Rightarrow> 'w \<Rightarrow>
     (ApiError + Result) \<times> 'w" where
  "reconcileInterval env order schedule w =
     (case tgInterval (csTriggers (csSpec schedule)) of
        None \<Rightarrow> (Inr no_requeue, w)
      | Some interval \<Rightarrow>
          (let last = (case csLastCheckpointTime (csStatus schedule) of
                         None \<Rightarrow> csCreationTimestamp schedule | Some t \<Rightarrow> t);
               next = last + interval
           in case teNow (seTriggers env) w of
                (now, w1) \<Rightarrow>
                  if now < next then (Inr (requeue_after (next - now)), w1)
                  else
                    (case runScheduledCheckpoints (seTriggers env) order schedule w1 of
                       (created, w2) \<Rightarrow>
                         (case RetryOnConflict DefaultRetry_steps (record_round env schedule now created) w2 of
                            (Some err, w3) \<Rightarrow> (Inl err, w3)
                          | (None, w3) \<Rightarrow> (Inr (requeue_after interval), w3)))))"

text \<open>\<open>None\<close> is a panic.\<close>

definition Reconcile_schedule ::
  "'w ScheduleEnv \<Rightarrow> ((Pod \<times> Container) list \<Rightarrow> (Pod \<times> Container) list) \<Rightarrow> string \<Rightarrow> string \<Rightarrow> ScheduleController \<Rightarrow> 'w \<Rightarrow>
     ((ApiError + Result) \<times> 'w \<times> ScheduleController) option" where
  "Reconcile_schedule env order ns name c w =
     (case seGet env ns name w of
        (Inl err, w1) \<Rightarrow> Some (case IgnoreNotFound err of None \<Rightarrow> Inr no_requeue | Some e \<Rightarrow> Inl e, w1, c)
      | (Inr schedule, w1) \<Rightarrow>
          (let key = ns @ ''/'' @ name
           in if csDeletionTimestamp schedule \<noteq> None then
                (case stopTriggers key c of
                   None \<Rightarrow> None
                 | Some c1 \<Rightarrow>
                     if checkpointScheduleFinalizer \<in> set (csFinalizers schedule) then
                       (case seUpdate env (schedule\<lparr>csFinalizers := filter (\<lambda>f. f \<noteq> checkpointScheduleFinalizer) (csFinalizers schedule)\<rparr>) w1 of
                          (Some err, w2) \<Rightarrow> Some (Inl err, w2, c1)
                        | (None, w2) \<Rightarrow> Some (Inr no_requeue, w2, c1))
                     else Some (Inr no_requeue, w1, c1))
              else if checkpointScheduleFinalizer \<notin> set (csFinalizers schedule) then
                (case seUpdate env (schedule\<lparr>csFinalizers := csFinalizers schedule @ [checkpointScheduleFinalizer]\<rparr>) w1 of
                   (Some err, w2) \<Rightarrow> Some (Inl err, w2, c)
                 | (None, w2) \<Rightarrow> Some (Inr no_requeue, w2, c))
              else
                (case startTriggers key schedule c of
                   None \<Rightarrow> None
                 | Some c1 \<Rightarrow> (case reconcileInterval env order schedule w1 of (res, w2) \<Rightarrow> Some (res, w2, c1)))))"

section \<open>The life of the triggers\<close>

text \<open>
  Every goroutine belongs to one entry of the map and every handle of the map is running.
\<close>

definition accounted :: "ScheduleController \<Rightarrow> bool" where
  "accounted c \<longleftrightarrow> distinct (map fst (activeTriggers c)) \<and> distinct (map fst (goroutines c)) \<and>
     mset (map fst (goroutines c)) = mset (concat (map snd (activeTriggers c))) \<and>
     (\<forall>h \<in> fst ` set (goroutines c). h < nextHandle c)"

lemma Stop_running:
  "h \<in> fst ` set (goroutines c) \<Longrightarrow> Stop h c = Some (c\<lparr>goroutines := filter (\<lambda>(h', t). h' \<noteq> h) (goroutines c)\<rparr>)"
  by (simp add: Stop_def)

lemma stop_each_running:
  assumes "distinct hs" "set hs \<subseteq> fst ` set (goroutines c)"
  shows "stop_each hs c = Some (c\<lparr>goroutines := filter (\<lambda>(h, t). h \<notin> set hs) (goroutines c)\<rparr>)"
  using assms
proof (induction hs arbitrary: c)
  case (Cons h hs)
  let ?c = "c\<lparr>goroutines := filter (\<lambda>(h', t). h' \<noteq> h) (goroutines c)\<rparr>"
  have "set hs \<subseteq> fst ` set (goroutines ?c)" using Cons.prems by force
  then have "stop_each hs ?c = Some (?c\<lparr>goroutines := filter (\<lambda>(h, t). h \<notin> set hs) (goroutines ?c)\<rparr>)"
    using Cons by simp
  moreover have "Stop h c = Some ?c" using Cons.prems by (intro Stop_running) auto
  ultimately show ?case by (simp add: case_prod_beta conj_commute)
qed simp

lemma start_each_handles:
  "start_each ts c = Some (hs, c') \<Longrightarrow>
     hs = [nextHandle c ..< nextHandle c + length ts] \<and> activeTriggers c' = activeTriggers c \<and>
     nextHandle c' = nextHandle c + length ts \<and> goroutines c' = rev (zip hs ts) @ goroutines c"
proof (induction ts arbitrary: c hs c')
  case (Cons t ts)
  then show ?case
    by (fastforce simp: Start_def upt_conv_Cons simp del: upt_Suc split: prod.splits option.splits if_splits)
qed simp

text \<open>Only the poll interval of the resource trigger can stop a start.\<close>

definition tickable :: "CheckpointSchedule \<Rightarrow> bool" where
  "tickable s \<longleftrightarrow> (case ResourceThreshold (csTriggers (csSpec s)) of
     None \<Rightarrow> True
   | Some rt \<Rightarrow> (case PollIntervalSeconds rt of None \<Rightarrow> True | Some n \<Rightarrow> 0 < wrap64 (n * second)))"

lemma wanted_tickable: "list_all (\<lambda>t. 0 < poll_interval t) (wanted_triggers s) \<longleftrightarrow> tickable s"
  by (auto simp: wanted_triggers_def tickable_def NewResourceTrigger_def Let_def annotationPollInterval_def
      eventPollInterval_def defaultResourcePollInterval_def split: option.split)

lemma start_each_panics: "start_each ts c = None \<longleftrightarrow> \<not> list_all (\<lambda>t. 0 < poll_interval t) ts"
proof (induction ts arbitrary: c)
  case (Cons t ts)
  show ?case
  proof (cases "poll_interval t \<le> 0")
    case False
    then obtain c1 where "Start t c = Some (nextHandle c, c1)" by (simp add: Start_def)
    then show ?thesis using Cons.IH [of c1] False by (cases "start_each ts c1") auto
  qed (simp add: Start_def)
qed simp

lemma startTriggers_panics:
  "startTriggers key s c = None \<longleftrightarrow> key \<notin> fst ` set (activeTriggers c) \<and> \<not> tickable s"
proof (cases "map_of (activeTriggers c) key")
  case None
  then have "key \<notin> fst ` set (activeTriggers c)" by (simp add: map_of_eq_None_iff)
  then show ?thesis using start_each_panics [of "wanted_triggers s" c] None
    by (cases "start_each (wanted_triggers s) c") (auto simp: startTriggers_def wanted_tickable)
next
  case (Some hs)
  then have "key \<in> fst ` set (activeTriggers c)" by (metis map_of_eq_None_iff option.distinct(1))
  then show ?thesis using Some by (simp add: startTriggers_def)
qed

lemma handles_without:
  assumes "distinct (map fst a)" "distinct (concat (map snd a))" "map_of a key = Some hs"
  shows "filter (\<lambda>h. h \<notin> set hs) (concat (map snd a)) = concat (map snd (filter (\<lambda>(k, hs). k \<noteq> key) a))"
  using assms
proof (induction a)
  case (Cons x a)
  obtain k ks where x: "x = (k, ks)" by fastforce
  show ?case
  proof (cases "k = key")
    case True
    then have "hs = ks" using Cons.prems(3) x by simp
    moreover have "filter (\<lambda>h. h \<notin> set ks) (concat (map snd a)) = concat (map snd a)"
      using Cons.prems(2) x by (intro filter_True) auto
    moreover have "filter (\<lambda>(k, hs). k \<noteq> key) a = a" using Cons.prems(1) x True by (intro filter_True) force
    ultimately show ?thesis using x True by simp
  next
    case False
    then have m: "map_of a key = Some hs" using Cons.prems(3) x by simp
    then have "(key, hs) \<in> set a" by (rule map_of_SomeD)
    then have "set hs \<subseteq> set (concat (map snd a))" by force
    then have "filter (\<lambda>h. h \<notin> set hs) ks = ks" using Cons.prems(2) x by (intro filter_True) auto
    then show ?thesis using Cons.IH [OF _ _ m] Cons.prems x False by simp
  qed
qed simp

lemma accounted_handles:
  assumes "accounted c" "map_of (activeTriggers c) key = Some hs"
  shows "distinct hs" "set hs \<subseteq> fst ` set (goroutines c)"
proof -
  have d: "distinct (concat (map snd (activeTriggers c)))"
    using assms(1) mset_eq_imp_distinct_iff unfolding accounted_def by blast
  have m: "hs \<in> set (map snd (activeTriggers c))" using map_of_SomeD [OF assms(2)] by force
  show "distinct hs" using d m by (simp add: distinct_concat_iff)
  have "set (map fst (goroutines c)) = set (concat (map snd (activeTriggers c)))"
    using assms(1) mset_eq_setD unfolding accounted_def by blast
  then show "set hs \<subseteq> fst ` set (goroutines c)" using m by auto
qed

lemma stopTriggers_accounted:
  assumes c: "accounted c"
  shows "\<exists>c'. stopTriggers key c = Some c' \<and> accounted c' \<and>
    activeTriggers c' = filter (\<lambda>(k, hs). k \<noteq> key) (activeTriggers c)"
proof (cases "map_of (activeTriggers c) key")
  case None
  then have "filter (\<lambda>(k, hs). k \<noteq> key) (activeTriggers c) = activeTriggers c"
    by (intro filter_True) (auto simp: map_of_eq_None_iff image_iff)
  then show ?thesis using c None by (simp add: stopTriggers_def)
next
  case (Some hs)
  note h = accounted_handles [OF c Some]
  let ?c = "c\<lparr>goroutines := filter (\<lambda>(h, t). h \<notin> set hs) (goroutines c),
    activeTriggers := filter (\<lambda>(k, hs). k \<noteq> key) (activeTriggers c)\<rparr>"
  have d: "distinct (concat (map snd (activeTriggers c)))"
    using c mset_eq_imp_distinct_iff unfolding accounted_def by blast
  have f: "map fst (filter (\<lambda>(h, t). h \<notin> set hs) gs) = filter (\<lambda>h. h \<notin> set hs) (map fst gs)" for gs :: "(nat \<times> Stoppable) list"
    by (induction gs) auto
  have "mset (filter (\<lambda>h. h \<notin> set hs) (map fst (goroutines c))) =
      mset (filter (\<lambda>h. h \<notin> set hs) (concat (map snd (activeTriggers c))))"
    using c unfolding accounted_def mset_filter by metis
  also have "\<dots> = mset (concat (map snd (filter (\<lambda>(k, hs). k \<noteq> key) (activeTriggers c))))"
    using handles_without [OF _ d Some] c by (simp add: accounted_def)
  finally have "accounted ?c" using c
    by (auto simp: accounted_def f distinct_map_filter simp del: mset_map mset_filter)
  moreover have "stopTriggers key c = Some ?c"
    using stop_each_running [OF h] Some by (simp add: stopTriggers_def)
  ultimately show ?thesis by auto
qed

lemma startTriggers_accounted:
  assumes c: "accounted c" and st: "startTriggers key s c = Some c'"
  shows "accounted c' \<and> key \<in> fst ` set (activeTriggers c') \<and>
    (\<forall>k. k \<noteq> key \<longrightarrow> map_of (activeTriggers c') k = map_of (activeTriggers c) k) \<and>
    (\<exists>new. goroutines c' = new @ goroutines c \<and>
       rev (map snd new) = (if key \<in> fst ` set (activeTriggers c) then [] else wanted_triggers s))"
proof (cases "map_of (activeTriggers c) key")
  case None
  obtain hs c1 where s: "start_each (wanted_triggers s) c = Some (hs, c1)"
    and c': "c' = c1\<lparr>activeTriggers := (key, hs) # activeTriggers c1\<rparr>"
    using st None by (auto simp: startTriggers_def split: option.splits)
  let ?ts = "wanted_triggers s"
  note h = start_each_handles [OF s]
  have len: "length hs = length ?ts" using h by simp
  have fsts: "map fst (goroutines c1) = rev hs @ map fst (goroutines c)"
    using h len by (simp add: rev_map [symmetric])
  have old: "h' < nextHandle c" if "h' \<in> set (map fst (goroutines c))" for h'
    using c that by (auto simp: accounted_def)
  have "accounted (c1\<lparr>activeTriggers := (key, hs) # activeTriggers c1\<rparr>)"
    unfolding accounted_def
  proof (intro conjI ballI)
    show "distinct (map fst (activeTriggers (c1\<lparr>activeTriggers := (key, hs) # activeTriggers c1\<rparr>)))"
      using None h c by (simp add: accounted_def map_of_eq_None_iff)
    have "set hs \<inter> set (map fst (goroutines c)) = {}" "distinct hs" using h old by fastforce+
    then show "distinct (map fst (goroutines (c1\<lparr>activeTriggers := (key, hs) # activeTriggers c1\<rparr>)))"
      using fsts c by (simp add: accounted_def)
    show "mset (map fst (goroutines (c1\<lparr>activeTriggers := (key, hs) # activeTriggers c1\<rparr>))) =
        mset (concat (map snd (activeTriggers (c1\<lparr>activeTriggers := (key, hs) # activeTriggers c1\<rparr>))))"
      using fsts h c by (simp add: accounted_def del: mset_map)
    fix h' assume "h' \<in> fst ` set (goroutines (c1\<lparr>activeTriggers := (key, hs) # activeTriggers c1\<rparr>))"
    then have "h' \<in> set (rev hs @ map fst (goroutines c))" unfolding fsts [symmetric] by simp
    then show "h' < nextHandle (c1\<lparr>activeTriggers := (key, hs) # activeTriggers c1\<rparr>)" using h old by fastforce
  qed
  moreover have "key \<notin> fst ` set (activeTriggers c)" using None by (simp add: map_of_eq_None_iff)
  ultimately show ?thesis using None h len
    by (auto simp: c' rev_map [symmetric] intro!: exI [of _ "rev (zip hs ?ts)"])
next
  case (Some hs)
  then have "key \<in> fst ` set (activeTriggers c)" by (metis map_of_eq_None_iff option.distinct(1))
  then show ?thesis using Some c st by (simp add: startTriggers_def)
qed

text \<open>
  The controllers that reconciles and polls of the running triggers lead to, in any order and
  whatever the world is at each of them.
\<close>

inductive controller_run ::
  "'w ScheduleEnv \<Rightarrow> ((Pod \<times> Container) list \<Rightarrow> (Pod \<times> Container) list) \<Rightarrow> ScheduleController \<Rightarrow> bool" for env order where
  fresh: "controller_run env order \<lparr>activeTriggers = [], goroutines = [], nextHandle = 0\<rparr>"
| reconcile: "controller_run env order c \<Longrightarrow> Reconcile_schedule env order ns name c w = Some (res, w', c') \<Longrightarrow>
    controller_run env order c'"
| tick: "controller_run env order c \<Longrightarrow> tick (seTriggers env) h c w = (c', w') \<Longrightarrow> controller_run env order c'"

lemma tick_handles:
  assumes "tick env h c w = (c', w')"
  shows "map fst (goroutines c') = map fst (goroutines c) \<and> activeTriggers c' = activeTriggers c \<and> nextHandle c' = nextHandle c"
proof -
  have "map fst (map (\<lambda>(h', u). (h', f h' u)) gs) = map fst gs" for f :: "nat \<Rightarrow> Stoppable \<Rightarrow> Stoppable" and gs
    by (induction gs) auto
  then show ?thesis using assms by (auto simp: tick_def split: option.splits prod.splits)
qed

text \<open>A trigger that was stopped asks for nothing any more.\<close>

lemma stopped_is_silent:
  assumes "Stop h c = Some c'"
  shows "tick env h c' w = (c', w)"
proof -
  have "map_of (filter (\<lambda>(h', t). h' \<noteq> h) gs) h = None" for gs :: "(nat \<times> Stoppable) list" by (induction gs) auto
  then show ?thesis using assms by (auto simp: Stop_def tick_def split: if_splits)
qed

lemma reconcile_controller:
  assumes "accounted c"
  shows "case fst (seGet env ns name w) of
      Inl err \<Rightarrow> \<exists>res w'. Reconcile_schedule env order ns name c w = Some (res, w', c)
    | Inr s \<Rightarrow>
        if csDeletionTimestamp s \<noteq> None
        then \<exists>res w' c'. Reconcile_schedule env order ns name c w = Some (res, w', c') \<and> accounted c' \<and>
          activeTriggers c' = filter (\<lambda>(k, hs). k \<noteq> ns @ ''/'' @ name) (activeTriggers c)
        else if checkpointScheduleFinalizer \<notin> set (csFinalizers s)
        then \<exists>res w'. Reconcile_schedule env order ns name c w = Some (res, w', c)
        else case startTriggers (ns @ ''/'' @ name) s c of
          None \<Rightarrow> Reconcile_schedule env order ns name c w = None
        | Some c' \<Rightarrow> (\<exists>res w'. Reconcile_schedule env order ns name c w = Some (res, w', c')) \<and> accounted c'"
proof -
  obtain r w1 where g: "seGet env ns name w = (r, w1)" by fastforce
  show ?thesis
  proof (cases r)
    case (Inl err)
    then show ?thesis using g by (simp add: Reconcile_schedule_def)
  next
    case (Inr s)
    obtain c1 where stop: "stopTriggers (ns @ ''/'' @ name) c = Some c1" "accounted c1"
      "activeTriggers c1 = filter (\<lambda>(k, hs). k \<noteq> ns @ ''/'' @ name) (activeTriggers c)"
      using stopTriggers_accounted [OF assms] by blast
    have start: "startTriggers (ns @ ''/'' @ name) s c = Some c' \<Longrightarrow> accounted c'" for c'
      using startTriggers_accounted [OF assms] by blast
    show ?thesis using g Inr stop start
      by (cases "csDeletionTimestamp s = None"; cases "checkpointScheduleFinalizer \<in> set (csFinalizers s)")
         (simp_all add: Reconcile_schedule_def split: prod.split option.split)
  qed
qed

lemma controller_run_accounted: "controller_run env order c \<Longrightarrow> accounted c"
proof (induction rule: controller_run.induct)
  case fresh
  then show ?case by (simp add: accounted_def)
next
  case (reconcile c ns name w res w' c')
  then show ?case using reconcile_controller [where c = c and env = env and ns = ns and name = name and w = w and order = order]
    by (auto split: sum.splits if_splits option.splits)
next
  case (tick c h w c' w')
  have h: "map fst (goroutines c') = map fst (goroutines c)" "activeTriggers c' = activeTriggers c" "nextHandle c' = nextHandle c"
    using tick_handles [OF tick(2)] by simp_all
  then have f: "fst ` set (goroutines c') = fst ` set (goroutines c)" by (metis set_map)
  show ?case using tick(3) unfolding accounted_def h f .
qed


text \<open>A schedule that asks for a poll interval of zero seconds crashes the operator.\<close>

lemma zero_poll_interval_crashes:
  assumes "seGet env ns name w = (Inr s, w1)" "csDeletionTimestamp s = None"
    "checkpointScheduleFinalizer \<in> set (csFinalizers s)" "ns @ ''/'' @ name \<notin> fst ` set (activeTriggers c)"
    "ResourceThreshold (csTriggers (csSpec s)) = Some rt" "PollIntervalSeconds rt = Some 0"
  shows "Reconcile_schedule env order ns name c w = None"
proof -
  have "\<not> tickable s" using assms(5,6) by (simp add: tickable_def wrap64_def)
  then have "startTriggers (ns @ ''/'' @ name) s c = None" using assms(4) startTriggers_panics by blast
  then show ?thesis using assms(1-3) by (simp add: Reconcile_schedule_def)
qed

section \<open>The cadence of the rounds\<close>

subsection \<open>Recording\<close>

datatype ScheduleCall = ScNow time | ScCheckpoint string string string string

definition schedule_tracing :: "'w ScheduleEnv \<Rightarrow> ('w \<times> ScheduleCall list) ScheduleEnv" where
  "schedule_tracing env =
     \<lparr>seGet = (\<lambda>ns name (w, t). case seGet env ns name w of (r, w1) \<Rightarrow> (r, (w1, t))),
      seUpdate = (\<lambda>s (w, t). case seUpdate env s w of (r, w1) \<Rightarrow> (r, (w1, t))),
      seUpdateStatus = (\<lambda>s (w, t). case seUpdateStatus env s w of (r, w1) \<Rightarrow> (r, (w1, t))),
      seTriggers =
        \<lparr>tePods = \<lparr>plSelector = plSelector (tePods (seTriggers env)),
           plList = (\<lambda>ns sel (w, t). case plList (tePods (seTriggers env)) ns sel w of (r, w1) \<Rightarrow> (r, (w1, t)))\<rparr>,
         teCheckpoint = (\<lambda>ns pod c node (w, t). case teCheckpoint (seTriggers env) ns pod c node w of
           (r, w1) \<Rightarrow> (r, (w1, t @ [ScCheckpoint ns pod c node]))),
         tePatchAnnotations = (\<lambda>pod (w, t). case tePatchAnnotations (seTriggers env) pod w of (r, w1) \<Rightarrow> (r, (w1, t))),
         teNodes = (\<lambda>(w, t). case teNodes (seTriggers env) w of (r, w1) \<Rightarrow> (r, (w1, t))),
         teHTTPClient = teHTTPClient (seTriggers env),
         teGetMetrics = (\<lambda>ns pod (w, t). case teGetMetrics (seTriggers env) ns pod w of (r, w1) \<Rightarrow> (r, (w1, t))),
         teMetricsJSON = teMetricsJSON (seTriggers env), teStatusJSON = teStatusJSON (seTriggers env),
         teParseQuantity = teParseQuantity (seTriggers env),
         teNow = (\<lambda>(w, t). case teNow (seTriggers env) w of (now, w1) \<Rightarrow> (now, (w1, t @ [ScNow now])))\<rparr>\<rparr>"

lemma schedule_tracing_simps [simp]:
  "seGet (schedule_tracing env) ns name (w, t) = (fst (seGet env ns name w), (snd (seGet env ns name w), t))"
  "seUpdate (schedule_tracing env) s (w, t) = (fst (seUpdate env s w), (snd (seUpdate env s w), t))"
  "seUpdateStatus (schedule_tracing env) s (w, t) = (fst (seUpdateStatus env s w), (snd (seUpdateStatus env s w), t))"
  "teNow (seTriggers (schedule_tracing env)) (w, t) =
     (fst (teNow (seTriggers env) w), (snd (teNow (seTriggers env) w), t @ [ScNow (fst (teNow (seTriggers env) w))]))"
  "teCheckpoint (seTriggers (schedule_tracing env)) ns pod c node (w, t) =
     (fst (teCheckpoint (seTriggers env) ns pod c node w),
      (snd (teCheckpoint (seTriggers env) ns pod c node w), t @ [ScCheckpoint ns pod c node]))"
  "getMatchingPods (tePods (seTriggers (schedule_tracing env))) ns sel (w, t) =
     (fst (getMatchingPods (tePods (seTriggers env)) ns sel w), (snd (getMatchingPods (tePods (seTriggers env)) ns sel w), t))"
  by (simp_all add: schedule_tracing_def getMatchingPods_def case_prod_beta split: option.split sum.split)

text \<open>The times at which a round with at least one request began.\<close>

fun rounds :: "ScheduleCall list \<Rightarrow> time list" where
  "rounds [] = []"
| "rounds (ScNow n # ScCheckpoint a b c d # t) = n # rounds t"
| "rounds (x # t) = rounds t"

fun is_checkpoint :: "ScheduleCall \<Rightarrow> bool" where
  "is_checkpoint (ScCheckpoint a b c d) = True"
| "is_checkpoint (ScNow n) = False"

lemma rounds_checkpoints: "list_all is_checkpoint cs \<Longrightarrow> rounds cs = []"
  by (induction cs rule: rounds.induct) auto

lemma rounds_round:
  "list_all is_checkpoint cs \<Longrightarrow> rounds (t @ ScNow n # cs) = rounds t @ (if cs = [] then [] else [n])"
proof (induction t rule: rounds.induct)
  case 1
  then show ?case by (cases cs rule: list.exhaust; cases "hd cs") (auto simp: rounds_checkpoints)
qed auto

lemma scheduled_run_calls:
  assumes "\<And>a b c d v. f (snd (teCheckpoint (seTriggers env) a b c d v)) = f v"
  shows "\<exists>k w' cs. scheduled_run (seTriggers (schedule_tracing env)) targets n (w, t) = (k, (w', t @ cs)) \<and>
     list_all is_checkpoint cs \<and> f w' = f w"
proof (induction targets arbitrary: n w t)
  case Nil
  then show ?case by (intro exI [of _ n] exI [of _ w] exI [of _ "[]"]) simp
next
  case (Cons x targets)
  obtain pod c where x: "x = (pod, c)" by fastforce
  let ?call = "ScCheckpoint (podNamespace pod) (podName pod) (ctName c) (podNodeName pod)"
  let ?r = "teCheckpoint (seTriggers env) (podNamespace pod) (podName pod) (ctName c) (podNodeName pod) w"
  let ?m = "if isl (fst ?r) then n else wrap32 (n + 1)"
  have s: "scheduled_run (seTriggers (schedule_tracing env)) (x # targets) n (w, t) =
      scheduled_run (seTriggers (schedule_tracing env)) targets ?m (snd ?r, t @ [?call])"
    by (cases "fst ?r") (simp_all add: x)
  obtain k w' cs where "scheduled_run (seTriggers (schedule_tracing env)) targets ?m (snd ?r, t @ [?call]) = (k, (w', (t @ [?call]) @ cs))"
    "list_all is_checkpoint cs" "f w' = f (snd ?r)"
    using Cons.IH by blast
  then show ?case using s assms by (intro exI [of _ k] exI [of _ w'] exI [of _ "?call # cs"]) auto
qed

subsection \<open>The stored schedule\<close>

text \<open>A \<^verbatim>\<open>metav1.Time\<close> is stored with a precision of seconds.\<close>

definition stored_time :: "time \<Rightarrow> time" where
  "stored_time t = t - t mod second"

locale schedule_store =
  fixes env :: "'w ScheduleEnv" and stored :: "'w \<Rightarrow> CheckpointSchedule option" and ns name :: string
  assumes get_stored: "stored (snd (seGet env ns name w)) = stored w"
    and get_result: "fst (seGet env ns name w) = Inr s \<Longrightarrow> stored w = Some s"
    and stored_key: "stored w = Some s \<Longrightarrow> csObjectNamespace s = ns \<and> csName s = name"
    and update_stored: "csObjectNamespace d = ns \<Longrightarrow> csName d = name \<Longrightarrow> stored w = Some s \<Longrightarrow>
      stored (snd (seUpdate env d w)) \<in> {None, Some s, Some (s\<lparr>csFinalizers := csFinalizers d\<rparr>)}"
    and status_stored: "csObjectNamespace d = ns \<Longrightarrow> csName d = name \<Longrightarrow> stored w = Some s \<Longrightarrow>
      write_outcome (fst (seUpdateStatus env d w)) s
        (s\<lparr>csStatus := (csStatus d)\<lparr>csLastCheckpointTime := map_option stored_time (csLastCheckpointTime (csStatus d))\<rparr>\<rparr>)
        (stored (snd (seUpdateStatus env d w)))"
    and list_stored: "stored (snd (plList (tePods (seTriggers env)) a sel w)) = stored w"
    and checkpoint_stored: "stored (snd (teCheckpoint (seTriggers env) a pod c node w)) = stored w"
    and now_stored: "stored (snd (teNow (seTriggers env) w)) = stored w"
begin

lemma pods_stored: "stored (snd (getMatchingPods (tePods (seTriggers env)) a sel w)) = stored w"
  using list_stored [of a sel w] by (auto simp: getMatchingPods_def split: option.split sum.split prod.split)

lemma run_stored:
  "\<exists>k w' cs. runScheduledCheckpoints (seTriggers (schedule_tracing env)) order s (w, t) = (k, (w', t @ cs)) \<and>
     list_all is_checkpoint cs \<and> stored w' = stored w"
proof -
  let ?p = "getMatchingPods (tePods (seTriggers env)) (csNamespace (csSpec s)) (csSelector (csSpec s)) w"
  have p: "stored (snd ?p) = stored w" by (rule pods_stored)
  show ?thesis
  proof (cases "fst ?p")
    case (Inl err)
    then show ?thesis using p
      by (intro exI [of _ 0] exI [of _ "snd ?p"] exI [of _ "[]"]) (simp add: runScheduledCheckpoints_def)
  next
    case (Inr pods)
    obtain k w' cs where r: "scheduled_run (seTriggers (schedule_tracing env)) (order (scheduled_targets s pods)) 0 (snd ?p, t) =
        (k, (w', t @ cs))" "list_all is_checkpoint cs" "stored w' = stored (snd ?p)"
      using scheduled_run_calls [of stored env "order (scheduled_targets s pods)" 0 "snd ?p" t, OF checkpoint_stored] by blast
    then show ?thesis using Inr p
      by (intro exI [of _ k] exI [of _ w'] exI [of _ cs]) (simp add: runScheduledCheckpoints_def)
  qed
qed

end

subsection \<open>Rounds over time\<close>

text \<open>What the cadence depends on, and the time the next round counts from.\<close>

definition anchor :: "CheckpointSchedule \<Rightarrow> time \<times> time option \<times> duration option" where
  "anchor s = (csCreationTimestamp s, csLastCheckpointTime (csStatus s), tgInterval (csTriggers (csSpec s)))"

definition round_base :: "CheckpointSchedule \<Rightarrow> time" where
  "round_base s = (case csLastCheckpointTime (csStatus s) of None \<Rightarrow> csCreationTimestamp s | Some t \<Rightarrow> t)"

definition undisturbed :: "CheckpointSchedule option \<Rightarrow> CheckpointSchedule option \<Rightarrow> bool" where
  "undisturbed so so' \<longleftrightarrow> so' = None \<or> (\<exists>s s'. so = Some s \<and> so' = Some s' \<and> anchor s' = anchor s)"

definition paced :: "CheckpointSchedule option \<Rightarrow> ScheduleCall list \<Rightarrow> CheckpointSchedule option \<Rightarrow> ScheduleCall list \<Rightarrow> bool" where
  "paced so t so' t' \<longleftrightarrow>
     rounds t' = rounds t \<and> undisturbed so so' \<or>
     (\<exists>s s' i n. so = Some s \<and> so' = Some s' \<and> tgInterval (csTriggers (csSpec s)) = Some i \<and> n \<ge> round_base s + i \<and>
        rounds t' \<in> {rounds t, rounds t @ [n]} \<and>
        anchor s' = (csCreationTimestamp s, Some (stored_time n), tgInterval (csTriggers (csSpec s))))"

lemma undisturbed_refl: "undisturbed so so"
  by (cases so) (simp_all add: undisturbed_def)

context schedule_store
begin

lemma record_round_stored:
  assumes "RetryOnConflict DefaultRetry_steps (record_round (schedule_tracing env) s now k) (w, t) = (None, (w', t'))"
    "stored w = Some s"
  shows "t' = t \<and> (\<exists>s'. stored w' = Some s' \<and>
    anchor s' = (csCreationTimestamp s, Some (stored_time now), tgInterval (csTriggers (csSpec s))))"
proof -
  let ?fn = "record_round (schedule_tracing env) s now k"
  define Q where "Q e y \<longleftrightarrow> snd y = t \<and> (e = None \<longrightarrow> (\<exists>s'. stored (fst y) = Some s' \<and>
    anchor s' = (csCreationTimestamp s, Some (stored_time now), tgInterval (csTriggers (csSpec s)))))"
    for e :: "ApiError option" and y
  have step: "Q e y \<and> (e = Some Conflict \<longrightarrow> stored (fst y) = Some s \<and> snd y = t)"
    if I: "stored (fst x) = Some s \<and> snd x = t" and f: "?fn x = (e, y)" for x e y
  proof -
    obtain v where x: "x = (v, t)" using I by (cases x) auto
    have key: "csObjectNamespace s = ns" "csName s = name" using stored_key [of v s] I x by simp_all
    let ?g = "seGet env ns name v"
    have g: "stored (snd ?g) = Some s" using get_stored I x by simp
    show ?thesis
    proof (cases "fst ?g")
      case (Inl err)
      then show ?thesis using f x key g by (auto simp: record_round_def Q_def)
    next
      case (Inr latest)
      then have l: "latest = s" using get_result [of v latest] I x by simp
      let ?d = "s\<lparr>csStatus := (csStatus s)\<lparr>csLastCheckpointTime := Some now,
        csCheckpointsCreated := wrap64 (csCheckpointsCreated (csStatus s) + k)\<rparr>\<rparr>"
      have "write_outcome (fst (seUpdateStatus env ?d (snd ?g))) s
          (s\<lparr>csStatus := (csStatus ?d)\<lparr>csLastCheckpointTime := map_option stored_time (csLastCheckpointTime (csStatus ?d))\<rparr>\<rparr>)
          (stored (snd (seUpdateStatus env ?d (snd ?g))))"
        by (rule status_stored) (simp_all add: key g)
      moreover have "e = fst (seUpdateStatus env ?d (snd ?g))" "y = (snd (seUpdateStatus env ?d (snd ?g)), t)"
        using f x key Inr l by (simp_all add: record_round_def)
      ultimately show ?thesis by (simp add: write_outcome_def anchor_def Q_def split: if_splits)
    qed
  qed
  have steps: "DefaultRetry_steps = Suc 4" by (simp add: DefaultRetry_steps_def)
  have "Q None (w', t')"
    by (rule RetryOnConflict_outcome [where I = "\<lambda>x. stored (fst x) = Some s \<and> snd x = t" and Q = Q, OF assms(1) [unfolded steps]])
       (simp add: assms(2), rule step)
  then show ?thesis by (simp add: Q_def)
qed

lemma reconcileInterval_paced:
  assumes "reconcileInterval (schedule_tracing env) order s (w, t) = (Inr r, (w', t'))" "stored w = Some s"
  shows "paced (stored w) t (stored w') t'"
proof (cases "tgInterval (csTriggers (csSpec s))")
  case None
  then show ?thesis using assms by (simp add: reconcileInterval_def paced_def undisturbed_refl)
next
  case (Some i)
  let ?n = "teNow (seTriggers env) w"
  have n: "stored (snd ?n) = Some s" using now_stored assms(2) by simp
  show ?thesis
  proof (cases "fst ?n < round_base s + i")
    case True
    have "rounds (t @ [ScNow (fst ?n)]) = rounds t" using rounds_round [of "[]" t] by simp
    then show ?thesis using assms Some True n
      by (auto simp: reconcileInterval_def round_base_def paced_def undisturbed_def)
  next
    case due: False
    obtain k w2 cs where run: "runScheduledCheckpoints (seTriggers (schedule_tracing env)) order s (snd ?n, t @ [ScNow (fst ?n)]) =
        (k, (w2, (t @ [ScNow (fst ?n)]) @ cs))" "list_all is_checkpoint cs" "stored w2 = Some s"
      using run_stored [of order s "snd ?n" "t @ [ScNow (fst ?n)]"] n by auto
    have "RetryOnConflict DefaultRetry_steps (record_round (schedule_tracing env) s (fst ?n) k)
        (w2, (t @ [ScNow (fst ?n)]) @ cs) = (None, (w', t'))"
      using assms(1) Some due run(1)
      by (auto simp: reconcileInterval_def round_base_def Let_def split: option.splits prod.splits)
    then have rec: "t' = t @ ScNow (fst ?n) # cs" "\<exists>s'. stored w' = Some s' \<and>
        anchor s' = (csCreationTimestamp s, Some (stored_time (fst ?n)), tgInterval (csTriggers (csSpec s)))"
      using record_round_stored [OF _ run(3)] by fastforce+
    have "rounds t' \<in> {rounds t, rounds t @ [fst ?n]}" using rounds_round [OF run(2)] rec(1) by simp
    moreover obtain s' where "stored w' = Some s'"
      "anchor s' = (csCreationTimestamp s, Some (stored_time (fst ?n)), tgInterval (csTriggers (csSpec s)))"
      using rec(2) by blast
    ultimately show ?thesis unfolding paced_def using Some due assms(2)
      by (intro disjI2 exI [of _ s] exI [of _ s'] exI [of _ i] exI [of _ "fst ?n"]) simp
  qed
qed

lemma reconcile_paced:
  assumes "Reconcile_schedule (schedule_tracing env) order ns name c (w, t) = Some (Inr r, (w', t'), c')"
  shows "paced (stored w) t (stored w') t'"
proof (cases "fst (seGet env ns name w)")
  case (Inl err)
  then have "w' = snd (seGet env ns name w) \<and> t' = t"
    using assms by (auto simp: Reconcile_schedule_def split: option.splits)
  then show ?thesis using get_stored by (simp add: paced_def undisturbed_refl)
next
  case (Inr s)
  then have s: "stored w = Some s" by (rule get_result)
  let ?g = "snd (seGet env ns name w)"
  have g: "stored ?g = Some s" using get_stored s by simp
  have key: "csObjectNamespace s = ns" "csName s = name" using stored_key [OF s] by simp_all
  have upd: "paced (stored w) t (stored (snd (seUpdate env (s\<lparr>csFinalizers := fs\<rparr>) ?g))) t" for fs
    using update_stored [of "s\<lparr>csFinalizers := fs\<rparr>" ?g s] key g s by (auto simp: paced_def undisturbed_def anchor_def)
  consider (touch) fs where "w' = snd (seUpdate env (s\<lparr>csFinalizers := fs\<rparr>) ?g)" "t' = t" | (gone) "w' = ?g" "t' = t"
    | (interval) "reconcileInterval (schedule_tracing env) order s (?g, t) = (Inr r, (w', t'))"
    using assms Inr by (auto simp: Reconcile_schedule_def Let_def split: option.splits if_splits prod.splits)
  then show ?thesis
  proof cases
    case touch
    then show ?thesis using upd by simp
  next
    case gone
    then show ?thesis using g s by (simp add: paced_def undisturbed_refl)
  next
    case interval
    then show ?thesis using reconcileInterval_paced [OF interval g] g s by simp
  qed
qed

end

text \<open>
  The life of one schedule under reconciles that return no error. Each may run the goroutines in
  its own order. Between them anything may happen to the world that leaves the creation time, the
  last checkpoint time and the interval of the schedule alone, or removes it.
\<close>

inductive schedule_history ::
  "'w ScheduleEnv \<Rightarrow> ('w \<Rightarrow> CheckpointSchedule option) \<Rightarrow> string \<Rightarrow> string \<Rightarrow> 'w \<Rightarrow>
     'w \<times> ScheduleCall list \<Rightarrow> ScheduleController \<Rightarrow> bool"
  for env stored ns name w0 where
  created: "schedule_history env stored ns name w0 (w0, []) c"
| reconciled: "schedule_history env stored ns name w0 (w, t) c \<Longrightarrow>
    Reconcile_schedule (schedule_tracing env) order ns name c (w, t) = Some (Inr r, (w', t'), c') \<Longrightarrow>
    schedule_history env stored ns name w0 (w', t') c'"
| waited: "schedule_history env stored ns name w0 (w, t) c \<Longrightarrow> undisturbed (stored w) (stored w') \<Longrightarrow>
    schedule_history env stored ns name w0 (w', t) c"

definition on_time :: "time \<Rightarrow> duration \<Rightarrow> CheckpointSchedule option \<Rightarrow> ScheduleCall list \<Rightarrow> bool" where
  "on_time base i so t \<longleftrightarrow>
     (\<forall>s. so = Some s \<longrightarrow> tgInterval (csTriggers (csSpec s)) = Some i \<and> base \<le> round_base s \<and>
        (\<forall>n \<in> set (rounds t). n - second < round_base s)) \<and>
     sorted_wrt (\<lambda>old new. i - second < new - old) (rounds t) \<and> (\<forall>n \<in> set (rounds t). base + i \<le> n)"

lemma stored_time_bounds: "n - second < stored_time n" "stored_time n \<le> n"
proof -
  have "0 \<le> n mod second" "n mod second < second" by simp_all
  then show "n - second < stored_time n" "stored_time n \<le> n" unfolding stored_time_def by linarith+
qed

lemma anchor_eq:
  "anchor s' = anchor s \<Longrightarrow> round_base s' = round_base s \<and> tgInterval (csTriggers (csSpec s')) = tgInterval (csTriggers (csSpec s))"
  by (simp add: anchor_def round_base_def split: option.split)

lemma undisturbed_on_time: "undisturbed so so' \<Longrightarrow> rounds t' = rounds t \<Longrightarrow> on_time base i so t \<Longrightarrow> on_time base i so' t'"
  unfolding undisturbed_def on_time_def by (auto dest: anchor_eq)

lemma round_on_time:
  assumes "second \<le> i" "on_time base i (Some s) t" "round_base s + i \<le> n" "rounds t' \<in> {rounds t, rounds t @ [n]}"
    "anchor s' = (csCreationTimestamp s, Some (stored_time n), tgInterval (csTriggers (csSpec s)))"
  shows "on_time base i (Some s') t'"
proof -
  have i: "tgInterval (csTriggers (csSpec s)) = Some i" and b: "base \<le> round_base s"
    and past: "\<And>m. m \<in> set (rounds t) \<Longrightarrow> m - second < round_base s"
    and sorted: "sorted_wrt (\<lambda>old new. i - second < new - old) (rounds t)" and first: "\<And>m. m \<in> set (rounds t) \<Longrightarrow> base + i \<le> m"
    using assms(2) by (auto simp: on_time_def)
  have base: "round_base s' = stored_time n" "tgInterval (csTriggers (csSpec s')) = Some i"
    using assms(5) i by (auto simp: anchor_def round_base_def)
  have gap: "i - second < n - m" if "m \<in> set (rounds t)" for m using past [OF that] assms(3) by linarith
  have "m - second < stored_time n" if "m \<in> set (rounds t')" for m
  proof (cases "m = n")
    case False
    then have "m \<in> set (rounds t)" using that assms(4) by auto
    then show ?thesis using gap [of m] assms(1) stored_time_bounds(1) [of n] by linarith
  qed (simp add: stored_time_bounds)
  moreover have "base \<le> stored_time n" using b assms(1,3) stored_time_bounds(1) [of n] by linarith
  moreover have "sorted_wrt (\<lambda>old new. i - second < new - old) (rounds t')"
    using assms(4) sorted gap by (auto simp: sorted_wrt_append)
  moreover have "base + i \<le> m" if "m \<in> set (rounds t')" for m
    using that assms(3,4) first b by fastforce
  ultimately show ?thesis unfolding on_time_def using base by auto
qed

lemma paced_on_time:
  assumes "second \<le> i" "paced so t so' t'" "on_time base i so t"
  shows "on_time base i so' t'"
  using assms(2) unfolding paced_def
proof (elim disjE exE conjE)
  assume "rounds t' = rounds t" "undisturbed so so'"
  then show ?thesis using undisturbed_on_time assms(3) by blast
next
  fix s s' j n
  assume h: "so = Some s" "so' = Some s'" "tgInterval (csTriggers (csSpec s)) = Some j" "round_base s + j \<le> n"
    "rounds t' \<in> {rounds t, rounds t @ [n]}"
    "anchor s' = (csCreationTimestamp s, Some (stored_time n), tgInterval (csTriggers (csSpec s)))"
  then have "j = i" using assms(3) by (simp add: on_time_def)
  then show ?thesis using round_on_time [OF assms(1) _ _ h(5,6)] assms(3) h by simp
qed

context schedule_store
begin

lemma history_on_time:
  assumes "schedule_history env stored ns name w0 (w, t) c" "stored w0 = Some s0"
    "tgInterval (csTriggers (csSpec s0)) = Some i" "second \<le> i"
  shows "on_time (round_base s0) i (stored w) t"
  using assms(1)
proof (induction "(w, t)" c arbitrary: w t rule: schedule_history.induct)
  case (created c)
  then show ?case using assms(2,3) by (simp add: on_time_def)
next
  case (reconciled w t c order r w' t' c')
  then show ?case using paced_on_time [OF assms(4) reconcile_paced] by blast
next
  case (waited w t c w')
  then show ?case using undisturbed_on_time by blast
qed

end

section \<open>An API server in memory\<close>

text \<open>The world is the time and the stored schedules; a checkpoint takes a second.\<close>

type_synonym shelf = "time \<times> CheckpointSchedule list"

definition shelf_stored :: "string \<Rightarrow> string \<Rightarrow> shelf \<Rightarrow> CheckpointSchedule option" where
  "shelf_stored ns name w = find (\<lambda>s. csObjectNamespace s = ns \<and> csName s = name) (snd w)"

definition shelf_write :: "CheckpointSchedule \<Rightarrow> (CheckpointSchedule \<Rightarrow> CheckpointSchedule) \<Rightarrow> shelf \<Rightarrow> ApiError option \<times> shelf" where
  "shelf_write d f w =
     (if shelf_stored (csObjectNamespace d) (csName d) w = None then (Some NotFound, w)
      else (None, (fst w, map (\<lambda>s. if csObjectNamespace s = csObjectNamespace d \<and> csName s = csName d then f s else s) (snd w))))"

definition shelf_env :: "shelf ScheduleEnv" where
  "shelf_env =
     \<lparr>seGet = (\<lambda>ns name w. (case shelf_stored ns name w of None \<Rightarrow> Inl NotFound | Some s \<Rightarrow> Inr s, w)),
      seUpdate = (\<lambda>d. shelf_write d (\<lambda>s. s\<lparr>csFinalizers := csFinalizers d\<rparr>)),
      seUpdateStatus = (\<lambda>d. shelf_write d (\<lambda>s. s\<lparr>csStatus :=
        (csStatus d)\<lparr>csLastCheckpointTime := map_option stored_time (csLastCheckpointTime (csStatus d))\<rparr>\<rparr>)),
      seTriggers =
        \<lparr>tePods = \<lparr>plSelector = (\<lambda>_. None), plList = (\<lambda>_ _ w. (Inr [lab_pod], w))\<rparr>,
         teCheckpoint = (\<lambda>_ _ _ _ w. (Inr ''archive.tar'', (fst w + second, snd w))),
         tePatchAnnotations = (\<lambda>_ w. (None, w)), teNodes = (\<lambda>w. (Inr [], w)), teHTTPClient = None,
         teGetMetrics = (\<lambda>_ _ w. (Inl ''unavailable'', w)), teMetricsJSON = (\<lambda>_. None), teStatusJSON = (\<lambda>_. None),
         teParseQuantity = (\<lambda>_. None), teNow = (\<lambda>w. (fst w, w))\<rparr>\<rparr>"

lemma shelf_write_stored:
  assumes "shelf_stored ns name w = Some s" "csObjectNamespace d = ns" "csName d = name"
    "\<And>x. csObjectNamespace (f x) = csObjectNamespace x \<and> csName (f x) = csName x"
  shows "fst (shelf_write d f w) = None \<and> shelf_stored ns name (snd (shelf_write d f w)) = Some (f s)"
  using assms find_map_key [OF assms(1) [unfolded shelf_stored_def],
      of "\<lambda>s. if csObjectNamespace s = csObjectNamespace d \<and> csName s = csName d then f s else s"]
  by (auto simp: shelf_stored_def shelf_write_def find_Some_iff)

interpretation shelf: schedule_store shelf_env "shelf_stored ns name" ns name for ns name
proof
  fix d s :: CheckpointSchedule and w :: shelf
  assume d: "csObjectNamespace d = ns" "csName d = name" "shelf_stored ns name w = Some s"
  show "shelf_stored ns name (snd (seUpdate shelf_env d w)) \<in> {None, Some s, Some (s\<lparr>csFinalizers := csFinalizers d\<rparr>)}"
    using shelf_write_stored [OF d(3,1,2), of "\<lambda>s. s\<lparr>csFinalizers := csFinalizers d\<rparr>"] by (simp add: shelf_env_def)
  let ?f = "\<lambda>s. s\<lparr>csStatus := (csStatus d)\<lparr>csLastCheckpointTime := map_option stored_time (csLastCheckpointTime (csStatus d))\<rparr>\<rparr>"
  show "write_outcome (fst (seUpdateStatus shelf_env d w)) s (?f s) (shelf_stored ns name (snd (seUpdateStatus shelf_env d w)))"
    using shelf_write_stored [OF d(3,1,2), of ?f] by (simp add: shelf_env_def write_outcome_def)
qed (auto simp: shelf_env_def shelf_stored_def find_Some_iff split: option.splits)

section \<open>Properties of the cadence\<close>


definition lab_hourly :: "CheckpointSchedule \<Rightarrow> CheckpointSchedule" where
  "lab_hourly s = s\<lparr>csFinalizers := [checkpointScheduleFinalizer],
     csSpec := (csSpec s)\<lparr>csTriggers := (csTriggers (csSpec s))\<lparr>tgInterval := Some (60 * minute)\<rparr>\<rparr>\<rparr>"

definition lab_after :: "time \<Rightarrow> int \<Rightarrow> CheckpointSchedule" where
  "lab_after t k = (lab_hourly lab_schedule)\<lparr>csStatus :=
     \<lparr>csConditions = [], csLastCheckpointTime = Some t, csCheckpointsCreated = k\<rparr>\<rparr>"

lemma shelf_simps:
  "getMatchingPods (tePods (seTriggers shelf_env)) ns sel w = (Inr [lab_pod], w)"
  "teCheckpoint (seTriggers shelf_env) a b c d w = (Inr ''archive.tar'', (fst w + second, snd w))"
  "teNow (seTriggers shelf_env) w = (fst w, w)"
  "seGet shelf_env ns name w = (case shelf_stored ns name w of None \<Rightarrow> Inl NotFound | Some s \<Rightarrow> Inr s, w)"
  "seUpdateStatus shelf_env x w = shelf_write x (\<lambda>s. s\<lparr>csStatus :=
     (csStatus x)\<lparr>csLastCheckpointTime := map_option stored_time (csLastCheckpointTime (csStatus x))\<rparr>\<rparr>) w"
  by (simp_all add: shelf_env_def getMatchingPods_def lab_pod_def PodRunning_def)

lemma RetryOnConflict_first: "fn w = (None, w') \<Longrightarrow> RetryOnConflict (Suc n) fn w = (None, w')"
  by simp

lemma lab_reconciled:
  assumes "startTriggers ''shop/s'' s c = Some c1" "s = lab_hourly lab_schedule \<and> k = 0 \<and> b = 0 \<or> s = lab_after b k" "b + 60 * minute \<le> n" "0 \<le> k" "k < 100"
  shows "Reconcile_schedule (schedule_tracing shelf_env) id ''shop'' ''s'' c ((n, [s]), t) =
    Some (Inr (requeue_after (60 * minute)), ((n + second, [lab_after (stored_time n) (k + 1)]),
      t @ [ScNow n, ScCheckpoint ''shop'' ''db-0'' ''db'' ''n1'']), c1)"
proof -
  have s: "csObjectNamespace s = ''shop''" "csName s = ''s''" "csDeletionTimestamp s = None"
    "csFinalizers s = [checkpointScheduleFinalizer]" "csSpec s = csSpec (lab_hourly lab_schedule)" "round_base s = b"
    "csCheckpointsCreated (csStatus s) = k" "s\<lparr>csStatus := st\<rparr> = (lab_hourly lab_schedule)\<lparr>csStatus := st\<rparr>"
    "csConditions (csStatus s) = []"
    "csObjectNamespace (lab_hourly lab_schedule) = ''shop''" "csName (lab_hourly lab_schedule) = ''s''" for st
    using assms(2) by (auto simp: lab_after_def lab_hourly_def lab_schedule_def round_base_def)
  let ?t = "t @ [ScNow n, ScCheckpoint ''shop'' ''db-0'' ''db'' ''n1'']"
  have run: "runScheduledCheckpoints (seTriggers (schedule_tracing shelf_env)) id s ((n, [s]), t @ [ScNow n]) =
      (1, ((n + second, [s]), ?t))"
    by (simp add: runScheduledCheckpoints_def scheduled_targets_def shelf_simps s lab_hourly_def lab_pod_def lab_schedule_def wrap32_def)
  have st: "(csStatus s)\<lparr>csLastCheckpointTime := x, csCheckpointsCreated := y\<rparr> =
      \<lparr>csConditions = [], csLastCheckpointTime = x, csCheckpointsCreated = y\<rparr>" for x y
    using s(9) by (cases "csStatus s") simp
  have rec: "record_round (schedule_tracing shelf_env) s n 1 ((n + second, [s]), ?t) =
      (None, ((n + second, [lab_after (stored_time n) (k + 1)]), ?t))"
    using assms(4,5) by (simp add: record_round_def shelf_simps shelf_write_def shelf_stored_def s(1,2,7,8,10,11) st lab_after_def wrap64_def)
  have steps: "DefaultRetry_steps = Suc 4" by (simp add: DefaultRetry_steps_def)
  have "reconcileInterval (schedule_tracing shelf_env) id s ((n, [s]), t) =
      (Inr (requeue_after (60 * minute)), ((n + second, [lab_after (stored_time n) (k + 1)]), ?t))"
  proof -
    have "tgInterval (csTriggers (csSpec s)) = Some (60 * minute)" by (simp add: s lab_hourly_def)
    moreover have "teNow (seTriggers shelf_env) (n, [s]) = (n, (n, [s]))" by (simp add: shelf_simps)
    ultimately show ?thesis
      using run RetryOnConflict_first [of "record_round (schedule_tracing shelf_env) s n 1", OF rec, of 4] assms(3) s(6)
      unfolding reconcileInterval_def round_base_def steps by simp
  qed
  moreover have "seGet shelf_env ''shop'' ''s'' (n, [s]) = (Inr s, (n, [s]))"
    by (simp add: shelf_simps shelf_stored_def s)
  ultimately show ?thesis using assms(1) by (simp add: Reconcile_schedule_def s)
qed



end
