(* ===== verification/Spec2Isabelle.thy ===== *)
theory Spec2Isabelle
  imports Commands Checkpoint_Requests Deep_Copy Collector_Handover Garbage_Collector Forensic_Evidence Restore_Safety Schedule_Controller
begin

text \<open>
  Verification of the checkpoint-restore operator, a Kubernetes operator in Go that takes, keeps and
  restores checkpoints of containers.

  \<^bold>\<open>The program.\<close> The operator (\<^verbatim>\<open>cmd/main.go\<close>) runs four controllers: one applies retention policies to
  the archives in the checkpoint directory of a node, one takes checkpoints on a schedule or when a
  trigger fires, one records a chain of hashed snapshots as forensic evidence, and one restores pods from
  archives. Archives are written by the kubelet, which the checkpoint creator asks for them over HTTP. The
  restore controller renders a pod whose annotations name archives and pins these with a \<^verbatim>\<open>.keep\<close> marker that
  the garbage collector honours. On each node the CRI proxy (\<^verbatim>\<open>cmd/cri-proxy/main.go\<close>), between kubelet and
  container runtime, replaces the image of an annotated container by the archive, after checks of its own.

  \<^bold>\<open>Theories, in the order of their imports.\<close>

  \<^item> \<open>Go_Prelude\<close>, \<open>Go_Filepath\<close>, \<open>Go_OS\<close>, \<open>Kube_Objects\<close>: what the code uses of the Go library and of the
    Kubernetes libraries (strings, maps, integer widths, \<^verbatim>\<open>sort.Slice\<close> by its contract, \<^verbatim>\<open>path/filepath\<close>, a file
    system whose calls can fail, status conditions, retry on conflict), and \<^verbatim>\<open>internal/controller/pod_selector.go\<close>.
  \<^item> \<open>Api_PodRestore\<close> (\<^verbatim>\<open>api/v1/podrestore_types.go\<close>): the path checks, characterised exactly.
  \<^item> \<open>Checkpoint_Archive\<close> (\<^verbatim>\<open>internal/checkpointarchive/archive.go\<close>): bounded extraction, the recorded identity.
  \<^item> \<open>Cri_Proxy\<close> (\<^verbatim>\<open>internal/criproxy/proxy.go\<close>): the restore gate, sound and complete, and the relays, which
    deliver a stream item by item and end exactly when it does.
  \<^item> \<open>Commands\<close> (\<^verbatim>\<open>cmd/cri-proxy/main.go\<close>, \<^verbatim>\<open>cmd/main.go\<close>): how the proxy comes to serve a socket and with which
    permissions, socket activation, its shutdown, and the order in which the manager is set up.
  \<^item> \<open>Checkpoint_Pinning\<close> (\<^verbatim>\<open>internal/controller/checkpoint_pinning.go\<close> and the pin functions of
    \<^verbatim>\<open>podrestore_controller.go\<close>): the marker refines a set of owners, and a pin holds under every interleaving.
  \<^item> \<open>Retention_Policies\<close>, \<open>Retention\<close>, \<open>Garbage_Collector\<close>, \<open>Collector_Handover\<close>
    (\<^verbatim>\<open>internal/controller/checkpointrestoreoperator_controller.go\<close>): the policy variables, one level of retention
    and the entry points, the debounced event loop with its retrying reader, and the goroutines, lock and
    channel by which one collector replaces another. The property at the end of this theory puts them together:
    a new archive, once read, brings the level that governs it within its policy.
  \<^item> \<open>Checkpoint_Creator\<close>, \<open>Checkpoint_Requests\<close>, \<open>Checksum\<close> (\<^verbatim>\<open>checkpoint_creator.go\<close>, \<^verbatim>\<open>checksum.go\<close>): requests,
    retries and the lock table; the interleaving of concurrent calls, which for one container amounts to calls
    run alone one after the other; the helper pod and the parser of its log.
  \<^item> \<open>Forensic_Chain\<close>, \<open>Forensic_Evidence\<close> (\<^verbatim>\<open>forensicsnapshotchain_controller.go\<close>): the reconciler, and that it
    refines a phase machine whose evidence only grows and which terminates.
  \<^item> \<open>PodRestore_Controller\<close>, \<open>Restore_Safety\<close> (\<^verbatim>\<open>podrestore_controller.go\<close>): the reconciler, and what it promises
    alone, with the garbage collector, and with the CRI proxy on the node.
  \<^item> \<open>Triggers\<close>, \<open>Trigger_Behaviour\<close>, \<open>Schedule_Controller\<close> (\<^verbatim>\<open>schedule_trigger.go\<close>, \<^verbatim>\<open>annotation_trigger.go\<close>,
    \<^verbatim>\<open>event_trigger.go\<close>, \<^verbatim>\<open>resource_trigger.go\<close>, \<^verbatim>\<open>checkpointschedule_controller.go\<close>): one poll of each trigger, the
    reconciler, the table of running triggers and the cadence of the rounds.
  \<^item> \<open>Go_Heap\<close>, \<open>Deep_Copy\<close> (\<^verbatim>\<open>api/v1/zz_generated.deepcopy.go\<close>, \<^verbatim>\<open>api/v1/groupversion_info.go\<close>): all generated
    copy functions over an explicit memory.

  \<^bold>\<open>Conventions.\<close> A struct is a record with the fields the code uses, a nil-able pointer an option, a map an
  association list, an error a value. \<^verbatim>\<open>int64\<close> and \<^verbatim>\<open>int32\<close> are integers with \<open>wrap64\<close> and \<open>wrap32\<close> where the code
  can overflow; times and durations are nanoseconds, quantities nano-units. A panic is \<open>None\<close>. The API server,
  the kubelet, the runtime, the clock and the JSON decoders are not part of the repository: they are records
  of functions that thread an arbitrary world \<open>'w\<close>, so every theorem holds for all of their answers, failures
  included, up to the laws it names. The laws are locales, each with an interpretation: \<open>slice_sorter\<close> and
  \<open>archive_sorter\<close> on an insertion sort, \<open>marker_codec\<close> on the JSON of the marker, \<open>chain_store\<close>, \<open>restore_store\<close>,
  \<open>restore_pins\<close> and \<open>schedule_store\<close> on in-memory API servers with scripted conflicts and failures, \<open>trigger_clock\<close> on a
  counting clock, \<open>vendor\<close> on copy functions of a part of the API machinery, and \<open>deep_copy\<close>, the contract of a deep
  copy, on the generated functions of the four resources. What a reconcile does to the outside is stated in two
  ways: over a recording wrapper of the environment, or by an environment that differs on the calls that
  must not happen.

  \<^bold>\<open>Concurrency.\<close> Operations under one mutex are one step. Where the order of steps matters it is explicit: pins
  against the collector (\<open>Checkpoint_Pinning\<close>), calls of the checkpoint creator against each other (\<open>Checkpoint_Requests\<close>), timers against writes
  (\<open>Garbage_Collector\<close>), the goroutines of collectors against restarts (\<open>Collector_Handover\<close>). The goroutines of a
  round of scheduled checkpoints run in an order that is a parameter.

  \<^bold>\<open>Bounds and fuel.\<close> No model runs on fuel: loops recurse over their data, and the retries carry the bounds of the
  source (three requests, three reads, thirty polls of the helper pod, the five steps of \<^verbatim>\<open>retry.DefaultRetry\<close>).
  That streams, collectors and checkpoint calls come to an end is proved as such.

  \<^bold>\<open>Not modelled.\<close> Logging and the wording of most messages; when the tickers of the triggers fire, which is
  left open; the request loop of the proxy's health server; the bodies of \<^verbatim>\<open>SetupWithManager\<close> of
  the schedule, chain and restore controllers, which only register watches; the registration of schemes in \<^verbatim>\<open>init\<close>; the
  kubebuilder markers, which generate manifests; gzip, tar and JSON decoding, HTTP and gRPC, inotify and the pod
  informer, which are library code.
\<close>

section \<open>From a new archive to its policy\<close>

text \<open>
  The evaluation of a written archive as the garbage collector runs it: the reader is the
  archive reader, and the world is the state that retention works on. The rest of the world
  may change while the reader waits.
\<close>

definition collector_reader ::
  "(FS \<Rightarrow> ArchiveEnv) \<Rightarrow> ('w RetentionState \<Rightarrow> bool) \<Rightarrow>
     (duration \<Rightarrow> 'w RetentionState \<Rightarrow> bool \<times> 'w RetentionState) \<Rightarrow> 'w RetentionState ReadEnv" where
  "collector_reader archives canceled sleep =
     \<lparr>rdErr = canceled, rdRead = (\<lambda>path s. (getCheckpointArchiveInformation archives (rFS s) path, s)),
      rdSleep = sleep\<rparr>"

text \<open>Applying policies does what the first level does, and afterwards only removes more.\<close>

lemma applyPolicies_first:
  assumes "slice_sorter sortSlice" "plain_details d" "IsAbs (checkpointDirectory policies)"
    and c: "policy_calls policies d = (level, policy) # rest"
  obtains P where "survivors (rFS (applyPolicies sortSlice archives reader policies d s)) as =
    filter P (survivors (rFS (handleCheckpointsForLevel sortSlice archives reader policies d level policy s)) as)"
proof -
  let ?call = "\<lambda>(level, policy). handleCheckpointsForLevel sortSlice archives reader policies d level policy"
  let ?s1 = "handleCheckpointsForLevel sortSlice archives reader policies d level policy s"
  have "\<exists>ds. rFS (fold ?call rest ?s1) = removes ds (rFS ?s1) \<and> (\<forall>a\<in>set ds. directory_archive policies a)"
    using handle_only_removes [OF assms(1-3)] by (intro fold_only_removes) (auto split: prod.splits)
  then obtain ds where ds: "rFS (fold ?call rest ?s1) = removes ds (rFS ?s1)" "all_tar ds"
    by (auto simp: all_tar_def)
  have "rFS (applyPolicies sortSlice archives reader policies d s) = removes ds (rFS ?s1)"
    using ds(1) by (simp add: applyPolicies_def c)
  then have "survivors (rFS (applyPolicies sortSlice archives reader policies d s)) as =
      filter (\<lambda>a. fs_lookup (removes ds (rFS ?s1)) a \<noteq> None) (survivors (rFS ?s1) as)"
    unfolding survivors_def filter_filter by (intro filter_cong) (auto simp: removes_effect(1) [OF ds(2)])
  then show ?thesis by (rule that)
qed

text \<open>C14: When an archive has been written and the collector has read whose it is, the level
  of retention that governs it is brought within its policy: of the level's archives no unpinned
  one is larger than allowed, and their number and total size are within the limits unless only
  pinned archives are left. The identity is the one recorded in the archive itself.\<close>

theorem new_archive_meets_policy:
  assumes "slice_sorter sortSlice" and "IsAbs (checkpointDirectory policies)"
    and read: "readCheckpointArchiveInformationWithRetry (collector_reader archives canceled sleep) path
      checkpointArchiveReadAttempts checkpointArchiveReadRetryDelay s = (Inr d, s1)" and "\<not> canceled s1"
    and "plain_details d" and c: "policy_calls policies d = (level, policy) # rest" and "\<not> policy_disabled policy"
    and a: "level_archives archives policies d level (rFS s1) = Some as" "files_ok (rFS s1) as"
    and "RetainOrphan policy \<or> fst (fst (resourceExistsInCluster reader level d (rCluster s1)))"
  shows "getCheckpointArchiveInformation archives (rFS s1) path = Inr d \<and>
    meets_policy policy (rFS s1) (survivors (rFS (handleWriteFinished (collector_reader archives canceled sleep)
      (applyPolicies sortSlice archives reader policies) path s)) as)"
proof -
  have h: "handleWriteFinished (collector_reader archives canceled sleep)
      (applyPolicies sortSlice archives reader policies) path s = applyPolicies sortSlice archives reader policies d s1"
    using read assms(4) by (simp add: handleWriteFinished_def handleWriteFinishedWithReader_def)
      (simp add: collector_reader_def)
  from read_attempts_success [OF read [unfolded readCheckpointArchiveInformationWithRetry_def Let_def]]
  have "getCheckpointArchiveInformation archives (rFS s1) path = Inr d" by (auto simp: collector_reader_def)
  moreover obtain P where "survivors (rFS (applyPolicies sortSlice archives reader policies d s1)) as =
      filter P (survivors (rFS (handleCheckpointsForLevel sortSlice archives reader policies d level policy s1)) as)"
    by (rule applyPolicies_first [OF assms(1,5,2) c])
  moreover have "files_ok (rFS s1) (survivors fs' as)" for fs'
    using a(2) by (simp add: files_ok_def survivors_def)
  moreover note level_meets_policy [OF assms(1,5,2,7) a assms(10)]
  ultimately show ?thesis unfolding h by (simp add: meets_policy_filter)
qed

text \<open>A pod whose policy allows one archive, and a second one that has just been written.\<close>

definition one_archive_snapshot :: policySnapshot where
  "one_archive_snapshot = ex_snapshot\<lparr>podPolicies :=
     [\<lparr>ppNamespace = ''team'', ppPod = ''web'', ppRetainOrphan = None,
       ppMaxCheckpoints = Some 1, ppMaxCheckpointSize = None, ppMaxTotalSize = None\<rparr>]\<rparr>"

definition one_archive_policy :: Policy where
  "one_archive_policy = \<lparr>RetainOrphan = True, MaxCheckpoints = 1, MaxCheckpointSize = q1Ei, MaxTotalSize = q1Ei\<rparr>"

lemma one_archive_premises:
  "IsAbs (checkpointDirectory one_archive_snapshot)"
  "getCheckpointArchiveInformation (\<lambda>_. ex_archive_env) ex_fs ex_a1 = Inr ex_details"
  "policy_calls one_archive_snapshot ex_details = [(''pod'', one_archive_policy)]"
  "\<not> policy_disabled one_archive_policy"
  "level_archives (\<lambda>_. ex_archive_env) one_archive_snapshot ex_details ''pod'' ex_fs = Some [ex_a1, ex_a2]"
  by code_simp+

lemma one_archive_read:
  "readCheckpointArchiveInformationWithRetry (collector_reader (\<lambda>_. ex_archive_env) (\<lambda>_. False) (\<lambda>_ s. (False, s)))
     ex_a1 checkpointArchiveReadAttempts checkpointArchiveReadRetryDelay ex_state = (Inr ex_details, ex_state)"
  using one_archive_premises(2)
  by (simp add: readCheckpointArchiveInformationWithRetry_def Let_def read_attempts.simps collector_reader_def ex_state_def)

theorem new_archive_meets_policy_witness:
  "length (survivors (rFS (handleWriteFinished
      (collector_reader (\<lambda>_. ex_archive_env) (\<lambda>_. False) (\<lambda>_ s. (False, s)))
      (applyPolicies insertionSort (\<lambda>_. ex_archive_env) (ex_reader NotFound) one_archive_snapshot) ex_a1 ex_state))
    [ex_a1, ex_a2]) \<le> 1"
proof -
  have fs: "rFS ex_state = ex_fs" by (simp add: ex_state_def)
  have unpinned: "\<not> isCheckpointPinned ex_fs ex_a1" "\<not> isCheckpointPinned ex_fs ex_a2" by code_simp+
  have "meets_policy one_archive_policy ex_fs (survivors (rFS (handleWriteFinished
      (collector_reader (\<lambda>_. ex_archive_env) (\<lambda>_. False) (\<lambda>_ s. (False, s)))
      (applyPolicies insertionSort (\<lambda>_. ex_archive_env) (ex_reader NotFound) one_archive_snapshot) ex_a1 ex_state))
    [ex_a1, ex_a2])"
    by (rule new_archive_meets_policy [OF ex_premises(1) one_archive_premises(1) one_archive_read, THEN conjunct2,
        unfolded fs, OF _ ex_premises(2) one_archive_premises(3,4,5) ex_premises(5)])
      (simp_all add: one_archive_policy_def)
  then show ?thesis using unpinned
    by (auto simp: meets_policy_def one_archive_policy_def list_all_iff survivors_def split: if_splits)
qed

end
